(* ===== verification/Prelude.thy ===== *)
theory Prelude
  imports Main "HOL-Library.Word" "HOL-Library.Char_ord" "HOL-Library.List_Lexorder" "HOL-Library.AList"
begin

text \<open>
  Shared vocabulary of the development: Go's \<open>int64\<close> arithmetic, Go maps as
  association lists, Go's three ways of ending a call (a value, an error, a panic), the
  functions of Go's package \<open>strings\<close> that the program calls, and the interface of a
  codec (an encoder with a decoder that undoes it), which the base64, decimal and JSON
  theories implement.
\<close>

named_theorems go_simps "unfolding rules for the result and action combinators"

subsection \<open>Machine integers\<close>

text \<open>
  Go's \<open>int64\<close> is an \<^typ>\<open>int\<close> between $-2^{63}$ and $2^{63}-1$; the operations that
  can leave this range are wrapped explicitly with \<open>wrap64\<close>.
\<close>

definition int64_range :: "int \<Rightarrow> bool" where
  "int64_range x \<longleftrightarrow> - (2 ^ 63) \<le> x \<and> x < 2 ^ 63"

definition wrap64 :: "int \<Rightarrow> int" where
  "wrap64 x = (x + 2 ^ 63) mod 2 ^ 64 - 2 ^ 63"

text \<open>Go's integer division truncates towards zero.\<close>

definition go_div :: "int \<Rightarrow> int \<Rightarrow> int" where
  "go_div a b = sgn a * sgn b * (\<bar>a\<bar> div \<bar>b\<bar>)"

lemma wrap64_range: "int64_range (wrap64 x)"
  by (simp add: int64_range_def wrap64_def)

lemma wrap64_id [simp]: "int64_range x \<Longrightarrow> wrap64 x = x"
  by (simp add: int64_range_def wrap64_def)

lemma wrap64_sint: "wrap64 x = sint (word_of_int x :: 64 word)"
  by (simp add: wrap64_def sint_sbintrunc' signed_take_bit_eq_take_bit_shift take_bit_eq_mod)

lemma go_div_nonneg: "0 \<le> a \<Longrightarrow> 0 < b \<Longrightarrow> go_div a b = a div b"
  by (cases "a = 0") (simp_all add: go_div_def)

lemma go_div2_less_iff: "go_div a 2 < c \<longleftrightarrow> (if 0 \<le> a then a < 2 * c else a div 2 + a mod 2 < c)"
proof (cases "0 \<le> a")
  case True
  then show ?thesis by (auto simp: go_div_nonneg)
next
  case False
  then have "go_div a 2 = - ((- a) div 2)" by (simp add: go_div_def)
  moreover from False have "- ((- a) div 2) = a div 2 + a mod 2" by presburger
  ultimately show ?thesis using False by simp
qed


subsection \<open>The three ways a Go call ends\<close>

text \<open>
  An \<open>error\<close> value is a plain error, the typed error of a non-200 origin answer
  (\<open>originStatusError\<close>), or an error wrapped by \<open>fmt.Errorf\<close> with \<open>%w\<close>.
  A call returns a value, returns an error, or panics; a panic is not an error: no
  \<open>if err != nil\<close> sees it.
\<close>

datatype goerr = Err string | OriginStatus string int | Wrapped string goerr

datatype 'a go = Ret 'a | Fail goerr | Panic string

type_synonym ('w, 'a) act = "'w \<Rightarrow> 'a go \<times> 'w"

text \<open>The idiom \<open>x, err := m; if err != nil { return err }\<close>, with and without state.\<close>

definition go_bind :: "'a go \<Rightarrow> ('a \<Rightarrow> 'b go) \<Rightarrow> 'b go" where
  "go_bind m f = (case m of Ret x \<Rightarrow> f x | Fail e \<Rightarrow> Fail e | Panic p \<Rightarrow> Panic p)"

definition act_bind :: "('w, 'a) act \<Rightarrow> ('a \<Rightarrow> ('w, 'b) act) \<Rightarrow> ('w, 'b) act" where
  "act_bind m f w = (case m w of (r, w') \<Rightarrow>
     (case r of Ret x \<Rightarrow> f x w' | Fail e \<Rightarrow> (Fail e, w') | Panic p \<Rightarrow> (Panic p, w')))"

definition act_ret :: "'a \<Rightarrow> ('w, 'a) act" where
  "act_ret x w = (Ret x, w)"

text \<open>\<open>x, err := m\<close> where the code goes on with the error in hand; a panic still ends the call.\<close>

definition act_try :: "('w, 'a) act \<Rightarrow> ('w, 'a go) act" where
  "act_try m w = (case m w of (r, w') \<Rightarrow>
     (case r of Panic p \<Rightarrow> (Panic p, w') | _ \<Rightarrow> (Ret r, w')))"

definition act_fail :: "goerr \<Rightarrow> ('w, 'a) act" where
  "act_fail e w = (Fail e, w)"

text \<open>A pure call inside a stateful one.\<close>

definition act_pure :: "'a go \<Rightarrow> ('w, 'a) act" where
  "act_pure r w = (r, w)"

text \<open>A loop whose body may fail: the first failure ends it.\<close>

fun act_iter :: "('a \<Rightarrow> ('w, unit) act) \<Rightarrow> 'a list \<Rightarrow> ('w, unit) act" where
  "act_iter f [] = act_ret ()"
| "act_iter f (x # xs) = act_bind (f x) (\<lambda>_. act_iter f xs)"

lemma go_bind_simps [simp, go_simps]:
  "go_bind (Ret x) f = f x" "go_bind (Fail e) f = Fail e" "go_bind (Panic p) f = Panic p"
  by (simp_all add: go_bind_def)

lemma go_bind_eq_Ret_iff: "go_bind m f = Ret y \<longleftrightarrow> (\<exists>x. m = Ret x \<and> f x = Ret y)"
  by (cases m) auto

lemma act_bind_eq_Ret_iff:
  "act_bind m f w = (Ret y, w'') \<longleftrightarrow> (\<exists>x w'. m w = (Ret x, w') \<and> f x w' = (Ret y, w''))"
  by (cases "m w"; cases "fst (m w)") (auto simp: act_bind_def)

lemma act_bind_app [go_simps]:
  "m w = (Ret x, w') \<Longrightarrow> act_bind m f w = f x w'"
  "m w = (Fail e, w') \<Longrightarrow> act_bind m f w = (Fail e, w')"
  "m w = (Panic p, w') \<Longrightarrow> act_bind m f w = (Panic p, w')"
  by (simp_all add: act_bind_def)

lemma act_ret_eq [simp]: "act_ret x w = (Ret x, w)"
  by (simp add: act_ret_def)

lemma act_simple_eq [simp]: "act_fail e w = (Fail e, w)" "act_pure r w = (r, w)"
  by (simp_all add: act_fail_def act_pure_def)

lemma act_try_snd [simp]: "snd (act_try m w) = snd (m w)"
  by (auto simp: act_try_def split: prod.split go.split)

lemma act_try_eq_Ret_iff: "act_try m w = (Ret r, w') \<longleftrightarrow> m w = (r, w') \<and> (\<forall>p. r \<noteq> Panic p)"
  by (cases "m w"; cases "fst (m w)") (auto simp: act_try_def)

lemma act_try_not_Fail [simp]: "act_try m w \<noteq> (Fail e, w')"
  by (auto simp: act_try_def split: prod.split go.split)

lemma act_try_eq_Panic_iff [simp]: "act_try m w = (Panic p, w') \<longleftrightarrow> m w = (Panic p, w')"
  by (cases "m w"; cases "fst (m w)") (auto simp: act_try_def)

lemma act_bind_eq_Fail_iff:
  "act_bind m f w = (Fail e, w'') \<longleftrightarrow> m w = (Fail e, w'') \<or> (\<exists>x w'. m w = (Ret x, w') \<and> f x w' = (Fail e, w''))"
  by (cases "m w"; cases "fst (m w)") (auto simp: act_bind_def)

lemma act_bind_try:
  "act_bind (act_try m) f w = (case m w of (r, w') \<Rightarrow> (case r of Panic p \<Rightarrow> (Panic p, w') | _ \<Rightarrow> f r w'))"
  by (cases "m w"; cases "fst (m w)") (auto simp: act_bind_def act_try_def)

lemma act_bind_eq_Panic_iff:
  "act_bind m f w = (Panic p, w'') \<longleftrightarrow> m w = (Panic p, w'') \<or> (\<exists>x w'. m w = (Ret x, w') \<and> f x w' = (Panic p, w''))"
  by (cases "m w"; cases "fst (m w)") (auto simp: act_bind_def)

text \<open>A property of the state that every action of a sequence keeps.\<close>

lemma act_bind_keeps:
  "P (snd (m w)) \<Longrightarrow> (\<And>x w'. m w = (Ret x, w') \<Longrightarrow> P w' \<Longrightarrow> P (snd (f x w'))) \<Longrightarrow> P (snd (act_bind m f w))"
  by (cases "m w"; cases "fst (m w)") (auto simp: act_bind_def)

lemma act_iter_keeps:
  "P w \<Longrightarrow> (\<And>x w. x \<in> set xs \<Longrightarrow> P w \<Longrightarrow> P (snd (f x w))) \<Longrightarrow> P (snd (act_iter f xs w))"
proof (induction xs arbitrary: w)
  case (Cons x xs)
  show ?case unfolding act_iter.simps
    by (rule act_bind_keeps) (use Cons in auto)
qed simp

subsection \<open>Go maps\<close>

text \<open>
  A Go map is an association list with distinct keys; Go iterates over a map in an
  unspecified order, so a fact about an iteration must not depend on the list's order.
\<close>

type_synonym 'v gomap = "(string \<times> 'v) list"

definition wf_gomap :: "'v gomap \<Rightarrow> bool" where
  "wf_gomap m \<longleftrightarrow> distinct (map fst m)"

definition gomap_of :: "(string \<times> 'v) list \<Rightarrow> 'v gomap" where
  "gomap_of kvs = fold (\<lambda>(k, v) m. AList.update k v m) kvs []"

lemma wf_gomap_Nil [simp, intro]: "wf_gomap []"
  by (simp add: wf_gomap_def)

lemma wf_gomap_update [simp, intro]: "wf_gomap m \<Longrightarrow> wf_gomap (AList.update k v m)"
  by (simp add: wf_gomap_def distinct_update)

lemma wf_gomap_delete [simp, intro]: "wf_gomap m \<Longrightarrow> wf_gomap (AList.delete k m)"
  by (simp add: wf_gomap_def distinct_delete)

lemma wf_gomap_filter: "wf_gomap m \<Longrightarrow> wf_gomap (filter P m)"
  unfolding wf_gomap_def by (rule distinct_map_filter)

lemma set_AList_update: "set (AList.update k v m) \<subseteq> insert (k, v) (set m)"
  by (induction m) auto

lemma map_of_AList_update [simp]: "map_of (AList.update k v m) = (map_of m)(k \<mapsto> v)"
  by (rule update_conv')

lemma map_of_AList_delete [simp]: "map_of (AList.delete k m) = (map_of m)(k := None)"
  by (rule delete_conv')

lemma AList_delete_fresh: "k \<notin> fst ` set m \<Longrightarrow> AList.delete k m = m"
  by (induction m) auto

lemma AList_update_fresh: "k \<notin> fst ` set m \<Longrightarrow> AList.update k v m = m @ [(k, v)]"
  by (induction m) auto

lemma gomap_of_distinct_aux:
  "distinct (map fst (m @ kvs)) \<Longrightarrow> fold (\<lambda>(k, v) m. AList.update k v m) kvs m = m @ kvs"
proof (induction kvs arbitrary: m)
  case (Cons kv kvs)
  obtain k v where kv: "kv = (k, v)" by force
  with Cons.prems have "k \<notin> fst ` set m" by auto
  with Cons kv show ?case by (simp add: AList_update_fresh)
qed simp

lemma gomap_of_distinct [simp]: "wf_gomap kvs \<Longrightarrow> gomap_of kvs = kvs"
  using gomap_of_distinct_aux [of "[]" kvs] by (simp add: gomap_of_def wf_gomap_def)

lemma wf_gomap_fold:
  "wf_gomap m \<Longrightarrow> wf_gomap (fold (\<lambda>(k, v) m. AList.update k v m) kvs m)"
  by (induction kvs arbitrary: m) auto

lemma wf_gomap_of [simp, intro]: "wf_gomap (gomap_of kvs)"
  by (simp add: gomap_of_def wf_gomap_fold)

lemma wf_gomap_map_of: "wf_gomap m \<Longrightarrow> (k, v) \<in> set m \<longleftrightarrow> map_of m k = Some v"
  by (auto simp: wf_gomap_def dest: map_of_SomeD)

lemma map_of_filter_value:
  "wf_gomap m \<Longrightarrow> map_of (filter (\<lambda>(k, v). P v) m) k =
     (case map_of m k of None \<Rightarrow> None | Some v \<Rightarrow> if P v then Some v else None)"
proof (induction m)
  case (Cons kv m)
  obtain k' v where kv: "kv = (k', v)" by force
  with Cons.prems have "wf_gomap m" "map_of m k' = None"
    by (auto simp: wf_gomap_def map_of_eq_None_iff)
  with Cons.IH kv show ?case by (auto split: option.split)
qed simp

subsection \<open>Go strings\<close>

text \<open>
  A Go string is a sequence of bytes: an Isabelle \<^typ>\<open>string\<close>, whose characters are the
  256 byte values.
\<close>

definition has_prefix :: "string \<Rightarrow> string \<Rightarrow> bool" where
  "has_prefix p s \<longleftrightarrow> take (length p) s = p"

definition has_suffix :: "string \<Rightarrow> string \<Rightarrow> bool" where
  "has_suffix p s \<longleftrightarrow> has_prefix (rev p) (rev s)"

definition trim_prefix :: "string \<Rightarrow> string \<Rightarrow> string" where
  "trim_prefix p s = (if has_prefix p s then drop (length p) s else s)"

definition trim_suffix :: "string \<Rightarrow> string \<Rightarrow> string" where
  "trim_suffix p s = (if has_suffix p s then take (length s - length p) s else s)"

fun split_on :: "char \<Rightarrow> string \<Rightarrow> string list" where
  "split_on c [] = [[]]"
| "split_on c (x # xs) =
     (if x = c then [] # split_on c xs
      else case split_on c xs of [] \<Rightarrow> [[x]] | y # ys \<Rightarrow> (x # y) # ys)"

text \<open>\<open>bytes.Replace(s, old, new, -1)\<close> for a non-empty \<open>old\<close>.\<close>

fun replace_all :: "string \<Rightarrow> string \<Rightarrow> string \<Rightarrow> string" where
  "replace_all old new [] = []"
| "replace_all old new (x # xs) =
     (if old \<noteq> [] \<and> has_prefix old (x # xs)
      then new @ replace_all old new (drop (length old - 1) xs)
      else x # replace_all old new xs)"

text \<open>\<open>strings.TrimSpace\<close>: the UTF-8 encodings of the code points of \<open>unicode.IsSpace\<close>.\<close>

definition space_tokens :: "string list" where
  "space_tokens =
     map (map char_of)
       ([[9], [10], [11], [12], [13], [32], [0xC2, 0x85], [0xC2, 0xA0], [0xE1, 0x9A, 0x80],
         [0xE2, 0x80, 0xA8], [0xE2, 0x80, 0xA9], [0xE2, 0x80, 0xAF], [0xE2, 0x81, 0x9F],
         [0xE3, 0x80, 0x80]] @ map (\<lambda>i. [0xE2, 0x80, 0x80 + i]) [0..<11] :: nat list list)"

fun trim_tokens :: "string list \<Rightarrow> string \<Rightarrow> string" where
  "trim_tokens ts [] = []"
| "trim_tokens ts (x # xs) =
     (case find (\<lambda>t. t \<noteq> [] \<and> has_prefix t (x # xs)) ts of
        None \<Rightarrow> x # xs
      | Some t \<Rightarrow> trim_tokens ts (drop (length t - 1) xs))"

definition trim_space :: "string \<Rightarrow> string" where
  "trim_space s = rev (trim_tokens (map rev space_tokens) (rev (trim_tokens space_tokens s)))"

lemma has_prefix_append [simp]: "has_prefix p (p @ s)"
  by (simp add: has_prefix_def)

lemma has_prefix_iff: "has_prefix p s \<longleftrightarrow> (\<exists>r. s = p @ r)"
  by (metis append_take_drop_id has_prefix_append has_prefix_def)

lemma has_prefix_Nil [simp]: "has_prefix [] s"
  by (simp add: has_prefix_def)

lemma has_prefix_Cons: "has_prefix (a # p) s \<longleftrightarrow> (\<exists>r. s = a # r \<and> has_prefix p r)"
  by (auto simp: has_prefix_iff)

lemma has_prefix_Cons_Cons [simp]: "has_prefix (a # p) (b # s) \<longleftrightarrow> a = b \<and> has_prefix p s"
  by (auto simp: has_prefix_Cons)

lemma has_prefix_Cons_Nil [simp]: "\<not> has_prefix (a # p) []"
  by (simp add: has_prefix_def)

lemma trim_prefix_append [simp]: "trim_prefix p (p @ s) = s"
  by (simp add: trim_prefix_def)

lemma split_on_not_Nil [simp]: "split_on c s \<noteq> []"
  by (induction s) (auto split: list.splits)

lemma split_on_no_sep: "f \<in> set (split_on c s) \<Longrightarrow> c \<notin> set f"
proof (induction s arbitrary: f)
  case (Cons x s)
  show ?case
  proof (cases "x = c")
    case True
    with Cons show ?thesis by auto
  next
    case False
    then obtain y ys where "split_on c s = y # ys" by (cases "split_on c s") auto
    with False Cons show ?thesis by fastforce
  qed
qed simp

lemma split_on_single: "c \<notin> set s \<Longrightarrow> split_on c s = [s]"
  by (induction s) auto

lemma split_on_append: "c \<notin> set s \<Longrightarrow> split_on c (s @ c # t) = s # split_on c t"
  by (induction s) auto

lemma replace_all_absent: "old \<noteq> [] \<Longrightarrow> hd old \<notin> set s \<Longrightarrow> replace_all old new s = s"
  by (induction s) (auto simp: has_prefix_Cons neq_Nil_conv)

lemma drop_le_length: "drop n xs = ys \<Longrightarrow> length ys \<le> length xs"
  by auto

text \<open>
  Replacing a pattern by a single byte that occurs nowhere in the text is undone by
  replacing that byte by the pattern.
\<close>

lemma replace_all_undo:
  "c \<notin> set s \<Longrightarrow> old \<noteq> [] \<Longrightarrow> replace_all [c] old (replace_all old [c] s) = s"
proof (induction old "[c]" s rule: replace_all.induct)
  case (2 old x xs)
  show ?case
  proof (cases "has_prefix old (x # xs)")
    case True
    have "c \<notin> set (drop (length old - 1) xs)" using 2(3) by (auto dest: in_set_dropD)
    with 2 True have "replace_all [c] old (replace_all old [c] (drop (length old - 1) xs))
      = drop (length old - 1) xs" by simp
    moreover have "old @ drop (length old - 1) xs = x # xs"
      using True \<open>old \<noteq> []\<close> by (auto simp: has_prefix_iff neq_Nil_conv)
    moreover have "replace_all old [c] (x # xs) = c # replace_all old [c] (drop (length old - 1) xs)"
      using True \<open>old \<noteq> []\<close> by simp
    ultimately show ?thesis by (simp del: replace_all.simps(2) add: replace_all.simps(2) [of "[c]" old c])
  next
    case False
    with 2 show ?thesis by auto
  qed
qed simp

lemma replace_all_set: "set (replace_all old new s) \<subseteq> set new \<union> set s"
proof (induction old new s rule: replace_all.induct)
  case (2 old new x xs)
  then show ?case by (auto dest: in_set_dropD)
qed simp

subsection \<open>The interface of a codec\<close>

text \<open>
  An encoder \<open>enc\<close> and a decoder \<open>dec\<close> that undoes it on the values
  \<open>wf\<close> describes. The clients (signatures over canonical JSON, base64 columns) use
  only these consequences.
\<close>

locale codec =
  fixes enc :: "'a \<Rightarrow> string" and dec :: "string \<Rightarrow> 'a option" and wf :: "'a \<Rightarrow> bool"
  assumes dec_enc: "wf x \<Longrightarrow> dec (enc x) = Some x"
begin

lemma enc_inject: "wf x \<Longrightarrow> wf y \<Longrightarrow> enc x = enc y \<longleftrightarrow> x = y"
  by (metis dec_enc option.inject)

lemma enc_inj_on: "inj_on enc {x. wf x}"
  by (auto simp: inj_on_def enc_inject)

lemma dec_enc_iff: "wf x \<Longrightarrow> dec (enc x) = Some y \<longleftrightarrow> y = x"
  by (auto simp: dec_enc)

end

text \<open>
  A parser of the longest-prefix kind: it returns the value and the rest of the input.
  \<open>follow\<close> says what may come after an encoding without being taken for part of it.
\<close>

locale stream_codec =
  fixes put :: "'a \<Rightarrow> string" and get :: "string \<Rightarrow> ('a \<times> string) option"
    and wf :: "'a \<Rightarrow> bool" and follow :: "string \<Rightarrow> bool"
  assumes get_put: "wf x \<Longrightarrow> follow rest \<Longrightarrow> get (put x @ rest) = Some (x, rest)"
    and follow_Nil: "follow []"
begin

lemma get_put_end: "wf x \<Longrightarrow> get (put x) = Some (x, [])"
  using get_put [of x "[]"] follow_Nil by simp

lemma put_inject: "wf x \<Longrightarrow> wf y \<Longrightarrow> put x = put y \<longleftrightarrow> x = y"
  by (metis get_put_end option.inject prod.inject)

end

sublocale stream_codec \<subseteq> whole: codec
  put "\<lambda>s. case get s of Some (x, []) \<Rightarrow> Some x | _ \<Rightarrow> None" wf
  by unfold_locales (simp add: get_put_end)

end
