(* ===== verification/Text.thy ===== *)
theory Text
  imports Prelude
begin

text \<open>
  The text forms that Go's \<open>encoding/json\<close> uses for numbers and strings, as far as the
  program relies on them: decimal integers, UTF-8, and quoted strings with their escapes.
  The program calls them through \<open>util.InterfaceToMap\<close>, \<open>EncodeCanonicalJson\<close> and
  \<open>json.Unmarshal\<close>.
\<close>

abbreviation ord :: "char \<Rightarrow> nat" where
  "ord c \<equiv> of_char c"

abbreviation backslash :: char where
  "backslash \<equiv> CHR 0x5C"

abbreviation dquote :: char where
  "dquote \<equiv> CHR 0x22"

subsection \<open>Decimal integers\<close>

definition digit_char :: "nat \<Rightarrow> char" where
  "digit_char d = char_of (48 + d)"

definition digit_val :: "char \<Rightarrow> nat option" where
  "digit_val c = (if 48 \<le> ord c \<and> ord c \<le> 57 then Some (ord c - 48) else None)"

fun show_nat :: "nat \<Rightarrow> string" where
  "show_nat n = (if n < 10 then [digit_char n] else show_nat (n div 10) @ [digit_char (n mod 10)])"

declare show_nat.simps [simp del]

definition show_int :: "int \<Rightarrow> string" where
  "show_int i = (if i < 0 then CHR ''-'' # show_nat (nat (- i)) else show_nat (nat i))"

fun read_digits :: "nat \<Rightarrow> string \<Rightarrow> nat \<times> string" where
  "read_digits acc [] = (acc, [])"
| "read_digits acc (c # s) =
     (case digit_val c of None \<Rightarrow> (acc, c # s) | Some d \<Rightarrow> read_digits (10 * acc + d) s)"

definition no_digit :: "string \<Rightarrow> bool" where
  "no_digit s \<longleftrightarrow> (case s of [] \<Rightarrow> True | c # _ \<Rightarrow> digit_val c = None)"

text \<open>A JSON number without fraction and exponent: no leading zeros, no empty digit string.\<close>

definition read_nat :: "string \<Rightarrow> (nat \<times> string) option" where
  "read_nat s = (case s of [] \<Rightarrow> None
     | c # r \<Rightarrow> (case digit_val c of None \<Rightarrow> None
         | Some d \<Rightarrow> (if d = 0 then Some (0, r) else Some (read_digits d r))))"

lemma digit_val_char [simp]: "d < 10 \<Longrightarrow> digit_val (digit_char d) = Some d"
  by (simp add: digit_val_def digit_char_def)

lemma digit_val_less: "digit_val c = Some d \<Longrightarrow> d < 10"
  by (auto simp: digit_val_def split: if_splits)

lemma show_nat_not_Nil [simp]: "show_nat n \<noteq> []"
  by (subst show_nat.simps) simp

lemma read_digits_append:
  "read_digits acc (show_nat n @ s) = read_digits (acc * 10 ^ length (show_nat n) + n) s"
proof (induction n arbitrary: acc s rule: show_nat.induct)
  case (1 n)
  show ?case
  proof (cases "n < 10")
    case True
    then show ?thesis by (simp add: show_nat.simps [of n] algebra_simps)
  next
    case False
    then have "read_digits acc (show_nat n @ s) =
        read_digits (acc * 10 ^ length (show_nat (n div 10)) + n div 10) (digit_char (n mod 10) # s)"
      using 1 by (simp add: show_nat.simps [of n])
    also have "\<dots> = read_digits (acc * 10 ^ length (show_nat n) + n) s"
      using False by (simp add: show_nat.simps [of n] algebra_simps)
    finally show ?thesis .
  qed
qed

lemma show_nat_hd: "\<exists>d r. show_nat n = digit_char d # r \<and> d < 10 \<and> (d = 0 \<longleftrightarrow> n = 0)"
proof (induction n rule: show_nat.induct)
  case (1 n)
  show ?case
  proof (cases "n < 10")
    case True
    then show ?thesis by (auto simp: show_nat.simps [of n])
  next
    case False
    with 1 [OF False] obtain d r
      where "show_nat (n div 10) = digit_char d # r" "d < 10" "d = 0 \<longleftrightarrow> n div 10 = 0"
      by (elim exE conjE) (rule that)
    with False show ?thesis by (auto simp: show_nat.simps [of n])
  qed
qed

lemma read_digits_stop [simp]: "no_digit s \<Longrightarrow> read_digits acc s = (acc, s)"
  by (cases s) (auto simp: no_digit_def split: option.splits)

lemma read_nat_show [simp]: "no_digit s \<Longrightarrow> read_nat (show_nat n @ s) = Some (n, s)"
proof -
  assume s: "no_digit s"
  obtain d r where dr: "show_nat n = digit_char d # r" "d < 10" "d = 0 \<longleftrightarrow> n = 0"
    using show_nat_hd by blast
  show ?thesis
  proof (cases "n = 0")
    case True
    then have "r = []" using dr by (simp add: show_nat.simps)
    with dr True show ?thesis by (simp add: read_nat_def)
  next
    case False
    have "read_digits 0 (show_nat n @ s) = (n, s)"
      using s by (simp add: read_digits_append)
    with dr False show ?thesis by (simp add: read_nat_def)
  qed
qed

interpretation decimal: stream_codec show_nat read_nat "\<lambda>_. True" no_digit
  by unfold_locales (simp_all add: no_digit_def)

lemma read_digits_length: "length (snd (read_digits acc s)) \<le> length s"
  by (induction acc s rule: read_digits.induct) (auto split: option.splits)

lemma read_nat_length: "read_nat s = Some (n, r) \<Longrightarrow> length r < length s"
  using read_digits_length
  by (auto simp: read_nat_def split: list.splits option.splits if_splits)
     (metis order.strict_trans2 snd_conv lessI less_Suc_eq_le)

subsection \<open>UTF-8\<close>

text \<open>
  The length of the first rune, after Go's \<open>utf8.DecodeRune\<close>: the lead byte gives the
  length and the range of the second byte (no overlong forms, no surrogates, at most
  U+10FFFF), the further bytes are continuation bytes; 0 when the bytes are no rune.
\<close>

definition utf8_lead :: "nat \<Rightarrow> (nat \<times> nat \<times> nat) option" where
  "utf8_lead b =
     (if b < 0x80 then Some (1, 0, 0xFF)
      else if 0xC2 \<le> b \<and> b \<le> 0xDF then Some (2, 0x80, 0xBF)
      else if b = 0xE0 then Some (3, 0xA0, 0xBF)
      else if b = 0xED then Some (3, 0x80, 0x9F)
      else if 0xE1 \<le> b \<and> b \<le> 0xEF then Some (3, 0x80, 0xBF)
      else if b = 0xF0 then Some (4, 0x90, 0xBF)
      else if 0xF1 \<le> b \<and> b \<le> 0xF3 then Some (4, 0x80, 0xBF)
      else if b = 0xF4 then Some (4, 0x80, 0x8F)
      else None)"

definition is_cont :: "char \<Rightarrow> bool" where
  "is_cont c \<longleftrightarrow> 0x80 \<le> ord c \<and> ord c \<le> 0xBF"

definition utf8_len :: "string \<Rightarrow> nat" where
  "utf8_len s = (case s of [] \<Rightarrow> 0 | c # r \<Rightarrow>
     (case utf8_lead (ord c) of None \<Rightarrow> 0
      | Some (n, lo, hi) \<Rightarrow>
          (if n = 1 then 1
           else if n \<le> length s \<and> lo \<le> ord (r ! 0) \<and> ord (r ! 0) \<le> hi
                  \<and> list_all is_cont (drop 1 (take (n - 1) r))
           then n else 0)))"

fun utf8_ok :: "string \<Rightarrow> bool" where
  "utf8_ok [] = True"
| "utf8_ok (c # s) = (utf8_len (c # s) \<noteq> 0 \<and> utf8_ok (drop (utf8_len (c # s) - 1) s))"

definition utf8_encode :: "nat \<Rightarrow> string" where
  "utf8_encode n =
     (if n < 0x80 then [char_of n]
      else if n < 0x800 then [char_of (0xC0 + n div 64), char_of (0x80 + n mod 64)]
      else if n < 0x10000 then
        [char_of (0xE0 + n div 4096), char_of (0x80 + n div 64 mod 64), char_of (0x80 + n mod 64)]
      else [char_of (0xF0 + n div 262144), char_of (0x80 + n div 4096 mod 64),
            char_of (0x80 + n div 64 mod 64), char_of (0x80 + n mod 64)])"

definition rune_error :: string where
  "rune_error = utf8_encode 0xFFFD"

lemma utf8_lead_pos: "utf8_lead b = Some (n, lo, hi) \<Longrightarrow> 1 \<le> n \<and> n \<le> 4"
  by (auto simp: utf8_lead_def split: if_splits)

lemma utf8_len_le: "utf8_len s \<le> length s"
  by (auto simp: utf8_len_def split: list.splits option.splits)

lemma utf8_len_ascii [simp]: "ord c < 128 \<Longrightarrow> utf8_len (c # s) = 1"
  by (simp add: utf8_len_def utf8_lead_def)

text \<open>Only the bytes of the rune itself decide that it is one.\<close>

lemma utf8_len_prefix:
  assumes n: "utf8_len s = n" "n \<noteq> 0"
  shows "utf8_len (take n s @ t) = n"
proof -
  obtain c r where s: "s = c # r" using n by (cases s) (auto simp: utf8_len_def)
  obtain m lo hi where lead: "utf8_lead (ord c) = Some (m, lo, hi)"
    using n s by (cases "utf8_lead (ord c)") (auto simp: utf8_len_def)
  have m: "m = n" using n s lead by (auto simp: utf8_len_def split: if_splits)
  show ?thesis
  proof (cases "n = 1")
    case True
    then show ?thesis using s lead m by (simp add: utf8_len_def)
  next
    case False
    obtain k where k: "n = Suc (Suc k)" using n(2) False by (cases n; cases "n - 1") auto
    have le: "n \<le> length s" and rng: "lo \<le> ord (r ! 0)" "ord (r ! 0) \<le> hi"
      and conts: "list_all is_cont (drop 1 (take (n - 1) r))"
      using n s lead m False by (auto simp: utf8_len_def split: if_splits)
    obtain u where u: "u = take (n - 1) r @ t" by simp
    have "take (n - 1) u = take (n - 1) r" using le s u by simp
    moreover have "u ! 0 = r ! 0" using le s k u by (simp add: nth_append)
    moreover have "take n s @ t = c # u" using s k u by simp
    moreover have "n \<le> length (c # u)" using le s u by simp
    ultimately show ?thesis using lead m False rng conts by (simp add: utf8_len_def)
  qed
qed

lemma utf8_ok_rune_append:
  "utf8_len r = length r \<Longrightarrow> r \<noteq> [] \<Longrightarrow> utf8_ok (r @ s) \<longleftrightarrow> utf8_ok s"
proof -
  assume r: "utf8_len r = length r" "r \<noteq> []"
  then have len: "utf8_len (r @ s) = length r"
    using utf8_len_prefix [of r "length r" s] by simp
  obtain c r' where "r = c # r'" using r by (cases r) auto
  with len show ?thesis by simp
qed


lemma char_of_ord_plus: "ord (char_of n) = n mod 256"
  by simp

lemma utf8_len_encode: "n < 0xD800 \<or> (0xE000 \<le> n \<and> n < 0x110000) \<Longrightarrow> utf8_len (utf8_encode n) = length (utf8_encode n)"
proof -
  assume n: "n < 0xD800 \<or> (0xE000 \<le> n \<and> n < 0x110000)"
  consider "n < 0x80" | "0x80 \<le> n" "n < 0x800" | "0x800 \<le> n" "n < 0x10000" | "0x10000 \<le> n" by linarith
  then show ?thesis
  proof cases
    case 1
    then show ?thesis by (simp add: utf8_encode_def)
  next
    case 2
    define a b where "a = n div 64" and "b = n mod 64"
    have "2 \<le> a" "a < 32" "b < 64" using 2 by (auto simp: a_def b_def)
    then have "utf8_len [char_of (192 + a), char_of (128 + b)] = 2"
      by (simp add: utf8_len_def utf8_lead_def)
    then show ?thesis using 2 by (simp add: utf8_encode_def a_def b_def)
  next
    case 3
    define a b c where "a = n div 4096" and "b = n div 64 mod 64" and "c = n mod 64"
    have "n div 4096 = n div 64 div 64" by (simp add: div_mult2_eq [symmetric])
    then have m: "n div 64 = 64 * a + b" by (simp add: a_def b_def)
    have "a < 16" "b < 64" "c < 64" using 3 by (auto simp: a_def b_def c_def)
    moreover have "32 \<le> n div 64" using 3 by linarith
    then have "a = 0 \<longrightarrow> 32 \<le> b" using m by simp
    moreover have "n div 64 < 864 \<or> 896 \<le> n div 64" using n by linarith
    then have "a = 13 \<longrightarrow> b < 32" using m \<open>b < 64\<close> by linarith
    ultimately have "utf8_len [char_of (224 + a), char_of (128 + b), char_of (128 + c)] = 3"
      by (auto simp: utf8_len_def utf8_lead_def is_cont_def)
    then show ?thesis using 3 by (simp add: utf8_encode_def a_def b_def c_def)
  next
    case 4
    define a b c d where "a = n div 262144" and "b = n div 4096 mod 64"
      and "c = n div 64 mod 64" and "d = n mod 64"
    have "n div 262144 = n div 4096 div 64" by (simp add: div_mult2_eq [symmetric])
    then have m: "n div 4096 = 64 * a + b" by (simp add: a_def b_def)
    have "a < 5" "b < 64" "c < 64" "d < 64" using n by (auto simp: a_def b_def c_def d_def)
    moreover have "16 \<le> n div 4096" "n div 4096 < 272" using 4 n by linarith+
    then have "a = 0 \<longrightarrow> 16 \<le> b" "a = 4 \<longrightarrow> b < 16" using m by linarith+
    ultimately have "utf8_len [char_of (240 + a), char_of (128 + b), char_of (128 + c), char_of (128 + d)] = 4"
      by (auto simp: utf8_len_def utf8_lead_def is_cont_def)
    then show ?thesis using 4 by (simp add: utf8_encode_def a_def b_def c_def d_def)
  qed
qed

lemma utf8_encode_not_Nil [simp]: "utf8_encode n \<noteq> []"
  by (simp add: utf8_encode_def)

subsection \<open>JSON strings\<close>

definition hex_digit :: "nat \<Rightarrow> char" where
  "hex_digit d = (if d < 10 then char_of (48 + d) else char_of (87 + d))"

definition hex_val :: "char \<Rightarrow> nat option" where
  "hex_val c =
     (if 48 \<le> ord c \<and> ord c \<le> 57 then Some (ord c - 48)
      else if 97 \<le> ord c \<and> ord c \<le> 102 then Some (ord c - 87)
      else if 65 \<le> ord c \<and> ord c \<le> 70 then Some (ord c - 55) else None)"

text \<open>How \<open>json.Marshal\<close> writes one ASCII byte of a string (with HTML escaping).\<close>

definition esc_ascii :: "char \<Rightarrow> string" where
  "esc_ascii c =
     (let b = ord c in
      if c = dquote \<or> c = backslash then [backslash, c]
      else if b = 8 then [backslash, CHR ''b''] else if b = 12 then [backslash, CHR ''f'']
      else if b = 10 then [backslash, CHR ''n''] else if b = 13 then [backslash, CHR ''r'']
      else if b = 9 then [backslash, CHR ''t'']
      else if b < 0x20 \<or> c = CHR ''<'' \<or> c = CHR ''>'' \<or> c = CHR ''&''
      then backslash # ''u00'' @ [hex_digit (b div 16), hex_digit (b mod 16)]
      else [c])"

definition u_escape :: "nat \<Rightarrow> string" where
  "u_escape n = backslash # CHR ''u'' #
     map hex_digit [n div 4096 mod 16, n div 256 mod 16, n div 16 mod 16, n mod 16]"

text \<open>The body of a string literal: invalid bytes and the line separators are escaped.\<close>

fun json_chars :: "string \<Rightarrow> string" where
  "json_chars [] = []"
| "json_chars (c # s) =
     (if ord c < 0x80 then esc_ascii c @ json_chars s
      else let n = utf8_len (c # s) in
        if n = 0 then u_escape 0xFFFD @ json_chars s
        else let r = take n (c # s) in
          (if r = utf8_encode 0x2028 then u_escape 0x2028
           else if r = utf8_encode 0x2029 then u_escape 0x2029 else r)
          @ json_chars (drop (n - 1) s))"

definition json_quote :: "string \<Rightarrow> string" where
  "json_quote s = dquote # json_chars s @ [dquote]"

text \<open>Reading: four hexadecimal digits, surrogate pairs, single-letter escapes.\<close>

fun hex4 :: "string \<Rightarrow> (nat \<times> string) option" where
  "hex4 (a # b # c # d # s) =
     (case (hex_val a, hex_val b, hex_val c, hex_val d) of
        (Some w, Some x, Some y, Some z) \<Rightarrow> Some (((w * 16 + x) * 16 + y) * 16 + z, s)
      | _ \<Rightarrow> None)"
| "hex4 _ = None"

definition unescape :: "char \<Rightarrow> char option" where
  "unescape e =
     (if e = dquote \<or> e = backslash \<or> e = CHR ''/'' then Some e
      else if e = CHR ''b'' then Some (char_of (8::nat))
      else if e = CHR ''f'' then Some (char_of (12::nat))
      else if e = CHR ''n'' then Some (char_of (10::nat))
      else if e = CHR ''r'' then Some (char_of (13::nat))
      else if e = CHR ''t'' then Some (char_of (9::nat)) else None)"

definition low_surrogate :: "string \<Rightarrow> (nat \<times> string) option" where
  "low_surrogate s =
     (if has_prefix [backslash, CHR ''u''] s
      then (case hex4 (drop 2 s) of
              Some (n, r) \<Rightarrow> (if 0xDC00 \<le> n \<and> n < 0xE000 then Some (n, r) else None)
            | None \<Rightarrow> None)
      else None)"

definition u_rune :: "nat \<Rightarrow> string \<Rightarrow> string \<times> string" where
  "u_rune n s =
     (if 0xD800 \<le> n \<and> n < 0xE000 then
        (case low_surrogate s of
           Some (m, r) \<Rightarrow> (if n < 0xDC00 then (utf8_encode ((n - 0xD800) * 1024 + (m - 0xDC00) + 0x10000), r)
                            else (rune_error, s))
         | None \<Rightarrow> (rune_error, s))
      else (utf8_encode n, s))"

lemma hex4_length: "hex4 s = Some (n, r) \<Longrightarrow> length r < length s"
  by (induction s rule: hex4.induct) (auto split: option.splits)

lemma u_rune_length: "u_rune n s = (x, r) \<Longrightarrow> length r \<le> length s"
  by (auto simp: u_rune_def low_surrogate_def split: if_splits option.splits dest!: hex4_length)

function unchars :: "string \<Rightarrow> (string \<times> string) option" where
  "unchars [] = None"
| "unchars (c # s) =
     (if c = dquote then Some ([], s)
      else if c = backslash then
        (case s of [] \<Rightarrow> None
         | e # s' \<Rightarrow>
             (if e = CHR ''u'' then
                (case hex4 s' of None \<Rightarrow> None
                 | Some (n, s'') \<Rightarrow>
                     map_option (apfst ((@) (fst (u_rune n s'')))) (unchars (snd (u_rune n s''))))
              else (case unescape e of None \<Rightarrow> None
                    | Some d \<Rightarrow> map_option (apfst ((#) d)) (unchars s'))))
      else if ord c < 0x20 then None
      else if ord c < 0x80 then map_option (apfst ((#) c)) (unchars s)
      else let n = utf8_len (c # s) in
        if n = 0 then map_option (apfst ((@) rune_error)) (unchars s)
        else map_option (apfst ((@) (take n (c # s)))) (unchars (drop (n - 1) s)))"
  by pat_completeness auto
termination
proof (relation "measure length", goal_cases)
  case (2 c s e s' x n s'')
  then show ?case
    using hex4_length [of s' n s''] u_rune_length [of n s'' "fst (u_rune n s'')" "snd (u_rune n s'')"]
    by simp
qed auto

declare unchars.simps(2) [simp del] json_chars.simps(2) [simp del]

lemma hex_val_digit [simp]: "d < 16 \<Longrightarrow> hex_val (hex_digit d) = Some d"
  by (auto simp: hex_val_def hex_digit_def)

lemma hex4_digits:
  "a < 16 \<Longrightarrow> b < 16 \<Longrightarrow> c < 16 \<Longrightarrow> d < 16 \<Longrightarrow>
   hex4 (hex_digit a # hex_digit b # hex_digit c # hex_digit d # s) = Some (((a * 16 + b) * 16 + c) * 16 + d, s)"
  by simp

lemma hex4_u_escape:
  "n < 65536 \<Longrightarrow> hex4 (map hex_digit [n div 4096 mod 16, n div 256 mod 16, n div 16 mod 16, n mod 16] @ s) = Some (n, s)"
proof -
  assume n: "n < 65536"
  have d: "n div 256 = n div 16 div 16" "n div 4096 = n div 16 div 16 div 16"
    by (simp_all add: div_mult2_eq [symmetric])
  have "n div 16 div 16 div 16 mod 16 = n div 16 div 16 div 16" using n by simp
  then have "((n div 4096 mod 16 * 16 + n div 256 mod 16) * 16 + n div 16 mod 16) * 16 + n mod 16 = n"
    by (simp add: d)
  moreover have "hex4 (map hex_digit [n div 4096 mod 16, n div 256 mod 16, n div 16 mod 16, n mod 16] @ s)
    = Some (((n div 4096 mod 16 * 16 + n div 256 mod 16) * 16 + n div 16 mod 16) * 16 + n mod 16, s)"
    unfolding list.map append.simps by (rule hex4_digits) simp_all
  ultimately show ?thesis by (simp only:)
qed

lemma unchars_u_escape:
  assumes "n < 0xD800 \<or> (0xE000 \<le> n \<and> n < 65536)"
  shows "unchars (u_escape n @ s) = map_option (apfst ((@) (utf8_encode n))) (unchars s)"
proof -
  have hex: "hex4 (map hex_digit [n div 4096 mod 16, n div 256 mod 16, n div 16 mod 16, n mod 16] @ s) = Some (n, s)"
    using assms by (intro hex4_u_escape) auto
  have "u_rune n s = (utf8_encode n, s)" using assms by (auto simp: u_rune_def)
  with hex show ?thesis by (simp add: u_escape_def unchars.simps(2) del: hex4.simps)
qed

text \<open>One ASCII byte: what the encoder writes for it reads back as that byte.\<close>

lemma unchars_esc_ascii:
  assumes c: "ord c < 0x80"
  shows "unchars (esc_ascii c @ s) = map_option (apfst ((#) c)) (unchars s)"
proof -
  have byte: "ord c = k \<Longrightarrow> char_of k = c" for k by auto
  consider (q) "c = dquote \<or> c = backslash" | (n) "ord c \<in> {8, 9, 10, 12, 13}"
    | (h) "c \<noteq> dquote" "c \<noteq> backslash" "ord c \<notin> {8, 9, 10, 12, 13}"
        "ord c < 0x20 \<or> c = CHR ''<'' \<or> c = CHR ''>'' \<or> c = CHR ''&''"
    | (p) "c \<noteq> dquote" "c \<noteq> backslash" "ord c \<notin> {8, 9, 10, 12, 13}"
        "\<not> (ord c < 0x20 \<or> c = CHR ''<'' \<or> c = CHR ''>'' \<or> c = CHR ''&'')"
    by blast
  then show ?thesis
  proof cases
    case q
    then show ?thesis by (auto simp: esc_ascii_def unchars.simps(2) unescape_def)
  next
    case n
    then have "c \<noteq> dquote" "c \<noteq> backslash" by auto
    with n show ?thesis by (auto simp: esc_ascii_def unchars.simps(2) unescape_def dest!: byte)
  next
    case h
    then have e: "esc_ascii c = backslash # ''u00'' @ [hex_digit (ord c div 16), hex_digit (ord c mod 16)]"
      by (simp add: esc_ascii_def Let_def)
    have hex: "hex4 (CHR ''0'' # CHR ''0'' # hex_digit (ord c div 16) # hex_digit (ord c mod 16) # s) = Some (ord c, s)"
    proof -
      have "hex_digit 0 = CHR ''0''" by (simp add: hex_digit_def char_of_eq_iff)
      moreover have "ord c div 16 < 16" using c by simp
      ultimately show ?thesis
        using hex4_digits [of 0 0 "ord c div 16" "ord c mod 16" s] by (simp del: hex4.simps)
    qed
    have "u_rune (ord c) s = ([c], s)" using c by (simp add: u_rune_def utf8_encode_def)
    moreover have "(@) [c] = (#) c" by (simp add: fun_eq_iff)
    ultimately show ?thesis unfolding e using hex by (simp add: unchars.simps(2) del: hex4.simps)
  next
    case p
    then have "esc_ascii c = [c]" by (simp add: esc_ascii_def Let_def)
    with p c show ?thesis by (simp add: unchars.simps(2))
  qed
qed

lemma unchars_rune:
  assumes "utf8_len r = length r" "1 < length r"
  shows "unchars (r @ s) = map_option (apfst ((@) r)) (unchars s)"
proof -
  obtain c t where r: "r = c # t" using assms by (cases r) auto
  have ord: "\<not> ord c < 0x80" using assms r by (auto dest: utf8_len_ascii)
  then have "c \<noteq> dquote" "c \<noteq> backslash" by auto
  moreover have "utf8_len (c # t @ s) = length r"
    using utf8_len_prefix [of r "length r" s] assms r by simp
  ultimately show ?thesis using ord r by (simp add: unchars.simps(2))
qed

lemma utf8_ok_runeD:
  assumes "utf8_ok (c # s)" "\<not> ord c < 0x80"
  defines "n \<equiv> utf8_len (c # s)"
  shows "utf8_len (take n (c # s)) = n" "1 < n" "length (take n (c # s)) = n"
proof -
  have n0: "n \<noteq> 0" using assms by simp
  then show "utf8_len (take n (c # s)) = n" using utf8_len_prefix [of "c # s" n "[]"] by (simp add: n_def)
  have "n \<noteq> 1" using assms(2)
    by (auto simp: n_def utf8_len_def utf8_lead_def split: if_splits option.splits)
  then show "1 < n" using n0 by simp
  show "length (take n (c # s)) = n" using utf8_len_le [of "c # s"] by (simp add: n_def)
qed

theorem unchars_json_chars:
  "utf8_ok s \<Longrightarrow> unchars (json_chars s @ dquote # rest) = Some (s, rest)"
proof (induction s rule: json_chars.induct)
  case 1
  show ?case by (simp add: unchars.simps(2))
next
  case (2 c s)
  show ?case
  proof (cases "ord c < 0x80")
    case True
    with 2 show ?thesis by (simp add: json_chars.simps(2) unchars_esc_ascii)
  next
    case False
    define n where "n = utf8_len (c # s)"
    define r where "r = take n (c # s)"
    have r: "utf8_len r = length r" "1 < length r"
      using utf8_ok_runeD [OF "2.prems" False] by (simp_all add: r_def n_def)
    have n0: "n \<noteq> 0" using "2.prems" by (simp add: n_def)
    have IH: "unchars (json_chars (drop (n - 1) s) @ dquote # rest) = Some (drop (n - 1) s, rest)"
      using "2.IH"(3) [OF False n_def n0 r_def] "2.prems" by (simp add: n_def)
    define p where "p = (if r = utf8_encode 0x2028 then u_escape 0x2028
      else if r = utf8_encode 0x2029 then u_escape 0x2029 else r)"
    have "r @ drop (n - 1) s = c # s" using n0 by (cases n) (simp_all add: r_def)
    moreover have "unchars (p @ t) = map_option (apfst ((@) r)) (unchars t)" for t
      using r by (auto simp: p_def unchars_u_escape unchars_rune)
    moreover have "json_chars (c # s) = p @ json_chars (drop (n - 1) s)"
      using False n0 by (simp add: json_chars.simps(2) n_def [symmetric] r_def [symmetric] p_def [symmetric] Let_def)
    ultimately show ?thesis using IH by simp
  qed
qed

text \<open>Every step of reading a string contributes one whole rune to the result.\<close>

definition is_rune :: "string \<Rightarrow> bool" where
  "is_rune p \<longleftrightarrow> p \<noteq> [] \<and> utf8_len p = length p"

lemma is_rune_ascii: "ord c < 128 \<Longrightarrow> is_rune [c]"
  by (simp add: is_rune_def)

lemma is_rune_encode: "n < 0xD800 \<or> (0xE000 \<le> n \<and> n < 0x110000) \<Longrightarrow> is_rune (utf8_encode n)"
  by (simp add: is_rune_def utf8_len_encode)

lemma is_rune_error: "is_rune rune_error"
  by (simp add: rune_error_def is_rune_encode)

lemma hex_val_less: "hex_val c = Some v \<Longrightarrow> v < 16"
  by (auto simp: hex_val_def split: if_splits)

lemma hex4_less: "hex4 s = Some (n, r) \<Longrightarrow> n < 65536"
proof (induction s rule: hex4.induct)
  case (1 a b c d s)
  then show ?case by (auto split: option.splits dest!: hex_val_less)
qed simp_all

lemma is_rune_u_rune: "n < 65536 \<Longrightarrow> is_rune (fst (u_rune n s))"
  by (auto simp: u_rune_def low_surrogate_def is_rune_error split: option.splits
      intro!: is_rune_encode)

lemma is_rune_take: "utf8_len s \<noteq> 0 \<Longrightarrow> is_rune (take (utf8_len s) s)"
  using utf8_len_prefix [of s "utf8_len s" "[]"] utf8_len_le [of s]
  by (cases s) (auto simp: is_rune_def)

lemma unescape_ascii: "unescape e = Some d \<Longrightarrow> ord d < 128"
  by (auto simp: unescape_def split: if_splits)

lemma unchars_high_SomeD:
  assumes "unchars (c # s) = Some (x, r)" "\<not> ord c < 128"
  shows "\<exists>p y t. x = p @ y \<and> is_rune p \<and> unchars t = Some (y, r) \<and> length t \<le> length s"
proof -
  have c: "c \<noteq> dquote" "c \<noteq> backslash" using assms(2) by auto
  show ?thesis
  proof (cases "utf8_len (c # s) = 0")
    case True
    with assms c obtain y where "unchars s = Some (y, r)" "x = rune_error @ y"
      by (auto simp: unchars.simps(2) split: if_splits)
    then show ?thesis using is_rune_error by blast
  next
    case False
    define k where "k = utf8_len (c # s)"
    from False assms c obtain y
      where "unchars (drop (k - 1) s) = Some (y, r)" "x = take k (c # s) @ y"
      by (auto simp: unchars.simps(2) Let_def k_def split: if_splits)
    then show ?thesis using is_rune_take [OF False] k_def
      by (metis drop_le_length)
  qed
qed

lemma unchars_Cons_SomeD:
  assumes "unchars (c # s) = Some (x, r)"
  shows "(c = dquote \<and> x = [] \<and> r = s) \<or>
    (\<exists>p y t. x = p @ y \<and> is_rune p \<and> unchars t = Some (y, r) \<and> length t \<le> length s)"
proof -
  consider (quote) "c = dquote"
    | (esc) e s' where "c = backslash" "s = e # s'" "e \<noteq> CHR ''u''"
    | (uesc) s' where "c = backslash" "s = CHR ''u'' # s'"
    | (ascii) "c \<noteq> dquote" "c \<noteq> backslash" "ord c < 128"
    | (high) "\<not> ord c < 128"
    using assms by (cases s) (auto simp: unchars.simps(2) split: if_splits)
  then show ?thesis
  proof cases
    case esc
    with assms obtain d y where "unescape e = Some d" "unchars s' = Some (y, r)" "x = [d] @ y"
      by (auto simp: unchars.simps(2) split: option.splits)
    with esc show ?thesis using is_rune_ascii unescape_ascii by fastforce
  next
    case uesc
    with assms obtain n s'' y where h: "hex4 s' = Some (n, s'')"
      and "unchars (snd (u_rune n s'')) = Some (y, r)" "x = fst (u_rune n s'') @ y"
      by (auto simp: unchars.simps(2) split: option.splits)
    moreover have "length (snd (u_rune n s'')) \<le> length s"
      using u_rune_length [of n s'' "fst (u_rune n s'')" "snd (u_rune n s'')"] hex4_length [OF h] uesc by simp
    ultimately show ?thesis using is_rune_u_rune [OF hex4_less [OF h]] by blast
  next
    case ascii
    with assms obtain y where "unchars s = Some (y, r)" "x = [c] @ y"
      by (auto simp: unchars.simps(2) split: if_splits)
    with ascii show ?thesis using is_rune_ascii by blast
  next
    case high
    from unchars_high_SomeD [OF assms this] show ?thesis by blast
  qed (use assms in \<open>simp add: unchars.simps(2)\<close>)
qed

lemma unchars_sound: "unchars s = Some (x, r) \<Longrightarrow> length r < length s \<and> utf8_ok x"
proof (induction s arbitrary: x rule: length_induct)
  case (1 s)
  obtain c t where s: "s = c # t" using "1.prems" by (cases s) auto
  from unchars_Cons_SomeD [OF "1.prems" [unfolded s]] show ?case
  proof (elim disjE exE conjE)
    fix p y u
    assume "x = p @ y" "is_rune p" "unchars u = Some (y, r)" "length u \<le> length t"
    moreover from this have "length r < length u \<and> utf8_ok y" using "1.IH" [rule_format, of u y] s by simp
    ultimately show ?case using s by (auto simp: is_rune_def utf8_ok_rune_append)
  qed (use s in simp)
qed

lemma hex_digit_no_html [simp]:
  "d < 16 \<Longrightarrow> hex_digit d \<noteq> CHR ''<''" "d < 16 \<Longrightarrow> hex_digit d \<noteq> CHR ''>''"
  "d < 16 \<Longrightarrow> hex_digit d \<noteq> CHR ''&''"
  "d < 16 \<Longrightarrow> CHR ''<'' \<noteq> hex_digit d" "d < 16 \<Longrightarrow> CHR ''>'' \<noteq> hex_digit d"
  "d < 16 \<Longrightarrow> CHR ''&'' \<noteq> hex_digit d"
  by (auto simp: hex_digit_def char_of_eq_iff take_bit_eq_mod dest: arg_cong [of _ _ ord])

lemma esc_ascii_no_html: "ord c < 128 \<Longrightarrow> {CHR ''<'', CHR ''>'', CHR ''&''} \<inter> set (esc_ascii c) = {}"
  by (auto simp: esc_ascii_def Let_def)

lemma rune_no_html: "is_rune p \<Longrightarrow> 1 < length p \<Longrightarrow> x \<in> set p \<Longrightarrow> 128 \<le> ord x"
proof -
  assume p: "is_rune p" "1 < length p" and x: "x \<in> set p"
  obtain c r where c: "p = c # r" using p by (cases p) auto
  obtain n lo hi where lead: "utf8_lead (ord c) = Some (n, lo, hi)" "n = length p"
    and rng: "lo \<le> ord (r ! 0)" and conts: "list_all is_cont (drop 1 (take (n - 1) r))"
    using p c by (auto simp: is_rune_def utf8_len_def split: option.splits if_splits)
  obtain d t where r: "r = d # t" using p c by (cases r) auto
  have "128 \<le> ord c" using lead p by (auto simp: utf8_lead_def split: if_splits)
  moreover have "128 \<le> ord d" using lead(1) rng p r lead(2) by (auto simp: utf8_lead_def split: if_splits)
  moreover have "list_all is_cont t" using conts lead(2) c r by simp
  ultimately show ?thesis using x c r by (auto simp: list_all_iff is_cont_def)
qed

lemma u_escape_no_html: "{CHR ''<'', CHR ''>'', CHR ''&''} \<inter> set (u_escape n) = {}"
  by (auto simp: u_escape_def)

lemma json_chars_no_html: "{CHR ''<'', CHR ''>'', CHR ''&''} \<inter> set (json_chars s) = {}"
proof (induction s rule: json_chars.induct)
  case (2 c s)
  show ?case
  proof (cases "ord c < 128")
    case True
    with 2 esc_ascii_no_html show ?thesis by (auto simp: json_chars.simps(2))
  next
    case False
    define k where "k = utf8_len (c # s)"
    show ?thesis
    proof (cases "k = 0")
      case True
      with False "2.IH"(2) [OF False k_def] u_escape_no_html show ?thesis
        by (auto simp: json_chars.simps(2) k_def)
    next
      case k: False
      have r: "is_rune (take k (c # s))" using is_rune_take k k_def by blast
      have "1 < length (take k (c # s))"
        using False k r by (cases "k = 1") (auto simp: is_rune_def utf8_len_def utf8_lead_def split: option.splits if_splits)
      then have "128 \<le> ord x" if "x \<in> set (take k (c # s))" for x
        using rune_no_html r that by blast
      then have "{CHR ''<'', CHR ''>'', CHR ''&''} \<inter> set (take k (c # s)) = {}" by fastforce
      with False k "2.IH"(3) [OF False k_def k refl] u_escape_no_html show ?thesis
        by (auto simp: json_chars.simps(2) k_def [symmetric] Let_def)
    qed
  qed
qed simp
end
