(* ===== verification/Json.thy ===== *)
theory Json
  imports Text "HOL-Library.Multiset"
begin

text \<open>
  JSON values, Go's \<open>json.Marshal\<close> and \<open>json.Unmarshal\<close> on them, and
  \<open>util.InterfaceToMap\<close> (\<open>util/types.go\<close>), which is one after the other. Numbers are the
  integers that a Go \<open>float64\<close> holds exactly (up to $2^{53}$ in magnitude, the range that
  Matrix's canonical JSON allows); the reader rejects every other number.
\<close>

subsection \<open>Values\<close>

text \<open>
  \<open>JObj\<close> lists the members in document order, duplicates included; a Go map is an
  object whose keys are distinct.
\<close>

datatype json =
    JNull
  | JBool bool
  | JNum int
  | JStr string
  | JArr "json list"
  | JObj "(string \<times> json) list"

fun json_size :: "json \<Rightarrow> nat" where
  "json_size (JArr vs) = Suc (sum_list (map (\<lambda>v. Suc (json_size v)) vs))"
| "json_size (JObj kvs) = Suc (sum_list (map (\<lambda>(k, v). Suc (json_size v)) kvs))"
| "json_size _ = 1"

fun json_depth :: "json \<Rightarrow> nat" where
  "json_depth (JArr vs) = Suc (fold max (map json_depth vs) 0)"
| "json_depth (JObj kvs) = Suc (fold max (map (\<lambda>(k, v). json_depth v) kvs) 0)"
| "json_depth _ = 0"

definition num_ok :: "int \<Rightarrow> bool" where
  "num_ok i \<longleftrightarrow> \<bar>i\<bar> \<le> 2 ^ 53"

text \<open>What a Go value of this type always satisfies: valid strings, exact numbers.\<close>

fun json_ok :: "json \<Rightarrow> bool" where
  "json_ok (JNum i) = num_ok i"
| "json_ok (JStr s) = utf8_ok s"
| "json_ok (JArr vs) = list_all json_ok vs"
| "json_ok (JObj kvs) = list_all (\<lambda>(k, v). utf8_ok k \<and> json_ok v) kvs"
| "json_ok _ = True"

text \<open>Go maps all the way down: the keys of every object are distinct.\<close>

fun go_maps :: "json \<Rightarrow> bool" where
  "go_maps (JArr vs) = list_all go_maps vs"
| "go_maps (JObj kvs) = (wf_gomap kvs \<and> list_all (\<lambda>(k, v). go_maps v) kvs)"
| "go_maps _ = True"

subsection \<open>Marshal\<close>

fun comma_sep :: "string list \<Rightarrow> string" where
  "comma_sep [] = []"
| "comma_sep [x] = x"
| "comma_sep (x # y # r) = x @ CHR '','' # comma_sep (y # r)"

fun json_text :: "json \<Rightarrow> string" where
  "json_text JNull = ''null''"
| "json_text (JBool b) = (if b then ''true'' else ''false'')"
| "json_text (JNum i) = show_int i"
| "json_text (JStr s) = json_quote s"
| "json_text (JArr vs) = CHR ''['' # comma_sep (map json_text vs) @ '']''"
| "json_text (JObj kvs) =
     CHR ''{'' # comma_sep (map (\<lambda>(k, v). json_quote k @ CHR '':'' # json_text v) kvs) @ ''}''"

text \<open>\<open>json.Marshal\<close> writes the members of a map in the byte order of their keys.\<close>

fun sort_keys :: "json \<Rightarrow> json" where
  "sort_keys (JArr vs) = JArr (map sort_keys vs)"
| "sort_keys (JObj kvs) = JObj (sort_key fst (map (\<lambda>(k, v). (k, sort_keys v)) kvs))"
| "sort_keys v = v"

definition json_marshal :: "json \<Rightarrow> string" where
  "json_marshal v = json_text (sort_keys v)"

subsection \<open>Unmarshal\<close>

definition is_ws :: "char \<Rightarrow> bool" where
  "is_ws c \<longleftrightarrow> ord c = 32 \<or> ord c = 9 \<or> ord c = 10 \<or> ord c = 13"

fun skip_ws :: "string \<Rightarrow> string" where
  "skip_ws [] = []"
| "skip_ws (c # s) = (if is_ws c then skip_ws s else c # s)"

definition read_num :: "string \<Rightarrow> (int \<times> string) option" where
  "read_num s =
     (if has_prefix ''-'' s
      then (case read_nat (drop 1 s) of
              Some (n, r) \<Rightarrow> (if n \<noteq> 0 \<and> num_ok (int n) then Some (- int n, r) else None)
            | None \<Rightarrow> None)
      else (case read_nat s of
              Some (n, r) \<Rightarrow> (if num_ok (int n) then Some (int n, r) else None)
            | None \<Rightarrow> None))"

definition read_word :: "string \<Rightarrow> json \<Rightarrow> string \<Rightarrow> (json \<times> string) option" where
  "read_word w v s = (if has_prefix w s then Some (v, drop (length w) s) else None)"

text \<open>
  The reader, with fuel: each call spends one unit, and at least every other call consumes
  input, so a fuel above twice the length of the input is never exhausted
  (\<open>read_fuel_enough\<close> below).
\<close>

fun read_value :: "nat \<Rightarrow> string \<Rightarrow> (json \<times> string) option"
and read_elems :: "nat \<Rightarrow> string \<Rightarrow> (json list \<times> string) option"
and read_members :: "nat \<Rightarrow> string \<Rightarrow> ((string \<times> json) list \<times> string) option"
where
  "read_value 0 s = None"
| "read_value (Suc n) s =
     (case skip_ws s of [] \<Rightarrow> None
      | c # r \<Rightarrow>
          if c = CHR ''{'' then
            (case skip_ws r of [] \<Rightarrow> None
             | d # r' \<Rightarrow> if d = CHR ''}'' then Some (JObj [], r')
                        else map_option (apfst JObj) (read_members n (d # r')))
          else if c = CHR ''['' then
            (case skip_ws r of [] \<Rightarrow> None
             | d # r' \<Rightarrow> if d = CHR '']'' then Some (JArr [], r')
                        else map_option (apfst JArr) (read_elems n (d # r')))
          else if c = dquote then map_option (apfst JStr) (unchars r)
          else if c = CHR ''n'' then read_word ''null'' JNull (c # r)
          else if c = CHR ''t'' then read_word ''true'' (JBool True) (c # r)
          else if c = CHR ''f'' then read_word ''false'' (JBool False) (c # r)
          else map_option (apfst JNum) (read_num (c # r)))"
| "read_elems 0 s = None"
| "read_elems (Suc n) s =
     (case read_value n s of None \<Rightarrow> None
      | Some (v, s1) \<Rightarrow>
          (case skip_ws s1 of [] \<Rightarrow> None
           | c # s2 \<Rightarrow>
               if c = CHR '','' then map_option (apfst ((#) v)) (read_elems n s2)
               else if c = CHR '']'' then Some ([v], s2) else None))"
| "read_members 0 s = None"
| "read_members (Suc n) s =
     (case skip_ws s of [] \<Rightarrow> None
      | q # s0 \<Rightarrow>
          if q \<noteq> dquote then None else
          (case unchars s0 of None \<Rightarrow> None
           | Some (k, s1) \<Rightarrow>
               (case skip_ws s1 of [] \<Rightarrow> None
                | co # s2 \<Rightarrow>
                    if co \<noteq> CHR '':'' then None else
                    (case read_value n s2 of None \<Rightarrow> None
                     | Some (v, s3) \<Rightarrow>
                         (case skip_ws s3 of [] \<Rightarrow> None
                          | c # s4 \<Rightarrow>
                              if c = CHR '','' then map_option (apfst ((#) (k, v))) (read_members n s4)
                              else if c = CHR ''}'' then Some ([(k, v)], s4) else None)))))"

text \<open>A whole document, of at most 10000 nesting levels (Go's \<open>maxNestingDepth\<close>).\<close>

definition json_parse :: "string \<Rightarrow> json option" where
  "json_parse s =
     (case read_value (Suc (2 * length s)) s of
        None \<Rightarrow> None
      | Some (v, r) \<Rightarrow> (if skip_ws r = [] \<and> json_depth v \<le> 10000 then Some v else None))"

text \<open>Into an \<open>interface{}\<close>, an object becomes a map: of a repeated key the last member stays.\<close>

fun go_value :: "json \<Rightarrow> json" where
  "go_value (JArr vs) = JArr (map go_value vs)"
| "go_value (JObj kvs) = JObj (gomap_of (map (\<lambda>(k, v). (k, go_value v)) kvs))"
| "go_value v = v"

definition map_of_json :: "json \<Rightarrow> json gomap go" where
  "map_of_json v = (case go_value v of JObj m \<Rightarrow> Ret m | JNull \<Rightarrow> Ret []
     | _ \<Rightarrow> Fail (Err ''cannot unmarshal into a map''))"

definition unmarshal_map :: "string \<Rightarrow> json gomap go" where
  "unmarshal_map s = (case json_parse s of None \<Rightarrow> Fail (Err ''invalid JSON'') | Some v \<Rightarrow> map_of_json v)"

definition InterfaceToMap :: "json \<Rightarrow> json gomap go" where
  "InterfaceToMap obj = unmarshal_map (json_marshal obj)"

subsection \<open>The reader undoes the writer\<close>

lemma json_induct [case_names Null Bool Num Str Arr Obj]:
  assumes "P JNull" "\<And>b. P (JBool b)" "\<And>i. P (JNum i)" "\<And>s. P (JStr s)"
    and "\<And>vs. (\<And>v. v \<in> set vs \<Longrightarrow> P v) \<Longrightarrow> P (JArr vs)"
    and "\<And>kvs. (\<And>k v. (k, v) \<in> set kvs \<Longrightarrow> P v) \<Longrightarrow> P (JObj kvs)"
  shows "P v"
proof (induction v)
  case (JObj kvs)
  then show ?case using assms(6) [of kvs] by (auto simp: snds.simps)
qed (use assms in auto)

lemma digit_not_special:
  "digit_val c = Some d \<Longrightarrow> c \<noteq> dquote \<and> c \<noteq> CHR ''-'' \<and> \<not> is_ws c \<and>
     c \<notin> {CHR ''{'', CHR ''['', CHR ''}'', CHR '']'', CHR ''n'', CHR ''t'', CHR ''f'', CHR '','', CHR '':''}"
  by (auto simp: digit_val_def is_ws_def split: if_splits)

lemma show_nat_first: "\<exists>c r. show_nat n = c # r \<and> digit_val c \<noteq> None"
  using show_nat_hd [of n] by auto

lemma show_int_first:
  "\<exists>c r. show_int i = c # r \<and> (c = CHR ''-'' \<or> (\<exists>d. digit_val c = Some d))"
  using show_nat_first by (fastforce simp: show_int_def)

lemma skip_ws_noop: "\<not> is_ws c \<Longrightarrow> skip_ws (c # s) = c # s"
  by simp

lemma json_text_first:
  "\<exists>c r. json_text v = c # r \<and> \<not> is_ws c \<and> c \<noteq> CHR '']'' \<and> c \<noteq> CHR ''}''"
proof (cases v)
  case (JNum i)
  show ?thesis
    using show_int_first [of i] digit_not_special JNum by (fastforce simp: is_ws_def)
qed (auto simp: json_quote_def is_ws_def)

lemma read_num_show [simp]:
  assumes "num_ok i" "no_digit rest"
  shows "read_num (show_int i @ rest) = Some (i, rest)"
proof (cases "i < 0")
  case True
  with assms show ?thesis by (simp add: read_num_def show_int_def num_ok_def)
next
  case False
  obtain c r where c: "show_nat (nat i) = c # r" "digit_val c \<noteq> None" using show_nat_first by blast
  then have "\<not> has_prefix ''-'' (show_nat (nat i) @ rest)"
    using digit_not_special by fastforce
  with False assms show ?thesis by (simp add: read_num_def show_int_def)
qed

lemma read_string [simp]: "utf8_ok s \<Longrightarrow> unchars (json_chars s @ dquote # rest) = Some (s, rest)"
  by (rule unchars_json_chars)

definition elems_text :: "json list \<Rightarrow> string" where
  "elems_text vs = comma_sep (map json_text vs) @ '']''"

definition members_text :: "(string \<times> json) list \<Rightarrow> string" where
  "members_text kvs = comma_sep (map (\<lambda>(k, v). json_quote k @ CHR '':'' # json_text v) kvs) @ ''}''"

lemma elems_text_Cons: "elems_text (v # vs) = json_text v @ (if vs = [] then '']'' else CHR '','' # elems_text vs)"
  by (cases vs) (simp_all add: elems_text_def)

lemma members_text_Cons:
  "members_text ((k, v) # kvs) =
     json_quote k @ CHR '':'' # json_text v @ (if kvs = [] then ''}'' else CHR '','' # members_text kvs)"
  by (cases kvs) (simp_all add: members_text_def)

lemma json_text_containers:
  "json_text (JArr vs) = CHR ''['' # elems_text vs" "json_text (JObj kvs) = CHR ''{'' # members_text kvs"
  by (simp_all add: elems_text_def members_text_def)

lemma elems_text_Nil [simp]: "elems_text [] = '']''" and members_text_Nil [simp]: "members_text [] = ''}''"
  by (simp_all add: elems_text_def members_text_def)

lemma no_digit_punct [simp]:
  "no_digit (CHR '','' # s)" "no_digit (CHR '']'' # s)" "no_digit (CHR ''}'' # s)" "no_digit []"
  by (simp_all add: no_digit_def digit_val_def)

lemma ws_punct [simp]:
  "\<not> is_ws (CHR '','')" "\<not> is_ws (CHR '']'')" "\<not> is_ws (CHR ''}'')" "\<not> is_ws (CHR '':'')"
  "\<not> is_ws dquote" "\<not> is_ws (CHR ''{'')" "\<not> is_ws (CHR ''['')"
  by (simp_all add: is_ws_def)

definition reads_back :: "nat \<Rightarrow> bool" where
  "reads_back n \<longleftrightarrow> (\<forall>v rest. json_ok v \<longrightarrow> no_digit rest \<longrightarrow> json_size v \<le> n \<longrightarrow>
     read_value n (json_text v @ rest) = Some (v, rest))"

lemma read_elems_text:
  assumes "\<And>n. n < m \<Longrightarrow> reads_back n"
  shows "vs \<noteq> [] \<Longrightarrow> list_all json_ok vs \<Longrightarrow> sum_list (map (\<lambda>v. Suc (json_size v)) vs) \<le> n \<Longrightarrow> n \<le> m \<Longrightarrow>
    read_elems n (elems_text vs @ rest) = Some (vs, rest)"
proof (induction vs arbitrary: n)
  case (Cons v vs)
  obtain k where n: "n = Suc k" "json_size v \<le> k" using Cons.prems(3) by (cases n) auto
  have rb: "reads_back k" using assms n Cons.prems(4) by simp
  show ?case
  proof (cases "vs = []")
    case True
    have "read_value k (json_text v @ '']'' @ rest) = Some (v, '']'' @ rest)"
      using rb Cons.prems n by (auto simp: reads_back_def)
    with True n show ?thesis by (simp add: elems_text_Cons)
  next
    case False
    have "read_value k (json_text v @ CHR '','' # elems_text vs @ rest) = Some (v, CHR '','' # elems_text vs @ rest)"
      using rb Cons.prems n by (auto simp: reads_back_def)
    moreover have "read_elems k (elems_text vs @ rest) = Some (vs, rest)"
      using Cons n False by auto
    ultimately show ?thesis using False n by (simp add: elems_text_Cons)
  qed
qed simp

lemma read_members_text:
  assumes "\<And>n. n < m \<Longrightarrow> reads_back n"
  shows "kvs \<noteq> [] \<Longrightarrow> list_all (\<lambda>(k, v). utf8_ok k \<and> json_ok v) kvs \<Longrightarrow>
    sum_list (map (\<lambda>(k, v). Suc (json_size v)) kvs) \<le> n \<Longrightarrow> n \<le> m \<Longrightarrow>
    read_members n (members_text kvs @ rest) = Some (kvs, rest)"
proof (induction kvs arbitrary: n)
  case (Cons kv kvs)
  obtain key v where kv: "kv = (key, v)" by force
  obtain k where n: "n = Suc k" "json_size v \<le> k" using Cons.prems(3) kv by (cases n) auto
  have rb: "reads_back k" using assms n Cons.prems(4) by simp
  show ?case
  proof (cases "kvs = []")
    case True
    have "read_value k (json_text v @ ''}'' @ rest) = Some (v, ''}'' @ rest)"
      using rb Cons.prems n kv by (auto simp: reads_back_def)
    with True n kv Cons.prems show ?thesis by (simp add: members_text_Cons json_quote_def)
  next
    case False
    have "read_value k (json_text v @ CHR '','' # members_text kvs @ rest) = Some (v, CHR '','' # members_text kvs @ rest)"
      using rb Cons.prems n kv by (auto simp: reads_back_def)
    moreover have "read_members k (members_text kvs @ rest) = Some (kvs, rest)"
      using Cons n False kv by auto
    ultimately show ?thesis using False n kv Cons.prems by (simp add: members_text_Cons json_quote_def)
  qed
qed simp

lemma elems_text_first: "vs \<noteq> [] \<Longrightarrow> \<exists>c r. elems_text vs = c # r \<and> \<not> is_ws c \<and> c \<noteq> CHR '']''"
  using json_text_first [of "hd vs"] by (cases vs) (auto simp: elems_text_Cons)

lemma members_text_first: "kvs \<noteq> [] \<Longrightarrow> \<exists>r. members_text kvs = dquote # r"
  by (cases kvs) (auto simp: members_text_Cons json_quote_def)

lemma reads_back: "reads_back n"
proof (induction n rule: less_induct)
  case (less n)
  show ?case unfolding reads_back_def
  proof (intro allI impI)
    fix v rest
    assume v: "json_ok v" "no_digit rest" "json_size v \<le> n"
    then obtain k where n: "n = Suc k" by (cases n; cases v) auto
    have IH: "m < k \<Longrightarrow> reads_back m" for m using less n by simp
    show "read_value n (json_text v @ rest) = Some (v, rest)"
    proof (cases v)
      case (JNum i)
      obtain c r where c: "show_int i = c # r" "c = CHR ''-'' \<or> (\<exists>d. digit_val c = Some d)"
        using show_int_first by blast
      then have "\<not> is_ws c" "c \<notin> {CHR ''{'', CHR ''['', dquote, CHR ''n'', CHR ''t'', CHR ''f''}"
        using digit_not_special by (auto simp: is_ws_def)
      moreover have "read_num (c # r @ rest) = Some (i, rest)"
        using read_num_show [of i rest] v JNum c by simp
      ultimately show ?thesis using JNum n c by simp
    next
      case (JArr vs)
      show ?thesis
      proof (cases "vs = []")
        case False
        then obtain c r where c: "elems_text vs = c # r" "\<not> is_ws c" "c \<noteq> CHR '']''"
          using elems_text_first by blast
        have "read_elems k (elems_text vs @ rest) = Some (vs, rest)"
          using read_elems_text [OF IH False] v n JArr by simp
        then show ?thesis using JArr n c by (simp add: json_text_containers del: json_text.simps)
      qed (use JArr n in simp)
    next
      case (JObj kvs)
      show ?thesis
      proof (cases "kvs = []")
        case False
        then obtain r where c: "members_text kvs = dquote # r"
          using members_text_first by blast
        have "read_members k (members_text kvs @ rest) = Some (kvs, rest)"
          using read_members_text [OF IH False] v n JObj by simp
        then show ?thesis using JObj n c by (simp add: json_text_containers del: json_text.simps)
      qed (use JObj n in simp)
    qed (use v n in \<open>auto simp: read_word_def json_quote_def is_ws_def\<close>)
  qed
qed

lemma json_text_length: "json_size v \<le> length (json_text v)"
proof (induction v rule: json_induct)
  case (Arr vs)
  then have "sum_list (map (\<lambda>v. Suc (json_size v)) vs) \<le> length (elems_text vs)"
    by (induction vs) (auto simp: elems_text_Cons add_mono)
  then show ?case by (simp add: json_text_containers del: json_text.simps)
next
  case (Obj kvs)
  then have "sum_list (map (\<lambda>(k, v). Suc (json_size v)) kvs) \<le> length (members_text kvs)"
    by (induction kvs) (fastforce simp: members_text_Cons split: prod.splits)+
  then show ?case by (simp add: json_text_containers del: json_text.simps)
next
  case (Num i)
  then show ?case using show_int_first [of i] by auto
qed (auto simp: json_quote_def)

theorem json_parse_text: "json_ok v \<Longrightarrow> json_depth v \<le> 10000 \<Longrightarrow> json_parse (json_text v) = Some v"
  using reads_back [of "Suc (2 * length (json_text v))"] json_text_length [of v]
  by (force simp: json_parse_def reads_back_def dest: spec [where x = "[]"])
subsection \<open>What the reader returns\<close>

lemma skip_ws_length: "length (skip_ws s) \<le> length s"
  by (induction s) auto

lemma skip_ws_Cons_length: "skip_ws s = c # r \<Longrightarrow> length r < length s"
  using skip_ws_length [of s] by simp

lemma read_num_sound: "read_num s = Some (i, r) \<Longrightarrow> num_ok i \<and> length r < length s"
  by (auto simp: read_num_def num_ok_def split: if_splits option.splits dest!: read_nat_length)

lemma read_word_sound:
  "read_word w v s = Some (v', r) \<Longrightarrow> w \<noteq> [] \<Longrightarrow> v' = v \<and> length r < length s"
  by (auto simp: read_word_def has_prefix_iff split: if_splits)

text \<open>One step of the reader, taken apart by what the first byte says.\<close>

lemma read_value_SucD:
  assumes "read_value (Suc n) s = Some (v, r)"
  obtains (flat) "json_ok v" "length r < length s"
  | (obj) kvs t where "v = JObj kvs" "read_members n t = Some (kvs, r)" "length t < length s"
  | (arr) vs t where "v = JArr vs" "read_elems n t = Some (vs, r)" "length t < length s"
proof -
  obtain c t where c: "skip_ws s = c # t" using assms by (auto split: list.splits)
  note len = skip_ws_Cons_length [OF c]
  consider "c = CHR ''{''" | "c = CHR ''[''" | "c \<noteq> CHR ''{''" "c \<noteq> CHR ''[''" by blast
  then show thesis
  proof cases
    case 1
    then obtain d u where d: "skip_ws t = d # u" using assms c by (auto split: list.splits)
    have "length (d # u) \<le> length t" using skip_ws_length [of t] d by simp
    with assms 1 c d len flat obj show thesis by (auto split: if_splits)
  next
    case 2
    then obtain d u where d: "skip_ws t = d # u" using assms c by (auto split: list.splits)
    have "length (d # u) \<le> length t" using skip_ws_length [of t] d by simp
    with assms 2 c d len flat arr show thesis by (auto split: if_splits)
  next
    case 3
    have "length (c # t) \<le> length s" using len by simp
    moreover have "json_ok v \<and> length r < length (c # t)"
      using assms 3 c by (auto split: if_splits dest!: unchars_sound read_word_sound read_num_sound)
    ultimately show thesis using flat by simp
  qed
qed

lemma read_elems_SucD:
  assumes "read_elems (Suc n) s = Some (vs, r)"
  obtains v t ws where "read_value n s = Some (v, t)" "vs = v # ws"
    "ws = [] \<and> length r < length t \<or> (\<exists>u. length u < length t \<and> read_elems n u = Some (ws, r))"
proof -
  obtain v t where v: "read_value n s = Some (v, t)" using assms by (auto split: option.splits)
  then obtain c u where c: "skip_ws t = c # u" using assms by (auto split: list.splits)
  note len = skip_ws_Cons_length [OF c]
  show thesis using assms v c len that [OF v] by (auto split: if_splits)
qed

lemma read_members_SucD:
  assumes "read_members (Suc n) s = Some (kvs, r)"
  obtains k v t u ws where "utf8_ok k" "length t < length s" "read_value n t = Some (v, u)" "kvs = (k, v) # ws"
    "ws = [] \<and> length r < length u \<or> (\<exists>x. length x < length u \<and> read_members n x = Some (ws, r))"
proof -
  obtain s0 where s0: "skip_ws s = dquote # s0" using assms by (auto split: list.splits if_splits)
  then obtain k s1 where k: "unchars s0 = Some (k, s1)" using assms by (auto split: option.splits)
  then obtain s2 where s2: "skip_ws s1 = CHR '':'' # s2" using assms s0 by (auto split: list.splits if_splits)
  then obtain v s3 where v: "read_value n s2 = Some (v, s3)" using assms s0 k by (auto split: option.splits)
  then obtain c s4 where c: "skip_ws s3 = c # s4" using assms s0 k s2 by (auto split: list.splits)
  have "length s2 < length s"
    using skip_ws_Cons_length [OF s0] unchars_sound [OF k] skip_ws_Cons_length [OF s2] by simp
  then show thesis
    using assms s0 k s2 v c unchars_sound [OF k] skip_ws_Cons_length [OF c] that [of k s2 v s3]
    by (auto split: if_splits)
qed

lemma read_sound:
  "(\<forall>s v r. read_value n s = Some (v, r) \<longrightarrow> json_ok v \<and> length r < length s) \<and>
   (\<forall>s vs r. read_elems n s = Some (vs, r) \<longrightarrow> list_all json_ok vs \<and> length r < length s) \<and>
   (\<forall>s kvs r. read_members n s = Some (kvs, r) \<longrightarrow>
      list_all (\<lambda>(k, v). utf8_ok k \<and> json_ok v) kvs \<and> length r < length s)"
proof (induction n)
  case (Suc n)
  have "json_ok v \<and> length r < length s" if "read_value (Suc n) s = Some (v, r)" for s v r
    using that by (cases rule: read_value_SucD) (use Suc in fastforce)+
  moreover have "list_all json_ok vs \<and> length r < length s" if "read_elems (Suc n) s = Some (vs, r)" for s vs r
    using that by (cases rule: read_elems_SucD) (use Suc in fastforce)
  moreover have "list_all (\<lambda>(k, v). utf8_ok k \<and> json_ok v) kvs \<and> length r < length s"
    if "read_members (Suc n) s = Some (kvs, r)" for s kvs r
    using that by (cases rule: read_members_SucD) (use Suc in fastforce)
  ultimately show ?case by blast
qed simp

lemma read_value_sound: "read_value n s = Some (v, r) \<Longrightarrow> json_ok v \<and> length r < length s"
  using read_sound by blast

lemma json_parse_ok: "json_parse s = Some v \<Longrightarrow> json_ok v \<and> json_depth v \<le> 10000"
  by (auto simp: json_parse_def read_value_sound simp del: read_value.simps split: option.splits if_splits)

text \<open>Fuel above twice the length of the input is never exhausted: more fuel reads the same.\<close>

lemma read_fuel_enough_aux:
  "(\<forall>s. 2 * length s < n \<longrightarrow> read_value (Suc n) s = read_value n s) \<and>
   (\<forall>s. 2 * length s + 1 < n \<longrightarrow> read_elems (Suc n) s = read_elems n s) \<and>
   (\<forall>s. 2 * length s + 1 < n \<longrightarrow> read_members (Suc n) s = read_members n s)"
proof (induction n)
  case (Suc n)
  have value_eq: "read_value (Suc (Suc n)) s = read_value (Suc n) s" if "2 * length s < Suc n" for s
  proof (cases "skip_ws s")
    case (Cons c t)
    note len = skip_ws_Cons_length [OF Cons]
    show ?thesis
    proof (cases "skip_ws t")
      case (Cons d u)
      have "length (d # u) \<le> length t" using skip_ws_length [of t] Cons by simp
      then have "2 * length (d # u) + 1 < n" using len that by simp
      then show ?thesis using Suc \<open>skip_ws s = c # t\<close> Cons by (simp only: read_value.simps list.case)
    qed (use Cons in simp)
  qed simp
  have elems_eq: "read_elems (Suc (Suc n)) s = read_elems (Suc n) s" if "2 * length s + 1 < Suc n" for s
  proof -
    have v: "read_value (Suc n) s = read_value n s" using Suc that by simp
    have e: "read_elems (Suc n) u = read_elems n u" if "read_value n s = Some (v, t)" "skip_ws t = c # u" for v t c u
      using Suc that(1) \<open>2 * length s + 1 < Suc n\<close> read_value_sound [OF that(1)] skip_ws_Cons_length [OF that(2)] by simp
    show ?thesis using v e by (simp split: option.splits list.splits)
  qed
  have "read_members (Suc (Suc n)) s = read_members (Suc n) s" if "2 * length s + 1 < Suc n" for s
  proof -
    have v: "read_value (Suc n) s2 = read_value n s2"
      if "skip_ws s = q # s0" "unchars s0 = Some (k, s1)" "skip_ws s1 = co # s2" for q s0 k s1 co s2
      using Suc \<open>2 * length s + 1 < Suc n\<close> skip_ws_Cons_length [OF that(1)] unchars_sound [OF that(2)]
        skip_ws_Cons_length [OF that(3)] by simp
    have e: "read_members (Suc n) s4 = read_members n s4"
      if "skip_ws s = q # s0" "unchars s0 = Some (k, s1)" "skip_ws s1 = co # s2"
        "read_value n s2 = Some (w, s3)" "skip_ws s3 = c # s4" for q s0 k s1 co s2 w s3 c s4
      using Suc \<open>2 * length s + 1 < Suc n\<close> skip_ws_Cons_length [OF that(1)] unchars_sound [OF that(2)]
        skip_ws_Cons_length [OF that(3)] read_value_sound [OF that(4)] skip_ws_Cons_length [OF that(5)] by simp
    show ?thesis using v e by (simp split: option.splits list.splits)
  qed
  with value_eq elems_eq show ?case by blast
qed simp

theorem read_fuel_enough: "2 * length s < n \<Longrightarrow> read_value (n + k) s = read_value n s"
proof (induction k)
  case (Suc k)
  then show ?case using read_fuel_enough_aux [of "n + k"] by simp
qed simp
subsection \<open>Go maps and their canonical order\<close>

text \<open>
  What every \<open>map[string]interface{}\<close> that came out of \<open>json.Unmarshal\<close> satisfies.
\<close>

definition go_json :: "json \<Rightarrow> bool" where
  "go_json v \<longleftrightarrow> json_ok v \<and> go_maps v \<and> json_depth v \<le> 10000"

definition sorted_members :: "json gomap \<Rightarrow> json gomap" where
  "sorted_members m = sort_key fst (map (apsnd sort_keys) m)"

lemma pair_map_apsnd: "(\<lambda>(k, v). (k, f v)) = apsnd f"
  by (simp add: fun_eq_iff)

lemma fst_comp_apsnd [simp]: "fst \<circ> apsnd f = fst" and apsnd_comp_apsnd [simp]: "apsnd f \<circ> apsnd g = apsnd (f \<circ> g)"
  by (simp_all add: fun_eq_iff)

lemma sort_keys_JObj [simp]: "sort_keys (JObj m) = JObj (sorted_members m)"
  by (simp add: sorted_members_def pair_map_apsnd)

declare sort_keys.simps(2) [simp del]

lemma fold_max_le: "fold max xs a \<le> n \<longleftrightarrow> a \<le> n \<and> (\<forall>x \<in> set xs. x \<le> (n::nat))"
  by (induction xs arbitrary: a) auto

lemma fold_max_mono:
  "(\<And>x. x \<in> set xs \<Longrightarrow> \<exists>y \<in> set ys. x \<le> y) \<Longrightarrow> fold max xs 0 \<le> (fold max ys 0 :: nat)"
  using fold_max_le [of ys 0 "fold max ys 0"] by (fastforce simp: fold_max_le)

lemma fold_max_cong: "set xs = set ys \<Longrightarrow> fold max xs 0 = (fold max ys 0 :: nat)"
  by (intro order_antisym fold_max_mono) auto

lemma set_sorted_members [simp]: "set (sorted_members m) = apsnd sort_keys ` set m"
  by (simp add: sorted_members_def)

lemma json_ok_sort_keys [simp]: "json_ok (sort_keys v) = json_ok v"
  by (induction v rule: json_induct) (fastforce simp: list_all_iff)+

lemma json_depth_sort_keys [simp]: "json_depth (sort_keys v) = json_depth v"
proof (induction v rule: json_induct)
  case (Arr vs)
  then have "map (json_depth \<circ> sort_keys) vs = map json_depth vs" by simp
  then show ?case by (simp del: map_eq_conv)
next
  case (Obj kvs)
  have "(\<lambda>(k, v). json_depth v) ` apsnd sort_keys ` set kvs = (\<lambda>(k, v). json_depth v) ` set kvs"
    unfolding image_image by (rule image_cong) (auto simp: Obj)
  then show ?case by (simp, intro fold_max_cong) simp
qed auto

lemma map_fst_sorted_members: "mset (map fst (sorted_members m)) = mset (map fst m)"
  by (simp add: sorted_members_def image_mset.compositionality)

lemma wf_sorted_members [simp]: "wf_gomap (sorted_members m) = wf_gomap m"
  unfolding wf_gomap_def by (rule mset_eq_imp_distinct_iff) (rule map_fst_sorted_members)

lemma go_maps_sort_keys [simp]: "go_maps (sort_keys v) = go_maps v"
  by (induction v rule: json_induct) (fastforce simp: list_all_iff)+

lemma map_apsnd_sort_key: "map (apsnd f) (sort_key fst xs) = sort_key fst (map (apsnd f) xs)"
proof -
  have insort: "map (apsnd f) (insort_key fst x ys) = insort_key fst (apsnd f x) (map (apsnd f) ys)" for x ys
    by (induction ys) auto
  show ?thesis by (induction xs) (simp_all add: insort)
qed

lemma sort_keys_idem [simp]: "sort_keys (sort_keys v) = sort_keys v"
proof (induction v rule: json_induct)
  case (Obj kvs)
  have "map (apsnd (sort_keys \<circ> sort_keys)) kvs = map (apsnd sort_keys) kvs"
    using Obj by auto
  then have "sorted_members (sorted_members kvs) = sort_key fst (sorted_members kvs)"
    by (simp add: sorted_members_def map_apsnd_sort_key del: map_eq_conv)
  also have "\<dots> = sorted_members kvs"
    by (rule sort_key_id_if_sorted) (simp add: sorted_members_def)
  finally show ?case by simp
qed auto

text \<open>The canonical order does not depend on the order the members were listed in.\<close>

lemma sort_key_fst_unique:
  assumes "distinct (map fst xs)" "distinct (map fst ys)" "set xs = set ys"
  shows "sort_key fst xs = sort_key fst (ys :: (string \<times> 'v) list)"
proof (rule map_sorted_distinct_set_unique [where f = fst])
  show "inj_on fst (set (sort_key fst xs) \<union> set (sort_key fst ys))"
    using assms by (simp add: distinct_map)
  have "mset (map fst (sort_key fst zs)) = mset (map fst zs)" for zs :: "(string \<times> 'v) list"
    by simp
  then show "distinct (map fst (sort_key fst xs))" "distinct (map fst (sort_key fst ys))"
    using assms mset_eq_imp_distinct_iff by blast+
qed (use assms in simp_all)

lemma sorted_members_perm:
  assumes "wf_gomap m" "wf_gomap m'" "set m = set m'"
  shows "sorted_members m = sorted_members m'"
  unfolding sorted_members_def
  using assms by (intro sort_key_fst_unique) (auto simp: wf_gomap_def)

lemma gomap_set_eq:
  "wf_gomap m \<Longrightarrow> wf_gomap m' \<Longrightarrow> map_of m = map_of m' \<Longrightarrow> set m = set m'"
  by (simp add: wf_gomap_def map_of_inject_set)

lemma sorted_members_cong:
  assumes "wf_gomap m" "wf_gomap m'" "map_of m = map_of m'"
  shows "sorted_members m = sorted_members m'"
  using sorted_members_perm [OF assms(1,2) gomap_set_eq [OF assms]] .

lemma map_of_apsnd: "map_of (map (apsnd f) m) k = map_option f (map_of m k)"
  by (induction m) (auto simp: apsnd_def map_prod_def)

lemma map_of_sorted_members:
  assumes wf: "wf_gomap m"
  shows "map_of (sorted_members m) k = map_option sort_keys (map_of m k)"
proof -
  have "map_of (sorted_members m) = map_of (map (apsnd sort_keys) m)"
    using wf wf_sorted_members [of m] by (subst map_of_inject_set) (simp_all add: wf_gomap_def)
  then show ?thesis by (simp add: map_of_apsnd)
qed

subsection \<open>InterfaceToMap\<close>

lemma go_value_id: "go_maps v \<Longrightarrow> go_value v = v"
proof (induction v rule: json_induct)
  case (Arr vs)
  then show ?case by (simp add: list_all_iff map_idI)
next
  case (Obj kvs)
  then have "map (\<lambda>(k, v). (k, go_value v)) kvs = kvs"
    by (intro map_idI) (auto simp: list_all_iff)
  with Obj show ?case by simp
qed auto

lemma set_gomap_of: "set (gomap_of kvs) \<subseteq> set kvs"
proof -
  have "set (fold (\<lambda>(k, v) m. AList.update k v m) kvs m) \<subseteq> set m \<union> set kvs" for m
  proof (induction kvs arbitrary: m)
    case (Cons kv kvs)
    obtain k v where kv: "kv = (k, v)" by force
    have "set (AList.update k v m) \<subseteq> insert (k, v) (set m)"
      by (induction m) auto
    with Cons [of "AList.update k v m"] kv show ?case by auto
  qed simp
  from this [of "[]"] show ?thesis by (simp add: gomap_of_def)
qed

lemma go_maps_go_value [simp]: "go_maps (go_value v)"
proof (induction v rule: json_induct)
  case (Obj kvs)
  then show ?case using set_gomap_of [of "map (\<lambda>(k, v). (k, go_value v)) kvs"]
    by (fastforce simp: list_all_iff)
qed (auto simp: list_all_iff)

lemma json_ok_go_value: "json_ok v \<Longrightarrow> json_ok (go_value v)"
proof (induction v rule: json_induct)
  case (Obj kvs)
  then show ?case using set_gomap_of [of "map (\<lambda>(k, v). (k, go_value v)) kvs"]
    by (fastforce simp: list_all_iff)
qed (auto simp: list_all_iff)

lemma json_depth_go_value: "json_depth (go_value v) \<le> json_depth v"
proof (induction v rule: json_induct)
  case (Arr vs)
  then show ?case by (simp, intro fold_max_mono) auto
next
  case (Obj kvs)
  have "\<exists>y \<in> set (map (\<lambda>(k, v). json_depth v) kvs). d \<le> y"
    if d: "d \<in> set (map (\<lambda>(k, v). json_depth v) (gomap_of (map (\<lambda>(k, v). (k, go_value v)) kvs)))" for d
  proof -
    obtain k v where "(k, v) \<in> set kvs" "d = json_depth (go_value v)"
      using d set_gomap_of [of "map (\<lambda>(k, v). (k, go_value v)) kvs"] by fastforce
    with Obj show ?thesis by (intro bexI [of _ "json_depth v"]) (auto intro!: image_eqI)
  qed
  then show ?case by (simp, intro fold_max_mono) simp
qed auto

lemma go_json_go_value: "json_ok v \<Longrightarrow> json_depth v \<le> 10000 \<Longrightarrow> go_json (go_value v)"
  using json_depth_go_value [of v] by (simp add: go_json_def json_ok_go_value)

lemma json_parse_go_json: "json_parse s = Some v \<Longrightarrow> go_json (go_value v)"
  by (auto dest!: json_parse_ok intro: go_json_go_value)

lemma go_json_empty [simp]: "go_json (JObj [])"
  by (simp add: go_json_def)

lemma map_of_json_go_json: "map_of_json v = Ret m \<Longrightarrow> go_json (go_value v) \<Longrightarrow> go_json (JObj m)"
  by (auto simp: map_of_json_def split: json.splits)

lemma unmarshal_map_go_json: "unmarshal_map s = Ret m \<Longrightarrow> go_json (JObj m)"
  by (auto simp: unmarshal_map_def intro: map_of_json_go_json json_parse_go_json split: option.splits)

lemma map_of_json_no_Panic [simp]: "map_of_json v \<noteq> Panic p"
  by (simp add: map_of_json_def split: json.splits)

lemma unmarshal_map_no_Panic [simp]: "unmarshal_map s \<noteq> Panic p"
  by (simp add: unmarshal_map_def split: option.splits)

lemma InterfaceToMap_go_json: "go_json (JObj m) \<Longrightarrow> InterfaceToMap (JObj m) = Ret (sorted_members m)"
proof -
  assume m: "go_json (JObj m)"
  let ?v = "sort_keys (JObj m)"
  have "json_parse (json_text ?v) = Some ?v"
    using m by (intro json_parse_text) (simp_all only: go_json_def json_ok_sort_keys json_depth_sort_keys)
  moreover have "go_value ?v = ?v"
    using m by (intro go_value_id) (simp only: go_json_def go_maps_sort_keys)
  ultimately show ?thesis by (simp add: InterfaceToMap_def unmarshal_map_def map_of_json_def json_marshal_def)
qed

lemma go_json_sorted_members [simp]: "go_json (JObj (sorted_members m)) = go_json (JObj m)"
  unfolding go_json_def by (simp only: sort_keys_JObj [symmetric] json_ok_sort_keys go_maps_sort_keys json_depth_sort_keys)

lemma sorted_members_idem [simp]: "sorted_members (sorted_members m) = sorted_members m"
  using sort_keys_idem [of "JObj m"] by simp

interpretation canonical_text: codec json_marshal "\<lambda>s. map_option go_value (json_parse s)"
  "\<lambda>v. go_json v \<and> sort_keys v = v"
  by unfold_locales (auto simp: json_marshal_def go_json_def json_parse_text go_value_id)

subsection \<open>Property\<close>

text \<open>
  \<open>util.InterfaceToMap\<close>, which marshals a value and reads the bytes back, changes nothing
  but the order of the members: every member is found under its key with the value it had.
\<close>

theorem interface_to_map_exact:
  assumes "go_json (JObj m)"
  shows "\<exists>m'. InterfaceToMap (JObj m) = Ret m' \<and> wf_gomap m' \<and> sort_keys (JObj m') = sort_keys (JObj m) \<and>
    (\<forall>k. map_of m' k = map_option sort_keys (map_of m k))"
proof (intro exI conjI allI)
  have wf: "wf_gomap m" using assms by (simp add: go_json_def)
  show "InterfaceToMap (JObj m) = Ret (sorted_members m)" by (rule InterfaceToMap_go_json [OF assms])
  show "wf_gomap (sorted_members m)" using wf by simp
  show "map_of (sorted_members m) k = map_option sort_keys (map_of m k)" for k
    by (rule map_of_sorted_members [OF wf])
qed simp

theorem interface_to_map_exact_witness:
  "\<exists>m'. InterfaceToMap (JObj [(''b'', JNum 2), (''a'', JStr ''x'')]) = Ret m' \<and> map_of m' ''a'' = Some (JStr ''x'')"
proof -
  have "go_json (JObj [(''b'', JNum 2), (''a'', JStr ''x'')])" by code_simp
  from interface_to_map_exact [OF this] show ?thesis by fastforce
qed

end
