(* ===== verification/Models.thy ===== *)
theory Models
  imports Json
begin

text \<open>
  The records of package \<open>db/models\<close>. A pointer field that the program always sets
  (\<open>CachedRemoteKeys.RemoteServer\<close>) is the record itself; a pointer result that may be
  nil is an option.
\<close>

type_synonym KeyID = string
type_synonym Timestamp = int
type_synonym ServerName = string
type_synonym AdditionalJSON = "json gomap"

record OwnKey =
  ok_ID :: KeyID
  ok_PublicKey :: string
  ok_PrivateKey :: string
  ok_ExpiresTs :: Timestamp

record RemoteServer =
  rs_ServerName :: ServerName
  rs_UpdatedTs :: Timestamp
  rs_ValidUntilTs :: Timestamp
  rs_NonStandardJSON :: AdditionalJSON
  rs_ObtainedViaNotary :: string
  rs_OriginFailures :: int
  rs_NextOriginAttemptTs :: Timestamp

record RemoteKey =
  rk_ServerName :: ServerName
  rk_ID :: KeyID
  rk_PublicKey :: string
  rk_ExpiresTs :: Timestamp

record RemoteSignature =
  sg_ServerName :: ServerName
  sg_KeyID :: KeyID
  sg_Signature :: string

record CachedRemoteKeys =
  ck_RemoteServer :: RemoteServer
  ck_Signatures :: "RemoteSignature list"
  ck_Keys :: "RemoteKey list"

abbreviation ck_ValidUntilTs :: "CachedRemoteKeys \<Rightarrow> Timestamp" where
  "ck_ValidUntilTs c \<equiv> rs_ValidUntilTs (ck_RemoteServer c)"

end
