(* ===== verification/Base64.thy ===== *)
theory Base64
  imports Prelude
begin

text \<open>
  Unpadded standard base64 (\<open>signing/unpadded_base64.go\<close>): Go's
  \<open>base64.RawStdEncoding\<close>. The decoder skips carriage returns and newlines, rejects
  every other byte outside the alphabet (the padding sign included), rejects a single
  left-over digit, and does not look at unused trailing bits.
\<close>

subsection \<open>The alphabet\<close>

definition b64_alphabet :: string where
  "b64_alphabet = ''ABCDEFGHIJKLMNOPQRSTUVWXYZabcdefghijklmnopqrstuvwxyz0123456789+/''"

definition b64_char :: "nat \<Rightarrow> char" where
  "b64_char i = b64_alphabet ! i"

definition b64_val :: "char \<Rightarrow> nat option" where
  "b64_val c =
     (let n = of_char c in
      if 65 \<le> n \<and> n \<le> 90 then Some (n - 65)
      else if 97 \<le> n \<and> n \<le> 122 then Some (n - 71)
      else if 48 \<le> n \<and> n \<le> 57 then Some (n + 4)
      else if n = 43 then Some 62 else if n = 47 then Some 63 else None)"

subsection \<open>Encoding and decoding\<close>

fun b64_digits :: "nat list \<Rightarrow> nat list" where
  "b64_digits [] = []"
| "b64_digits [a] = [a div 4, a mod 4 * 16]"
| "b64_digits [a, b] = [a div 4, a mod 4 * 16 + b div 16, b mod 16 * 4]"
| "b64_digits (a # b # c # r) =
     a div 4 # (a mod 4 * 16 + b div 16) # (b mod 16 * 4 + c div 64) # c mod 64 # b64_digits r"

fun b64_bytes :: "nat list \<Rightarrow> nat list option" where
  "b64_bytes [] = Some []"
| "b64_bytes [a] = None"
| "b64_bytes [a, b] = Some [a * 4 + b div 16]"
| "b64_bytes [a, b, c] = Some [a * 4 + b div 16, b mod 16 * 16 + c div 4]"
| "b64_bytes (a # b # c # d # r) =
     map_option (\<lambda>bs. (a * 4 + b div 16) # (b mod 16 * 16 + c div 4) # (c mod 4 * 64 + d) # bs)
       (b64_bytes r)"

fun all_some :: "'a option list \<Rightarrow> 'a list option" where
  "all_some [] = Some []"
| "all_some (None # r) = None"
| "all_some (Some x # r) = map_option ((#) x) (all_some r)"

definition EncodeUnpaddedBase64ToString :: "string \<Rightarrow> string" where
  "EncodeUnpaddedBase64ToString s = map b64_char (b64_digits (map of_char s))"

definition is_newline :: "char \<Rightarrow> bool" where
  "is_newline c \<longleftrightarrow> of_char c = (10 :: nat) \<or> of_char c = (13 :: nat)"

definition b64_decode :: "string \<Rightarrow> string option" where
  "b64_decode s =
     map_option (map char_of)
       (Option.bind (all_some (map b64_val (filter (\<lambda>c. \<not> is_newline c) s))) b64_bytes)"

definition DecodeUnpaddedBase64String :: "string \<Rightarrow> string go" where
  "DecodeUnpaddedBase64String s =
     (case b64_decode s of None \<Rightarrow> Fail (Err ''illegal base64 data'') | Some b \<Rightarrow> Ret b)"

subsection \<open>Round trip\<close>

lemma b64_alphabet_vals: "map b64_val b64_alphabet = map Some [0..<64]"
  by (simp add: b64_alphabet_def b64_val_def Let_def upt_rec)

lemma length_b64_alphabet [simp]: "length b64_alphabet = 64"
  by (simp add: b64_alphabet_def)

lemma b64_val_char [simp]: "i < 64 \<Longrightarrow> b64_val (b64_char i) = Some i"
  using arg_cong [OF b64_alphabet_vals, of "\<lambda>xs. xs ! i"] by (simp add: b64_char_def)

lemma b64_val_newline: "is_newline c \<Longrightarrow> b64_val c = None"
  by (auto simp: is_newline_def b64_val_def)

lemma not_newline_b64_char [simp]: "i < 64 \<Longrightarrow> \<not> is_newline (b64_char i)"
  using b64_val_newline by fastforce

lemma b64_digits_bound: "\<forall>a \<in> set bs. a < 256 \<Longrightarrow> d \<in> set (b64_digits bs) \<Longrightarrow> d < 64"
  by (induction bs rule: b64_digits.induct) auto

lemma b64_bytes_digits: "\<forall>a \<in> set bs. a < 256 \<Longrightarrow> b64_bytes (b64_digits bs) = Some bs"
  by (induction bs rule: b64_digits.induct) (auto simp: algebra_simps)

lemma all_some_map_Some [simp]: "all_some (map Some xs) = Some xs"
  by (induction xs) auto

lemma b64_vals_of_chars: "\<forall>d \<in> set ds. d < 64 \<Longrightarrow> all_some (map b64_val (map b64_char ds)) = Some ds"
  by (induction ds) auto

lemma of_char_less_256 [simp]: "(of_char c :: nat) < 256"
  using nat_of_char_less_256 by simp

lemma b64_digits_of_string_bound: "d \<in> set (b64_digits (map of_char s)) \<Longrightarrow> d < 64"
  using b64_digits_bound [of "map of_char s" d] by simp

lemma b64_decode_encode: "b64_decode (EncodeUnpaddedBase64ToString s) = Some s"
proof -
  let ?ds = "b64_digits (map of_char s) :: nat list"
  have bound: "\<forall>d \<in> set ?ds. d < 64" using b64_digits_of_string_bound by blast
  have "filter (\<lambda>c. \<not> is_newline c) (map b64_char ?ds) = map b64_char ?ds"
    using bound by (auto simp: filter_id_conv)
  moreover have "all_some (map b64_val (map b64_char ?ds)) = Some ?ds"
    using bound by (rule b64_vals_of_chars)
  moreover have "b64_bytes ?ds = Some (map of_char s)"
    by (rule b64_bytes_digits) auto
  ultimately show ?thesis
    by (simp add: b64_decode_def EncodeUnpaddedBase64ToString_def comp_def)
qed

interpretation b64: codec EncodeUnpaddedBase64ToString b64_decode "\<lambda>_. True"
  by unfold_locales (rule b64_decode_encode)

lemma Decode_Encode [simp]: "DecodeUnpaddedBase64String (EncodeUnpaddedBase64ToString s) = Ret s"
  by (simp add: DecodeUnpaddedBase64String_def b64.dec_enc)

lemma Decode_no_Panic [simp]: "DecodeUnpaddedBase64String s \<noteq> Panic p"
  by (simp add: DecodeUnpaddedBase64String_def split: option.split)

text \<open>The encoder's output consists of alphabet bytes, so it is plain ASCII text.\<close>

lemma b64_char_in_alphabet: "i < 64 \<Longrightarrow> b64_char i \<in> set b64_alphabet"
  unfolding b64_char_def by (rule nth_mem) simp

lemma Encode_alphabet: "set (EncodeUnpaddedBase64ToString s) \<subseteq> set b64_alphabet"
  by (auto simp: EncodeUnpaddedBase64ToString_def intro: b64_char_in_alphabet b64_digits_of_string_bound)

lemma length_b64_digits: "length (b64_digits bs) = (4 * length bs + 2) div 3"
  by (induction bs rule: b64_digits.induct) auto

lemma length_Encode: "length (EncodeUnpaddedBase64ToString s) = (4 * length s + 2) div 3"
  by (simp add: EncodeUnpaddedBase64ToString_def length_b64_digits)

subsection \<open>Property\<close>

text \<open>
  C40: unpadded base64 is exact. Decoding what \<open>EncodeUnpaddedBase64ToString\<close> wrote gives
  the bytes back, whatever they are, and the text has the length of unpadded base64, so a
  32-byte key is always 43 characters.
\<close>

theorem base64_roundtrip:
  "DecodeUnpaddedBase64String (EncodeUnpaddedBase64ToString s) = Ret s \<and>
   length (EncodeUnpaddedBase64ToString s) = (4 * length s + 2) div 3 \<and>
   set (EncodeUnpaddedBase64ToString s) \<subseteq> set b64_alphabet"
  by (intro conjI Decode_Encode length_Encode Encode_alphabet)

end
