(* ===== verification/Signing.thy ===== *)
theory Signing
  imports Json Base64
begin

text \<open>
  Package \<open>signing\<close>: canonical JSON, content hashes, redaction, signing an object and
  verifying the signatures of an object. Objects are Go maps (association lists of JSON
  values). The primitives of \<open>ed25519\<close> and \<open>sha256\<close> are the parameters of the model.
\<close>

subsection \<open>The cryptographic primitives\<close>

record crypto =
  cr_sign :: "string \<Rightarrow> string \<Rightarrow> string"
  cr_verify :: "string \<Rightarrow> string \<Rightarrow> string \<Rightarrow> bool"
  cr_sha256 :: "string \<Rightarrow> string"

text \<open>\<open>ed25519.Sign\<close> and \<open>ed25519.Verify\<close> panic on a key of the wrong length.\<close>

definition ed25519_Sign :: "crypto \<Rightarrow> string \<Rightarrow> string \<Rightarrow> string go" where
  "ed25519_Sign C key msg =
     (if length key \<noteq> 64 then Panic ''ed25519: bad private key length'' else Ret (cr_sign C key msg))"

definition ed25519_Verify :: "crypto \<Rightarrow> string \<Rightarrow> string \<Rightarrow> string \<Rightarrow> bool go" where
  "ed25519_Verify C pub msg sig =
     (if length pub \<noteq> 32 then Panic ''ed25519: bad public key length'' else Ret (cr_verify C pub msg sig))"

subsection \<open>Canonical JSON\<close>

text \<open>The six bytes that \<open>json.Marshal\<close> writes for an HTML character, e.g. backslash u003c.\<close>

definition html_escape :: "string \<Rightarrow> string" where
  "html_escape h = backslash # ''u00'' @ h"

definition EncodeCanonicalJson :: "json gomap \<Rightarrow> string" where
  "EncodeCanonicalJson obj =
     (let b = json_marshal (JObj obj);
          b = replace_all (html_escape ''3c'') ''<'' b;
          b = replace_all (html_escape ''3e'') ''>'' b;
          b = replace_all (html_escape ''26'') ''&'' b
      in b)"

subsection \<open>Verifying\<close>

text \<open>A type assertion to \<open>map[string]interface{}\<close>; a missing key gives the nil map.\<close>

definition assert_map :: "json option \<Rightarrow> json gomap go" where
  "assert_map v = (case v of None \<Rightarrow> Ret [] | Some (JObj m) \<Rightarrow> Ret m
     | Some _ \<Rightarrow> Panic ''interface conversion: not a map'')"

definition assert_string :: "json \<Rightarrow> string go" where
  "assert_string v = (case v of JStr s \<Rightarrow> Ret s | _ \<Rightarrow> Panic ''interface conversion: not a string'')"

fun verify_key_sigs :: "crypto \<Rightarrow> string \<Rightarrow> string \<Rightarrow> string gomap \<Rightarrow> json gomap \<Rightarrow> unit go" where
  "verify_key_sigs C canonical domain domainKeys [] = Ret ()"
| "verify_key_sigs C canonical domain domainKeys ((keyId, b64) # rest) =
     (case map_of domainKeys keyId of
        None \<Rightarrow> Fail (Err (''missing public key for '' @ domain @ '' '' @ keyId))
      | Some publicKey \<Rightarrow>
          go_bind (assert_string b64) (\<lambda>s.
          go_bind (DecodeUnpaddedBase64String s) (\<lambda>signature.
          go_bind (ed25519_Verify C publicKey canonical signature) (\<lambda>valid.
            if valid then verify_key_sigs C canonical domain domainKeys rest
            else Fail (Err (''signature verification failed for '' @ domain @ '' '' @ keyId))))))"

fun verify_domains :: "crypto \<Rightarrow> string \<Rightarrow> (string gomap) gomap \<Rightarrow> json gomap \<Rightarrow> unit go" where
  "verify_domains C canonical publicKeys [] = Ret ()"
| "verify_domains C canonical publicKeys ((domain, sig) # rest) =
     (case map_of publicKeys domain of
        None \<Rightarrow> Fail (Err (''missing public keys for '' @ domain))
      | Some domainKeys \<Rightarrow>
          go_bind (assert_map (Some sig)) (\<lambda>keySigs.
          go_bind (verify_key_sigs C canonical domain domainKeys keySigs) (\<lambda>_.
            verify_domains C canonical publicKeys rest)))"

definition VerifySignatures :: "crypto \<Rightarrow> json \<Rightarrow> (string gomap) gomap \<Rightarrow> unit go" where
  "VerifySignatures C obj publicKeys =
     go_bind (InterfaceToMap obj) (\<lambda>m0.
       let m = AList.delete ''unsigned'' m0 in
       go_bind (assert_map (map_of m ''signatures'')) (\<lambda>signatures.
         let m = AList.delete ''signatures'' m in
         if length signatures = 0 then Fail (Err ''no signatures found'')
         else verify_domains C (EncodeCanonicalJson m) publicKeys signatures))"

subsection \<open>Signing\<close>

text \<open>
  \<open>SignObject\<close> also takes \<open>unsigned\<close> and \<open>signatures\<close> out of the caller's map: the
  second component is the caller's map after the call.
\<close>

definition SignObject ::
  "crypto \<Rightarrow> json gomap \<Rightarrow> string \<Rightarrow> string \<Rightarrow> string \<Rightarrow> (json gomap \<times> json gomap) go" where
  "SignObject C obj domain keyId key =
     go_bind (assert_map (map_of obj ''unsigned'')) (\<lambda>u.
       let unsigned = (if map_of obj ''unsigned'' = None then None else Some u);
           obj = AList.delete ''unsigned'' obj in
       go_bind (assert_map (map_of obj ''signatures'')) (\<lambda>s.
         let signatures = (if map_of obj ''signatures'' = None then None else Some s);
             obj = AList.delete ''signatures'' obj in
         go_bind (ed25519_Sign C key (EncodeCanonicalJson obj)) (\<lambda>signature.
         go_bind (InterfaceToMap (JObj obj)) (\<lambda>m.
           let m = (case signatures of None \<Rightarrow> m | Some s \<Rightarrow> AList.update ''signatures'' (JObj s) m) in
           go_bind (assert_map (map_of m ''signatures'')) (\<lambda>signaturesObj.
           go_bind (assert_map (map_of signaturesObj domain)) (\<lambda>domainObj.
             let domainObj = AList.update keyId (JStr (EncodeUnpaddedBase64ToString signature)) domainObj;
                 signaturesObj = AList.update domain (JObj domainObj) signaturesObj;
                 m = AList.update ''signatures'' (JObj signaturesObj) m;
                 m = (case unsigned of None \<Rightarrow> m | Some u \<Rightarrow> AList.update ''unsigned'' (JObj u) m)
             in Ret (m, obj)))))))"

definition GetSignatureOfObject :: "crypto \<Rightarrow> json \<Rightarrow> string \<Rightarrow> string go" where
  "GetSignatureOfObject C obj key =
     go_bind (InterfaceToMap obj) (\<lambda>m.
       case SignObject C m ''a'' ''a'' key of
         Panic p \<Rightarrow> Panic p
       | Fail e \<Rightarrow> Ret []
       | Ret (s, _) \<Rightarrow>
           go_bind (assert_map (map_of s ''signatures'')) (\<lambda>sigs.
           go_bind (assert_map (map_of sigs ''a'')) (\<lambda>domains.
             (case map_of domains ''a'' of
                None \<Rightarrow> Panic ''interface conversion: interface is nil''
              | Some v \<Rightarrow> assert_string v))))"

subsection \<open>Hashing and redaction\<close>

definition CalculateSha256ContentHash :: "crypto \<Rightarrow> json \<Rightarrow> string go" where
  "CalculateSha256ContentHash C ev =
     go_bind (InterfaceToMap ev) (\<lambda>m.
       let m = AList.delete ''hashes'' (AList.delete ''signatures'' (AList.delete ''unsigned'' m))
       in Ret (EncodeUnpaddedBase64ToString (cr_sha256 C (EncodeCanonicalJson m))))"

definition keepKeys_v1 :: "(string \<times> bool) list" where
  "keepKeys_v1 = map (\<lambda>k. (k, True))
     [''event_id'', ''type'', ''room_id'', ''sender'', ''state_key'', ''content'', ''hashes'',
      ''signatures'', ''depth'', ''prev_events'', ''prev_state'', ''auth_events'', ''origin'',
      ''origin_server_ts'', ''membership'']"

definition keepContent_v1 :: "(string \<times> string list) list" where
  "keepContent_v1 =
     [(''m.room.member'', [''membership'']),
      (''m.room.create'', [''creator'']),
      (''m.room.join_rules'', [''join_rule'']),
      (''m.room.power_levels'', [''ban'', ''events'', ''events_default'', ''kick'', ''redact'',
         ''state_default'', ''users'', ''users_default'']),
      (''m.room.aliases'', [''aliases'']),
      (''m.room.history_visibility'', [''history_visibility''])]"

fun keep_members :: "json gomap \<Rightarrow> string list \<Rightarrow> json gomap \<Rightarrow> json gomap" where
  "keep_members eventContent [] newContent = newContent"
| "keep_members eventContent (k # ks) newContent =
     keep_members eventContent ks
       (case map_of eventContent k of None \<Rightarrow> newContent | Some v \<Rightarrow> AList.update k v newContent)"

definition pruneObject ::
  "json gomap \<Rightarrow> (string \<times> bool) list \<Rightarrow> (string \<times> string list) list \<Rightarrow> json gomap go" where
  "pruneObject obj keepKeys keepContentKeysIfType =
     (let m = filter (\<lambda>(k, v). map_of keepKeys k = Some True) obj in
      case map_of m ''type'' of
        Some t \<Rightarrow>
          go_bind (assert_string t) (\<lambda>eventType.
            (case map_of m ''content'' of
               None \<Rightarrow> Ret m
             | Some c \<Rightarrow>
                 go_bind (assert_map (Some c)) (\<lambda>eventContent.
                   let newContent = (case map_of keepContentKeysIfType eventType of
                          None \<Rightarrow> [] | Some keysToKeep \<Rightarrow> keep_members eventContent keysToKeep [])
                   in Ret (AList.update ''content'' (JObj newContent) m))))
      | None \<Rightarrow>
          (case map_of m ''content'' of
             None \<Rightarrow> Ret m
           | Some _ \<Rightarrow> Ret (AList.update ''content'' (JObj []) m)))"

definition redactObjectV1 :: "json \<Rightarrow> (json gomap \<times> json gomap option) go" where
  "redactObjectV1 obj =
     go_bind (InterfaceToMap obj) (\<lambda>m.
     go_bind (assert_map (map_of m ''unsigned'')) (\<lambda>u.
       let unsigned = (if map_of m ''unsigned'' = None then None else Some u) in
       go_bind (pruneObject m keepKeys_v1 keepContent_v1) (\<lambda>p. Ret (p, unsigned))))"

definition RedactObject :: "json \<Rightarrow> string \<Rightarrow> (json gomap \<times> json gomap option) go" where
  "RedactObject obj algorithm =
     (if algorithm = ''v1'' then redactObjectV1 obj
      else Fail (Err ''unknown redaction algorithm''))"

definition SignEvent :: "crypto \<Rightarrow> json \<Rightarrow> string \<Rightarrow> string \<Rightarrow> string \<Rightarrow> json gomap go" where
  "SignEvent C obj domain keyId key =
     go_bind (RedactObject obj ''v1'') (\<lambda>(redacted, unsigned).
     go_bind (CalculateSha256ContentHash C obj) (\<lambda>contentHash.
       let redacted = AList.update ''hashes'' (JObj [(''sha256'', JStr contentHash)]) redacted;
           redacted = (case unsigned of None \<Rightarrow> redacted | Some u \<Rightarrow> AList.update ''unsigned'' (JObj u) redacted)
       in go_bind (SignObject C redacted domain keyId key) (\<lambda>(m, _). Ret m)))"

subsection \<open>The canonical encoding determines the object\<close>

abbreviation html_chars :: "char set" where
  "html_chars \<equiv> {CHR ''<'', CHR ''>'', CHR ''&''}"

lemma show_nat_digits: "c \<in> set (show_nat n) \<Longrightarrow> digit_val c \<noteq> None"
proof (induction n rule: show_nat.induct)
  case (1 n)
  then show ?case by (cases "n < 10") (auto simp: show_nat.simps [of n])
qed

lemma digit_not_html: "digit_val c \<noteq> None \<Longrightarrow> c \<notin> html_chars"
  by (auto simp: digit_val_def split: if_splits)

lemma show_int_no_html: "html_chars \<inter> set (show_int i) = {}"
proof -
  have "html_chars \<inter> set (show_nat n) = {}" for n
    using digit_not_html show_nat_digits by blast
  then show ?thesis by (auto simp: show_int_def)
qed

lemma json_quote_no_html: "html_chars \<inter> set (json_quote s) = {}"
  using json_chars_no_html [of s] by (auto simp: json_quote_def)

lemma set_comma_sep: "set (comma_sep xs) \<subseteq> insert (CHR '','') (\<Union> (set ` set xs))"
  by (induction xs rule: comma_sep.induct) auto

lemma json_text_no_html: "html_chars \<inter> set (json_text v) = {}"
proof (induction v rule: json_induct)
  case (Num i)
  show ?case using show_int_no_html [of i] by simp
next
  case (Str s)
  show ?case using json_quote_no_html [of s] by simp
next
  case (Arr vs)
  then show ?case using set_comma_sep [of "map json_text vs"] by fastforce
next
  case (Obj kvs)
  have "html_chars \<inter> set (json_quote k @ CHR '':'' # json_text v) = {}" if "(k, v) \<in> set kvs" for k v
    using Obj [OF that] json_quote_no_html [of k] by auto
  then show ?case
    using set_comma_sep [of "map (\<lambda>(k, v). json_quote k @ CHR '':'' # json_text v) kvs"] by fastforce
qed auto

definition undo_html :: "string \<Rightarrow> string" where
  "undo_html s = replace_all ''<'' (html_escape ''3c'')
     (replace_all ''>'' (html_escape ''3e'') (replace_all ''&'' (html_escape ''26'') s))"

lemma undo_html_canonical: "undo_html (EncodeCanonicalJson m) = json_marshal (JObj m)"
proof -
  let ?b = "json_marshal (JObj m)"
  let ?b1 = "replace_all (html_escape ''3c'') ''<'' ?b"
  let ?b2 = "replace_all (html_escape ''3e'') ''>'' ?b1"
  have b: "html_chars \<inter> set ?b = {}" unfolding json_marshal_def by (rule json_text_no_html)
  have esc: "html_escape h \<noteq> []" for h by (simp add: html_escape_def)
  have b1: "CHR ''>'' \<notin> set ?b1" "CHR ''&'' \<notin> set ?b1"
    using replace_all_set [of "html_escape ''3c''" "''<''" ?b] b by auto
  have b2: "CHR ''&'' \<notin> set ?b2"
    using replace_all_set [of "html_escape ''3e''" "''>''" ?b1] b1 by auto
  show ?thesis
    using replace_all_undo [OF _ esc, of "CHR ''<''" ?b "''3c''"] b
      replace_all_undo [OF b1(1) esc, of "''3e''"] replace_all_undo [OF b2 esc, of "''26''"]
    by (simp add: undo_html_def EncodeCanonicalJson_def Let_def)
qed

definition DecodeCanonicalJson :: "string \<Rightarrow> json gomap option" where
  "DecodeCanonicalJson s =
     (case json_parse (undo_html s) of Some (JObj m) \<Rightarrow> Some m | _ \<Rightarrow> None)"

lemma DecodeCanonicalJson_Encode:
  "go_json (JObj m) \<Longrightarrow> DecodeCanonicalJson (EncodeCanonicalJson m) = Some (sorted_members m)"
proof -
  assume "go_json (JObj m)"
  then have "json_parse (json_text (sort_keys (JObj m))) = Some (sort_keys (JObj m))"
    by (intro json_parse_text) (simp_all only: go_json_def json_ok_sort_keys json_depth_sort_keys)
  then show ?thesis by (simp add: DecodeCanonicalJson_def undo_html_canonical json_marshal_def)
qed

lemma canonical_cong: "sorted_members m = sorted_members m' \<Longrightarrow> EncodeCanonicalJson m = EncodeCanonicalJson m'"
  by (simp add: EncodeCanonicalJson_def json_marshal_def)

lemma canonical_sorted [simp]: "EncodeCanonicalJson (sorted_members m) = EncodeCanonicalJson m"
  by (rule canonical_cong) simp

interpretation canonical: codec EncodeCanonicalJson DecodeCanonicalJson
  "\<lambda>m. go_json (JObj m) \<and> sorted_members m = m"
  by unfold_locales (simp add: DecodeCanonicalJson_Encode)

lemma canonical_inject:
  "go_json (JObj m) \<Longrightarrow> go_json (JObj m') \<Longrightarrow>
   EncodeCanonicalJson m = EncodeCanonicalJson m' \<longleftrightarrow> sorted_members m = sorted_members m'"
  using canonical.enc_inject [of "sorted_members m" "sorted_members m'"] by simp

subsection \<open>What a verified object is\<close>

text \<open>The bytes that the signatures of an object cover.\<close>

definition signed_part :: "json gomap \<Rightarrow> json gomap" where
  "signed_part m = AList.delete ''signatures'' (AList.delete ''unsigned'' m)"

definition key_sig_ok :: "crypto \<Rightarrow> string \<Rightarrow> string gomap \<Rightarrow> string \<Rightarrow> json \<Rightarrow> bool" where
  "key_sig_ok C canonical domainKeys keyId b64 \<longleftrightarrow>
     (\<exists>pub s sig. map_of domainKeys keyId = Some pub \<and> b64 = JStr s \<and>
        b64_decode s = Some sig \<and> length pub = 32 \<and> cr_verify C pub canonical sig)"

definition domain_sigs_ok :: "crypto \<Rightarrow> string \<Rightarrow> (string gomap) gomap \<Rightarrow> string \<Rightarrow> json \<Rightarrow> bool" where
  "domain_sigs_ok C canonical publicKeys domain sig \<longleftrightarrow>
     (\<exists>dk ks. map_of publicKeys domain = Some dk \<and> sig = JObj ks \<and>
        (\<forall>(keyId, b64) \<in> set ks. key_sig_ok C canonical dk keyId b64))"

lemma assert_map_eq_Ret [simp]: "assert_map (Some v) = Ret m \<longleftrightarrow> v = JObj m"
  by (cases v) (auto simp: assert_map_def)

lemma assert_map_None [simp]: "assert_map None = Ret []"
  by (simp add: assert_map_def)

lemma assert_map_JObj [simp]: "assert_map (Some (JObj m)) = Ret m"
  by (simp add: assert_map_def)

lemma assert_string_eq_Ret [simp]: "assert_string v = Ret s \<longleftrightarrow> v = JStr s"
  by (cases v) (auto simp: assert_string_def)

lemma Decode_eq_Ret [simp]: "DecodeUnpaddedBase64String s = Ret b \<longleftrightarrow> b64_decode s = Some b"
  by (simp add: DecodeUnpaddedBase64String_def split: option.split)

lemma ed25519_Verify_eq_Ret [simp]: "ed25519_Verify C k m s = Ret b \<longleftrightarrow> length k = 32 \<and> cr_verify C k m s = b"
  by (simp add: ed25519_Verify_def)

lemma verify_key_sigs_Ret:
  "verify_key_sigs C c d dk ks = Ret () \<longleftrightarrow> (\<forall>(keyId, b64) \<in> set ks. key_sig_ok C c dk keyId b64)"
  by (induction ks rule: verify_key_sigs.induct [where ?a0.0 = C and ?a1.0 = c and ?a2.0 = d and ?a3.0 = dk])
    (auto simp: key_sig_ok_def go_bind_eq_Ret_iff split: option.splits if_splits)

lemma verify_domains_Ret:
  "verify_domains C c keys sigs = Ret () \<longleftrightarrow> (\<forall>(d, sig) \<in> set sigs. domain_sigs_ok C c keys d sig)"
  by (induction sigs rule: verify_domains.induct [where ?a0.0 = C and ?a1.0 = c and ?a2.0 = keys])
    (auto simp: domain_sigs_ok_def go_bind_eq_Ret_iff verify_key_sigs_Ret split: option.splits)

lemma key_sig_ok_sort [simp]: "key_sig_ok C c dk k (sort_keys v) = key_sig_ok C c dk k v"
  by (cases v) (auto simp: key_sig_ok_def)

lemma domain_sigs_ok_sort [simp]: "domain_sigs_ok C c keys d (sort_keys v) = domain_sigs_ok C c keys d v"
proof (cases v)
  case (JObj m)
  then show ?thesis by (fastforce simp: domain_sigs_ok_def)
qed (auto simp: domain_sigs_ok_def)

lemma wf_gomap_go_json [simp]: "go_json (JObj m) \<Longrightarrow> wf_gomap m"
  by (simp add: go_json_def)

lemma signed_part_sorted:
  assumes "wf_gomap m"
  shows "sorted_members (signed_part (sorted_members m)) = sorted_members (signed_part m)"
proof -
  have "map_of (sorted_members (signed_part (sorted_members m))) k = map_of (sorted_members (signed_part m)) k" for k
    using assms by (simp add: map_of_sorted_members signed_part_def option.map_comp comp_def)
  then have "sorted_members (sorted_members (signed_part (sorted_members m))) =
      sorted_members (sorted_members (signed_part m))"
    using assms by (intro sorted_members_cong) (auto simp: signed_part_def)
  then show ?thesis by simp
qed

lemma canonical_signed_part [simp]:
  "wf_gomap m \<Longrightarrow> EncodeCanonicalJson (signed_part (sorted_members m)) = EncodeCanonicalJson (signed_part m)"
  by (rule canonical_cong) (rule signed_part_sorted)

lemma VerifySignatures_Ret:
  assumes m: "go_json (JObj m)"
  shows "VerifySignatures C (JObj m) keys = Ret () \<longleftrightarrow>
    (\<exists>sigs. map_of m ''signatures'' = Some (JObj sigs) \<and> sigs \<noteq> [] \<and>
       (\<forall>(d, sig) \<in> set sigs. domain_sigs_ok C (EncodeCanonicalJson (signed_part m)) keys d sig))"
proof -
  have lookup: "map_of (AList.delete ''unsigned'' (sorted_members m)) ''signatures''
      = map_option sort_keys (map_of m ''signatures'')"
    using m by (simp add: map_of_sorted_members)
  have part: "EncodeCanonicalJson (AList.delete ''signatures'' (AList.delete ''unsigned'' (sorted_members m)))
      = EncodeCanonicalJson (signed_part m)"
    using m canonical_signed_part [of m] by (simp add: signed_part_def)
  show ?thesis
  proof (cases "map_of m ''signatures''")
    case None
    with lookup show ?thesis using m
      by (simp add: VerifySignatures_def InterfaceToMap_go_json Let_def)
  next
    case (Some v)
    show ?thesis
    proof (cases "\<exists>sigs. v = JObj sigs")
      case True
      then obtain sigs where sigs: "v = JObj sigs" by blast
      have "sorted_members sigs = [] \<longleftrightarrow> sigs = []" using set_sorted_members [of sigs] by (metis image_is_empty set_empty)
      moreover have "(\<forall>(d, sig) \<in> set (sorted_members sigs). domain_sigs_ok C c keys d sig)
          \<longleftrightarrow> (\<forall>(d, sig) \<in> set sigs. domain_sigs_ok C c keys d sig)" for c
        by fastforce
      ultimately show ?thesis using m Some sigs lookup part
        by (simp add: VerifySignatures_def InterfaceToMap_go_json Let_def verify_domains_Ret)
    next
      case False
      then have "assert_map (Some (sort_keys v)) \<noteq> Ret x" for x by (cases v) auto
      with False Some lookup m show ?thesis
        by (simp add: VerifySignatures_def InterfaceToMap_go_json Let_def go_bind_eq_Ret_iff)
    qed
  qed
qed
subsection \<open>Signing and verifying agree\<close>

definition go_json_upto :: "nat \<Rightarrow> json \<Rightarrow> bool" where
  "go_json_upto n v \<longleftrightarrow> json_ok v \<and> go_maps v \<and> json_depth v \<le> n"

lemma go_json_upto: "go_json v = go_json_upto 10000 v"
  by (simp add: go_json_def go_json_upto_def)

lemma go_json_upto_JObj:
  "go_json_upto n (JObj m) \<longleftrightarrow>
     0 < n \<and> wf_gomap m \<and> (\<forall>(k, v) \<in> set m. utf8_ok k \<and> go_json_upto (n - 1) v)"
proof -
  have "json_depth (JObj m) \<le> n \<longleftrightarrow> 0 < n \<and> (\<forall>(k, v) \<in> set m. json_depth v \<le> n - 1)"
    by (cases n) (auto simp: fold_max_le)
  then show ?thesis by (auto simp: go_json_upto_def list_all_iff)
qed

lemma go_json_upto_JStr [simp]: "go_json_upto n (JStr s) = utf8_ok s"
  by (simp add: go_json_upto_def)

lemma go_json_upto_update:
  "go_json_upto n (JObj m) \<Longrightarrow> utf8_ok k \<Longrightarrow> go_json_upto (n - 1) v \<Longrightarrow>
   go_json_upto n (JObj (AList.update k v m))"
  using set_AList_update [of k v m] by (fastforce simp: go_json_upto_JObj)

lemma go_json_upto_delete: "go_json_upto n (JObj m) \<Longrightarrow> go_json_upto n (JObj (AList.delete k m))"
proof -
  assume m: "go_json_upto n (JObj m)"
  have "set (AList.delete k m) \<subseteq> set m" by (induction m) auto
  with m show ?thesis by (fastforce simp: go_json_upto_JObj)
qed

lemma go_json_upto_lookup:
  "go_json_upto n (JObj m) \<Longrightarrow> map_of m k = Some v \<Longrightarrow> go_json_upto (n - 1) v"
  by (fastforce simp: go_json_upto_JObj dest: map_of_SomeD)

lemma go_json_upto_Nil: "go_json_upto n (JObj []) = (0 < n)"
  by (simp add: go_json_upto_JObj)

lemma go_json_delete [simp]: "go_json (JObj m) \<Longrightarrow> go_json (JObj (AList.delete k m))"
  by (simp add: go_json_upto go_json_upto_delete)

lemma utf8_ok_ascii: "(\<forall>c \<in> set s. ord c < 128) \<Longrightarrow> utf8_ok s"
  by (induction s) auto

lemma utf8_ok_base64 [simp]: "utf8_ok (EncodeUnpaddedBase64ToString s)"
proof -
  have "\<forall>c \<in> set b64_alphabet. ord c < 128" by (simp add: b64_alphabet_def)
  then show ?thesis using Encode_alphabet [of s] by (intro utf8_ok_ascii) blast
qed

text \<open>What a key pair of the signature scheme promises.\<close>

definition key_pair :: "crypto \<Rightarrow> string \<Rightarrow> string \<Rightarrow> bool" where
  "key_pair C key pub \<longleftrightarrow> length key = 64 \<and> length pub = 32 \<and>
     (\<forall>msg. cr_verify C pub msg (cr_sign C key msg))"

definition sigs_of :: "json gomap \<Rightarrow> json gomap" where
  "sigs_of m = (case map_of m ''signatures'' of Some (JObj s) \<Rightarrow> s | _ \<Rightarrow> [])"

definition sigs_for :: "json gomap \<Rightarrow> string \<Rightarrow> json gomap" where
  "sigs_for sigs d = (case map_of sigs d of Some (JObj s) \<Rightarrow> s | _ \<Rightarrow> [])"

lemma assert_map_Ret_iff: "assert_map x = Ret m \<longleftrightarrow> x = Some (JObj m) \<or> x = None \<and> m = []"
  by (cases x) (auto simp: assert_map_def split: json.splits)

text \<open>The members of a signed object: the input, but for the one new signature.\<close>

definition signed_with :: "json gomap \<Rightarrow> string \<Rightarrow> string \<Rightarrow> json \<Rightarrow> json gomap" where
  "signed_with sigs d k sig = AList.update d (JObj (AList.update k sig (sigs_for sigs d))) sigs"

lemma map_of_signed_part [simp]:
  "map_of (signed_part m) x = (if x = ''signatures'' \<or> x = ''unsigned'' then None else map_of m x)"
  by (simp add: signed_part_def)

lemma sigs_of_assert: "assert_map (map_of obj ''signatures'') = Ret s \<Longrightarrow> s = sigs_of obj"
  by (auto simp: assert_map_Ret_iff sigs_of_def)

lemma sigs_for_assert: "assert_map (map_of sigs d) = Ret s \<Longrightarrow> s = sigs_for sigs d"
  by (auto simp: assert_map_Ret_iff sigs_for_def)

lemma go_json_signed_part [simp]: "go_json (JObj m) \<Longrightarrow> go_json (JObj (signed_part m))"
  by (simp add: signed_part_def)

lemma SignObject_RetD:
  assumes obj: "go_json (JObj obj)"
    and ret: "SignObject C obj d k key = Ret (m, obj')"
  defines "sig \<equiv> JStr (EncodeUnpaddedBase64ToString (cr_sign C key (EncodeCanonicalJson (signed_part obj))))"
  shows "length key = 64 \<and> obj' = signed_part obj \<and> (\<exists>base.
    m = (case map_of obj ''unsigned'' of None \<Rightarrow> AList.update ''signatures'' (JObj (signed_with (sigs_of obj) d k sig)) base
         | Some u \<Rightarrow> AList.update ''unsigned'' u (AList.update ''signatures'' (JObj (signed_with (sigs_of obj) d k sig)) base)) \<and>
    base = (case map_of obj ''signatures'' of None \<Rightarrow> sorted_members (signed_part obj)
            | Some s \<Rightarrow> AList.update ''signatures'' s (sorted_members (signed_part obj))))"
proof -
  have part: "AList.delete ''signatures'' (AList.delete ''unsigned'' obj) = signed_part obj"
    by (simp add: signed_part_def)
  have nosig: "map_of (sorted_members (signed_part obj)) ''signatures'' = None"
    using obj by (simp add: map_of_sorted_members)
  obtain u where u: "assert_map (map_of obj ''unsigned'') = Ret u"
    using ret unfolding SignObject_def go_bind_eq_Ret_iff by blast
  obtain s where s: "assert_map (map_of obj ''signatures'') = Ret s"
    using ret u by (auto simp: SignObject_def Let_def go_bind_eq_Ret_iff)
  define base where "base = (case map_of obj ''signatures'' of None \<Rightarrow> sorted_members (signed_part obj)
            | Some s \<Rightarrow> AList.update ''signatures'' s (sorted_members (signed_part obj)))"
  have base: "(case if map_of obj ''signatures'' = None then None else Some s of None \<Rightarrow> sorted_members (signed_part obj)
      | Some s \<Rightarrow> AList.update ''signatures'' (JObj s) (sorted_members (signed_part obj))) = base"
    using s by (auto simp: base_def assert_map_Ret_iff)
  have bs: "assert_map (map_of base ''signatures'') = Ret (sigs_of obj)"
    using s nosig by (auto simp: base_def assert_map_Ret_iff sigs_of_def)
  have key: "length key = 64"
    using ret u s by (auto simp: SignObject_def Let_def go_bind_eq_Ret_iff ed25519_Sign_def split: if_splits)
  have ret': "go_bind (assert_map (map_of (sigs_of obj) d)) (\<lambda>domainObj.
      let domainObj = AList.update k sig domainObj;
          signaturesObj = AList.update d (JObj domainObj) (sigs_of obj);
          m = AList.update ''signatures'' (JObj signaturesObj) base;
          m = (case if map_of obj ''unsigned'' = None then None else Some u of None \<Rightarrow> m
               | Some u \<Rightarrow> AList.update ''unsigned'' (JObj u) m)
      in Ret (m, signed_part obj)) = Ret (m, obj')"
    using ret u s key obj bs unfolding SignObject_def
    by (cases "map_of obj ''unsigned''"; cases "map_of obj ''signatures''")
      (simp_all add: Let_def part ed25519_Sign_def InterfaceToMap_go_json base_def sig_def)
  then obtain dom where "assert_map (map_of (sigs_of obj) d) = Ret dom"
    unfolding go_bind_eq_Ret_iff by blast
  with ret' sigs_for_assert [OF this] u have "obj' = signed_part obj \<and>
    m = (case map_of obj ''unsigned'' of None \<Rightarrow> AList.update ''signatures'' (JObj (signed_with (sigs_of obj) d k sig)) base
         | Some u \<Rightarrow> AList.update ''unsigned'' u (AList.update ''signatures'' (JObj (signed_with (sigs_of obj) d k sig)) base))"
    by (auto simp: Let_def signed_with_def assert_map_Ret_iff)
  with key base_def show ?thesis by blast
qed

lemma SignObject_Ret:
  assumes obj: "go_json (JObj obj)"
    and ret: "SignObject C obj d k key = Ret (m, obj')"
  defines "sig \<equiv> JStr (EncodeUnpaddedBase64ToString (cr_sign C key (EncodeCanonicalJson (signed_part obj))))"
  shows "length key = 64" "obj' = signed_part obj" "wf_gomap m"
    "map_of m ''signatures'' = Some (JObj (signed_with (sigs_of obj) d k sig))"
    "map_of m ''unsigned'' = map_of obj ''unsigned''"
    "x \<noteq> ''signatures'' \<Longrightarrow> x \<noteq> ''unsigned'' \<Longrightarrow> map_of m x = map_option sort_keys (map_of obj x)"
  using SignObject_RetD [OF obj ret] obj wf_gomap_go_json [OF go_json_signed_part [OF obj]]
  by (auto simp: sig_def map_of_sorted_members split: option.splits)

text \<open>Signing changes nothing that signatures cover.\<close>

lemma SignObject_signed_part:
  assumes "go_json (JObj obj)" "SignObject C obj d k key = Ret (m, obj')"
  shows "EncodeCanonicalJson (signed_part m) = EncodeCanonicalJson (signed_part obj)"
proof -
  note r = SignObject_Ret [OF assms]
  note wf = wf_gomap_go_json [OF go_json_signed_part [OF assms(1)]]
  have "map_of (signed_part m) x = map_of (sorted_members (signed_part obj)) x" for x
    using r(6) wf by (simp add: map_of_sorted_members)
  then have "sorted_members (signed_part m) = sorted_members (sorted_members (signed_part obj))"
    using r(3) wf by (intro sorted_members_cong) (auto simp: signed_part_def)
  then show ?thesis using canonical_cong [of "signed_part m" "sorted_members (signed_part obj)"] by simp
qed

lemma go_json_sigs_of: "go_json_upto n (JObj m) \<Longrightarrow> 1 < n \<Longrightarrow> go_json_upto (n - 1) (JObj (sigs_of m))"
  by (auto simp: sigs_of_def go_json_upto_Nil split: option.splits json.splits dest: go_json_upto_lookup)

lemma go_json_sigs_for: "go_json_upto n (JObj m) \<Longrightarrow> 1 < n \<Longrightarrow> go_json_upto (n - 1) (JObj (sigs_for m d))"
  by (auto simp: sigs_for_def go_json_upto_Nil split: option.splits json.splits dest: go_json_upto_lookup)

lemma go_json_upto_sorted_members [simp]: "go_json_upto n (JObj (sorted_members m)) = go_json_upto n (JObj m)"
  unfolding go_json_upto_def by (simp only: sort_keys_JObj [symmetric] json_ok_sort_keys go_maps_sort_keys json_depth_sort_keys)

lemma SignObject_go_json:
  assumes "go_json (JObj obj)" "SignObject C obj d k key = Ret (m, obj')" "utf8_ok d" "utf8_ok k"
  shows "go_json (JObj m)"
proof -
  let ?S = "signed_with (sigs_of obj) d k (JStr (EncodeUnpaddedBase64ToString (cr_sign C key (EncodeCanonicalJson (signed_part obj)))))"
  have o: "go_json_upto 10000 (JObj obj)" using assms(1) by (simp add: go_json_upto)
  have p: "go_json_upto 10000 (JObj (sorted_members (signed_part obj)))"
    using go_json_signed_part [OF assms(1)] by (simp add: go_json_upto)
  have s: "go_json_upto 9999 (JObj (sigs_of obj))" using go_json_sigs_of [OF o] by simp
  have "go_json_upto 9998 (JObj (sigs_for (sigs_of obj) d))" using go_json_sigs_for [OF s] by simp
  then have "go_json_upto 9999 (JObj ?S)"
    unfolding signed_with_def using s assms(3,4) by (intro go_json_upto_update) auto
  moreover have "utf8_ok ''signatures''" "utf8_ok ''unsigned''" by (simp_all add: utf8_ok_ascii)
  ultimately show ?thesis
    using SignObject_RetD [OF assms(1,2)] p go_json_upto_lookup [OF o]
    unfolding go_json_upto by (auto split: option.splits intro!: go_json_upto_update)
qed

definition object_or_absent :: "json option \<Rightarrow> bool" where
  "object_or_absent v \<longleftrightarrow> (case v of None \<Rightarrow> True | Some (JObj _) \<Rightarrow> True | Some _ \<Rightarrow> False)"

text \<open>Objects that \<open>SignObject\<close> accepts: its three type assertions succeed.\<close>

definition signable :: "json gomap \<Rightarrow> string \<Rightarrow> bool" where
  "signable obj d \<longleftrightarrow> go_json (JObj obj) \<and> object_or_absent (map_of obj ''unsigned'') \<and>
     object_or_absent (map_of obj ''signatures'') \<and> object_or_absent (map_of (sigs_of obj) d)"

lemma object_or_absent_iff: "object_or_absent v \<longleftrightarrow> (\<exists>m. assert_map v = Ret m)"
  by (auto simp: object_or_absent_def assert_map_def split: option.splits json.splits)

lemma SignObject_total:
  assumes "signable obj d" "length key = 64"
  shows "\<exists>m. SignObject C obj d k key = Ret (m, signed_part obj)"
proof -
  have obj: "go_json (JObj obj)" using assms by (simp add: signable_def)
  have part: "AList.delete ''signatures'' (AList.delete ''unsigned'' obj) = signed_part obj"
    by (simp add: signed_part_def)
  have nosig: "map_of (sorted_members (signed_part obj)) ''signatures'' = None"
    using obj by (simp add: map_of_sorted_members)
  obtain u s dom where a: "assert_map (map_of obj ''unsigned'') = Ret u"
      "assert_map (map_of obj ''signatures'') = Ret s" "assert_map (map_of (sigs_of obj) d) = Ret dom"
    using assms by (auto simp: signable_def object_or_absent_iff)
  have "\<exists>m ob. SignObject C obj d k key = Ret (m, ob)"
  proof (cases "map_of obj ''signatures''")
    case None
    then show ?thesis using a assms(2) obj nosig
      by (simp add: SignObject_def Let_def part ed25519_Sign_def InterfaceToMap_go_json sigs_of_def)
  next
    case (Some v)
    then have "v = JObj s" using a(2) by simp
    then show ?thesis using Some a(1,3) assms(2) obj nosig
      by (simp add: SignObject_def Let_def part ed25519_Sign_def InterfaceToMap_go_json sigs_of_def)
  qed
  then show ?thesis using SignObject_Ret(2) [OF obj] by blast
qed

lemma domain_sigs_ok_for:
  "domain_sigs_ok C c keys d sig \<Longrightarrow> sig = JObj ks \<Longrightarrow> map_of keys d = Some dk \<Longrightarrow>
   (k, b) \<in> set ks \<Longrightarrow> key_sig_ok C c dk k b"
  by (auto simp: domain_sigs_ok_def)

lemma sigs_for_in: "(k, b) \<in> set (sigs_for sigs d) \<Longrightarrow> \<exists>ks. (d, JObj ks) \<in> set sigs \<and> (k, b) \<in> set ks"
  by (cases "map_of sigs d") (auto simp: sigs_for_def split: json.splits dest: map_of_SomeD)

text \<open>
  A new signature by a registered key pair verifies, and the signatures that verified
  before still do.
\<close>

lemma SignObject_verifies:
  assumes obj: "go_json (JObj obj)" and ret: "SignObject C obj d k key = Ret (m, obj')"
    and utf: "utf8_ok d" "utf8_ok k" and pair: "key_pair C key pub"
    and keys: "map_of keys d = Some dk" "map_of dk k = Some pub"
    and old: "sigs_of obj = [] \<or> VerifySignatures C (JObj obj) keys = Ret ()"
  shows "VerifySignatures C (JObj m) keys = Ret ()"
proof -
  let ?c = "EncodeCanonicalJson (signed_part obj)"
  let ?sig = "JStr (EncodeUnpaddedBase64ToString (cr_sign C key ?c))"
  let ?S = "signed_with (sigs_of obj) d k ?sig"
  have old': "domain_sigs_ok C ?c keys e s" if "(e, s) \<in> set (sigs_of obj)" for e s
    using old that VerifySignatures_Ret [OF obj, of C keys]
    by (cases "map_of obj ''signatures''") (fastforce simp: sigs_of_def)+
  have new: "key_sig_ok C ?c dk k ?sig"
    using keys pair by (auto simp: key_sig_ok_def key_pair_def b64_decode_encode)
  have dom: "key_sig_ok C ?c dk k' b" if "(k', b) \<in> set (AList.update k ?sig (sigs_for (sigs_of obj) d))" for k' b
  proof (cases "k' = k \<and> b = ?sig")
    case False
    then have "(k', b) \<in> set (sigs_for (sigs_of obj) d)" using that set_AList_update by fastforce
    then obtain ks where "(d, JObj ks) \<in> set (sigs_of obj)" "(k', b) \<in> set ks"
      using sigs_for_in by blast
    then show ?thesis using old' domain_sigs_ok_for keys(1) by blast
  qed (use new in simp)
  have "domain_sigs_ok C ?c keys e s" if "(e, s) \<in> set ?S" for e s
  proof (cases "(e, s) \<in> set (sigs_of obj)")
    case False
    then have "e = d" "s = JObj (AList.update k ?sig (sigs_for (sigs_of obj) d))"
      using that set_AList_update unfolding signed_with_def by fastforce+
    then show ?thesis using dom keys(1) by (auto simp: domain_sigs_ok_def)
  qed (rule old')
  moreover have "?S \<noteq> []" unfolding signed_with_def by (cases "sigs_of obj") auto
  moreover note SignObject_Ret(4) [OF obj ret] SignObject_signed_part [OF obj ret]
  ultimately show ?thesis
    using VerifySignatures_Ret [OF SignObject_go_json [OF obj ret utf]] by auto
qed

subsection \<open>When verification panics\<close>

lemma assert_map_not_Panic: "object_or_absent v \<Longrightarrow> assert_map v \<noteq> Panic p"
  by (auto simp: object_or_absent_iff)

lemma InterfaceToMap_no_Panic [simp]: "InterfaceToMap v \<noteq> Panic p"
  by (simp add: InterfaceToMap_def)

lemma go_bind_eq_Panic_iff: "go_bind m f = Panic p \<longleftrightarrow> m = Panic p \<or> (\<exists>x. m = Ret x \<and> f x = Panic p)"
  by (cases m) auto

definition typed_sigs :: "json gomap \<Rightarrow> bool" where
  "typed_sigs sigs \<longleftrightarrow> (\<forall>(d, sig) \<in> set sigs. \<exists>ks. sig = JObj ks \<and> (\<forall>(k, b) \<in> set ks. \<exists>s. b = JStr s))"

definition key_lengths_ok :: "(string gomap) gomap \<Rightarrow> bool" where
  "key_lengths_ok keys \<longleftrightarrow> (\<forall>(d, dk) \<in> set keys. \<forall>(k, pub) \<in> set dk. length pub = 32)"

lemma verify_key_sigs_no_Panic:
  assumes "\<forall>(k, pub) \<in> set dk. length pub = 32"
  shows "\<forall>(k, b) \<in> set ks. \<exists>s. b = JStr s \<Longrightarrow> verify_key_sigs C c d dk ks \<noteq> Panic p"
  using assms
  by (induction ks rule: verify_key_sigs.induct [where ?a0.0 = C and ?a1.0 = c and ?a2.0 = d and ?a3.0 = dk])
    (auto simp: go_bind_eq_Panic_iff assert_string_def ed25519_Verify_def split: option.splits dest!: map_of_SomeD)

lemma verify_domains_no_Panic:
  assumes "key_lengths_ok keys"
  shows "typed_sigs sigs \<Longrightarrow> verify_domains C c keys sigs \<noteq> Panic p"
proof (induction sigs)
  case (Cons x sigs)
  obtain d sig where x: "x = (d, sig)" by force
  with Cons.prems obtain ks where ks: "sig = JObj ks" "\<forall>(k, b) \<in> set ks. \<exists>s. b = JStr s"
    by (auto simp: typed_sigs_def)
  have rest: "verify_domains C c keys sigs \<noteq> Panic p"
    using Cons by (simp add: typed_sigs_def)
  show ?case
  proof (cases "map_of keys d")
    case (Some dk)
    then have "\<forall>(k, pub) \<in> set dk. length pub = 32"
      using assms by (fastforce simp: key_lengths_ok_def dest: map_of_SomeD)
    from verify_key_sigs_no_Panic [OF this ks(2)] rest Some ks x show ?thesis
      by (auto simp: go_bind_eq_Panic_iff)
  qed (simp add: x)
qed simp

subsection \<open>Redaction\<close>

lemma sorted_members_cong_sorted:
  assumes wf: "wf_gomap m" "wf_gomap m'"
    and eq: "\<And>k. map_option sort_keys (map_of m k) = map_option sort_keys (map_of m' k)"
  shows "sorted_members m = sorted_members m'"
proof -
  have "map_of (sorted_members m) = map_of (sorted_members m')"
    using wf eq by (simp add: fun_eq_iff map_of_sorted_members)
  then have "sorted_members (sorted_members m) = sorted_members (sorted_members m')"
    using wf by (intro sorted_members_cong) auto
  then show ?thesis by simp
qed

lemma assert_string_JStr [simp]: "assert_string (JStr s) = Ret s"
  by (simp add: assert_string_def)

definition kept_keys :: "string list" where
  "kept_keys = map fst keepKeys_v1"

text \<open>The part of an event's \<open>content\<close> that redaction keeps, by the type of the event.\<close>

definition kept_content :: "string \<Rightarrow> json gomap \<Rightarrow> json gomap" where
  "kept_content t c = (case map_of keepContent_v1 t of None \<Rightarrow> [] | Some ks \<Rightarrow> keep_members c ks [])"

definition redacted_member :: "json gomap \<Rightarrow> string \<Rightarrow> json option" where
  "redacted_member obj k =
     (if k \<notin> set kept_keys then None
      else if k = ''content'' then
        (case map_of obj ''content'' of
           None \<Rightarrow> None
         | Some v \<Rightarrow>
             (case map_of obj ''type'' of
                Some (JStr t) \<Rightarrow> (case v of JObj c \<Rightarrow> Some (JObj (kept_content t c)) | _ \<Rightarrow> Some (JObj []))
              | _ \<Rightarrow> Some (JObj [])))
      else map_of obj k)"

lemma map_of_keep_members:
  "map_of (keep_members c ks acc) x =
     (if x \<in> set ks \<and> map_of c x \<noteq> None then map_of c x else map_of acc x)"
  by (induction ks arbitrary: acc) (auto split: option.split)

lemma wf_keep_members: "wf_gomap acc \<Longrightarrow> wf_gomap (keep_members c ks acc)"
  by (induction ks arbitrary: acc) (auto split: option.split)

lemma wf_kept_content [simp]: "wf_gomap (kept_content t c)"
  by (auto simp: kept_content_def wf_keep_members split: option.split)

lemma map_of_kept_content:
  "map_of (kept_content t c) x =
     (case map_of keepContent_v1 t of None \<Rightarrow> None | Some ks \<Rightarrow> if x \<in> set ks then map_of c x else None)"
  by (auto simp: kept_content_def map_of_keep_members split: option.split)

lemma kept_content_again:
  "wf_gomap c \<Longrightarrow> sorted_members (kept_content t (sorted_members (kept_content t c))) = sorted_members (kept_content t c)"
  by (rule sorted_members_cong_sorted)
    (auto simp: map_of_kept_content map_of_sorted_members option.map_comp comp_def split: option.split)

lemma map_of_filter_keys: "map_of (filter (\<lambda>(k, v). P k) m) k = (if P k then map_of m k else None)"
  by (induction m) auto

lemma keepKeys_v1_iff: "map_of keepKeys_v1 k = Some True \<longleftrightarrow> k \<in> set kept_keys"
  by (auto simp: keepKeys_v1_def kept_keys_def)

lemma kept_content_type [simp]: "''type'' \<in> set kept_keys" "''content'' \<in> set kept_keys"
  by (simp_all add: kept_keys_def keepKeys_v1_def)

definition redactable :: "json gomap \<Rightarrow> bool" where
  "redactable obj \<longleftrightarrow>
     (case map_of obj ''type'' of None \<Rightarrow> True
      | Some (JStr t) \<Rightarrow> object_or_absent (map_of obj ''content'')
      | Some _ \<Rightarrow> False)"

lemma pruneObject_Ret:
  assumes "wf_gomap obj"
  shows "pruneObject obj keepKeys_v1 keepContent_v1 = Ret p \<Longrightarrow>
           redactable obj \<and> wf_gomap p \<and> map_of p = redacted_member obj"
    and "redactable obj \<Longrightarrow> \<exists>p. pruneObject obj keepKeys_v1 keepContent_v1 = Ret p"
proof -
  let ?m = "filter (\<lambda>(k, v). map_of keepKeys_v1 k = Some True) obj"
  have m: "map_of ?m k = (if k \<in> set kept_keys then map_of obj k else None)" for k
    using map_of_filter_keys [of "\<lambda>k. map_of keepKeys_v1 k = Some True" obj k] by (simp add: keepKeys_v1_iff)
  have wf: "wf_gomap ?m" using assms by (rule wf_gomap_filter)
  show "pruneObject obj keepKeys_v1 keepContent_v1 = Ret p \<Longrightarrow>
           redactable obj \<and> wf_gomap p \<and> map_of p = redacted_member obj"
    unfolding pruneObject_def Let_def redactable_def redacted_member_def fun_eq_iff
    using wf m
    by (cases "map_of obj ''type''"; cases "map_of obj ''content''")
      (auto simp: go_bind_eq_Ret_iff kept_content_def object_or_absent_def split: option.split)
  show "redactable obj \<Longrightarrow> \<exists>p. pruneObject obj keepKeys_v1 keepContent_v1 = Ret p"
    unfolding pruneObject_def Let_def redactable_def
    using m
    by (cases "map_of obj ''type''"; cases "map_of obj ''content''")
      (auto simp: object_or_absent_iff split: json.splits)
qed

lemma kept_content_Nil [simp]: "sorted_members [] = []"
  by (simp add: sorted_members_def)

text \<open>Redacting an already redacted event, in whatever order its members are, keeps it.\<close>

lemma redacted_member_again:
  assumes p: "map_of p = redacted_member obj" and obj: "go_json (JObj obj)" and r: "redactable obj"
    and q: "\<And>j. j \<in> {k, ''content'', ''type''} \<Longrightarrow> map_of q j = map_option sort_keys (map_of p j)"
  shows "map_option sort_keys (redacted_member q k) = map_option sort_keys (map_of p k)"
proof (cases "k = ''content''")
  case False
  then show ?thesis using p q by (simp add: redacted_member_def option.map_comp comp_def)
next
  case True
  have t: "map_of p ''type'' = map_of obj ''type''" using p by (simp add: redacted_member_def)
  show ?thesis
  proof (cases "map_of obj ''content''")
    case None
    with True p q show ?thesis by (simp add: redacted_member_def)
  next
    case (Some v)
    show ?thesis
    proof (cases "map_of obj ''type''")
      case None
      with True p q t Some show ?thesis by (simp add: redacted_member_def)
    next
      case ty: (Some tv)
      then obtain s c where tv: "tv = JStr s" and c: "v = JObj c" using r Some
        by (auto simp: redactable_def object_or_absent_def split: json.splits)
      have "go_json_upto 10000 (JObj obj)" using obj by (simp add: go_json_upto)
      then have "wf_gomap c" using go_json_upto_lookup Some c by (fastforce simp: go_json_upto_JObj)
      then show ?thesis using True p q t Some ty tv c kept_content_again
        by (simp add: redacted_member_def)
    qed
  qed
qed

lemma go_json_kept_content:
  assumes "go_json_upto n (JObj c)"
  shows "go_json_upto n (JObj (kept_content t c))"
proof -
  have "go_json_upto (n - 1) v \<and> utf8_ok x" if "(x, v) \<in> set (kept_content t c)" for x v
  proof -
    from that have "map_of (kept_content t c) x = Some v" by (simp add: wf_gomap_map_of)
    then have "map_of c x = Some v" by (auto simp: map_of_kept_content split: option.splits if_splits)
    with assms show ?thesis by (auto simp: go_json_upto_JObj dest: map_of_SomeD)
  qed
  with assms show ?thesis by (fastforce simp: go_json_upto_JObj)
qed

lemma redacted_member_go_json:
  assumes obj: "go_json (JObj obj)" and v: "redacted_member obj k = Some v"
  shows "go_json_upto 9999 v \<and> utf8_ok k"
proof -
  have o: "go_json_upto 10000 (JObj obj)" using obj by (simp add: go_json_upto)
  have mem: "map_of obj k \<noteq> None"
    using v by (auto simp: redacted_member_def split: if_splits option.splits)
  then have k: "utf8_ok k" using o by (auto simp: go_json_upto_JObj dest: map_of_SomeD)
  have "go_json_upto 9999 v"
  proof (cases "k = ''content''")
    case False
    then show ?thesis using v go_json_upto_lookup [OF o] by (auto simp: redacted_member_def split: if_splits)
  next
    case True
    have "go_json_upto 9999 (JObj (kept_content t c))" if "map_of obj ''content'' = Some (JObj c)" for t c
      using go_json_kept_content go_json_upto_lookup [OF o that] by simp
    then show ?thesis using v True
      by (auto simp: redacted_member_def go_json_upto_Nil split: if_splits option.splits json.splits)
  qed
  with k show ?thesis by simp
qed

lemma pruned_go_json:
  assumes "go_json (JObj obj)" "wf_gomap p" "map_of p = redacted_member obj"
  shows "go_json (JObj p)"
proof -
  have "go_json_upto 9999 v \<and> utf8_ok k" if "(k, v) \<in> set p" for k v
    using that assms redacted_member_go_json [OF assms(1)] by (simp add: wf_gomap_map_of)
  then show ?thesis using assms(2) by (fastforce simp: go_json_upto go_json_upto_JObj)
qed

lemma redactObjectV1_Ret:
  assumes obj: "go_json (JObj obj)"
  shows "RedactObject (JObj obj) ''v1'' = Ret (p, u) \<Longrightarrow>
      redactable (sorted_members obj) \<and> wf_gomap p \<and> map_of p = redacted_member (sorted_members obj) \<and>
      (case u of None \<Rightarrow> map_of obj ''unsigned'' = None
       | Some us \<Rightarrow> map_of (sorted_members obj) ''unsigned'' = Some (JObj us))"
    and "redactable (sorted_members obj) \<Longrightarrow> object_or_absent (map_of (sorted_members obj) ''unsigned'') \<Longrightarrow>
      \<exists>p u. RedactObject (JObj obj) ''v1'' = Ret (p, u)"
proof -
  have wf: "wf_gomap (sorted_members obj)" using obj by simp
  let ?s = "sorted_members obj"
  have red: "RedactObject (JObj obj) ''v1'' = go_bind (assert_map (map_of ?s ''unsigned'')) (\<lambda>u0.
      go_bind (pruneObject ?s keepKeys_v1 keepContent_v1) (\<lambda>p.
        Ret (p, if map_of ?s ''unsigned'' = None then None else Some u0)))"
    using obj by (simp add: RedactObject_def redactObjectV1_def InterfaceToMap_go_json Let_def)
  show "redactable ?s \<and> wf_gomap p \<and> map_of p = redacted_member ?s \<and>
      (case u of None \<Rightarrow> map_of obj ''unsigned'' = None
       | Some us \<Rightarrow> map_of ?s ''unsigned'' = Some (JObj us))" if r: "RedactObject (JObj obj) ''v1'' = Ret (p, u)"
  proof -
    obtain u0 where u0: "assert_map (map_of ?s ''unsigned'') = Ret u0"
        and p: "pruneObject ?s keepKeys_v1 keepContent_v1 = Ret p"
        and u: "u = (if map_of ?s ''unsigned'' = None then None else Some u0)"
      using r unfolding red go_bind_eq_Ret_iff by auto
    have "map_of ?s ''unsigned'' = None \<longleftrightarrow> map_of obj ''unsigned'' = None"
      using obj by (simp add: map_of_sorted_members)
    then show ?thesis using pruneObject_Ret(1) [OF wf p] u0 u unfolding assert_map_Ret_iff by auto
  qed
  show "\<exists>p u. RedactObject (JObj obj) ''v1'' = Ret (p, u)"
    if r: "redactable ?s" and us: "object_or_absent (map_of ?s ''unsigned'')"
  proof -
    obtain p where "pruneObject ?s keepKeys_v1 keepContent_v1 = Ret p"
      using pruneObject_Ret(2) [OF wf r] by blast
    moreover obtain u0 where "assert_map (map_of ?s ''unsigned'') = Ret u0"
      using us unfolding object_or_absent_iff by blast
    ultimately show ?thesis unfolding red by simp
  qed
qed

subsection \<open>Signing an event\<close>

lemma go_json_update: "go_json (JObj m) \<Longrightarrow> utf8_ok k \<Longrightarrow> go_json_upto 9999 v \<Longrightarrow> go_json (JObj (AList.update k v m))"
  using go_json_upto_update [of 10000] by (simp add: go_json_upto)

text \<open>What \<open>SignEvent\<close> hands to \<open>SignObject\<close>: the redacted event, its hash and \<open>unsigned\<close>.\<close>

definition event_to_sign :: "crypto \<Rightarrow> json gomap \<Rightarrow> json gomap \<Rightarrow> json gomap option \<Rightarrow> json gomap" where
  "event_to_sign C s p u =
     (let h = EncodeUnpaddedBase64ToString (cr_sha256 C (EncodeCanonicalJson (AList.delete ''hashes'' (signed_part s))));
          e = AList.update ''hashes'' (JObj [(''sha256'', JStr h)]) p
      in case u of None \<Rightarrow> e | Some us \<Rightarrow> AList.update ''unsigned'' (JObj us) e)"

lemma SignEvent_redacted:
  assumes obj: "go_json (JObj obj)" and red: "RedactObject (JObj obj) ''v1'' = Ret (p, u)"
  shows "SignEvent C (JObj obj) d k key =
    go_bind (SignObject C (event_to_sign C (sorted_members obj) p u) d k key) (\<lambda>(m, _). Ret m)"
  using obj by (simp add: SignEvent_def red CalculateSha256ContentHash_def InterfaceToMap_go_json
      signed_part_def event_to_sign_def Let_def)

lemma in_kept_keys [simp]:
  "''signatures'' \<in> set kept_keys" "''hashes'' \<in> set kept_keys" "''unsigned'' \<notin> set kept_keys"
  by (simp_all add: kept_keys_def keepKeys_v1_def)

lemma event_to_sign:
  assumes obj: "go_json (JObj obj)" and red: "RedactObject (JObj obj) ''v1'' = Ret (p, u)"
  shows "go_json (JObj (event_to_sign C (sorted_members obj) p u))"
    and "map_of (event_to_sign C (sorted_members obj) p u) ''unsigned'' = map_of (sorted_members obj) ''unsigned''"
    and "x \<noteq> ''hashes'' \<Longrightarrow> x \<noteq> ''unsigned'' \<Longrightarrow>
      map_of (event_to_sign C (sorted_members obj) p u) x = redacted_member (sorted_members obj) x"
proof -
  let ?s = "sorted_members obj"
  note r = redactObjectV1_Ret(1) [OF obj red]
  have s: "go_json (JObj ?s)" using obj by simp
  have "go_json_upto 9999 (JObj us)" if "u = Some us" for us
    using r that go_json_upto_lookup [of 10000 ?s "''unsigned''"] s by (simp add: go_json_upto)
  moreover have "go_json_upto 9999 (JObj [(''sha256'', JStr (EncodeUnpaddedBase64ToString h))])" for h
    by (simp add: go_json_upto_JObj wf_gomap_def utf8_ok_ascii)
  moreover have "go_json (JObj p)" using pruned_go_json [OF s] r by blast
  ultimately show "go_json (JObj (event_to_sign C ?s p u))"
    by (auto simp: event_to_sign_def Let_def utf8_ok_ascii split: option.split intro!: go_json_update)
  show "map_of (event_to_sign C ?s p u) ''unsigned'' = map_of ?s ''unsigned''"
    using r obj by (auto simp: event_to_sign_def Let_def map_of_sorted_members redacted_member_def split: option.splits)
  show "map_of (event_to_sign C ?s p u) x = redacted_member ?s x" if "x \<noteq> ''hashes''" "x \<noteq> ''unsigned''"
    using that r by (simp add: event_to_sign_def Let_def split: option.split)
qed

lemma SignEvent_RetE:
  assumes obj: "go_json (JObj obj)" and ret: "SignEvent C (JObj obj) d k key = Ret m"
  obtains p u m' where "RedactObject (JObj obj) ''v1'' = Ret (p, u)"
    "SignObject C (event_to_sign C (sorted_members obj) p u) d k key = Ret (m, m')"
proof -
  obtain p u where red: "RedactObject (JObj obj) ''v1'' = Ret (p, u)"
    using ret unfolding SignEvent_def go_bind_eq_Ret_iff by (auto split: prod.splits)
  moreover obtain m' where "SignObject C (event_to_sign C (sorted_members obj) p u) d k key = Ret (m, m')"
    using ret unfolding SignEvent_redacted [OF obj red] go_bind_eq_Ret_iff by auto
  ultimately show ?thesis using that by blast
qed

text \<open>Redaction of an event that \<open>SignObject\<close> accepts cannot fail.\<close>

lemma SignEvent_total:
  assumes obj: "go_json (JObj obj)" and red: "redactable (sorted_members obj)"
    and u: "object_or_absent (map_of (sorted_members obj) ''unsigned'')"
    and fresh: "map_of obj ''signatures'' = None" and key: "length key = 64"
  shows "\<exists>m. SignEvent C (JObj obj) d k key = Ret m"
proof -
  obtain p us where r: "RedactObject (JObj obj) ''v1'' = Ret (p, us)"
    using redactObjectV1_Ret(2) [OF obj red u] by blast
  note e = event_to_sign [OF obj r]
  have "map_of (event_to_sign C (sorted_members obj) p us) ''signatures'' = None"
    using e(3) fresh obj by (simp add: redacted_member_def map_of_sorted_members)
  then have "signable (event_to_sign C (sorted_members obj) p us) d"
    using e(1,2) u by (simp add: signable_def object_or_absent_def sigs_of_def)
  from SignObject_total [OF this key] obtain m where
    "SignObject C (event_to_sign C (sorted_members obj) p us) d k key =
       Ret (m, signed_part (event_to_sign C (sorted_members obj) p us))" by blast
  then show ?thesis unfolding SignEvent_redacted [OF obj r] by simp
qed

text \<open>The signatures of an event cover exactly what redaction keeps.\<close>

lemma SignEvent_redact_signed_part:
  assumes obj: "go_json (JObj obj)" and ret: "SignEvent C (JObj obj) d k key = Ret m"
    and red: "RedactObject (JObj m) ''v1'' = Ret (r, u)" and utf: "utf8_ok d" "utf8_ok k"
  shows "go_json (JObj m)" "go_json (JObj r)"
    "EncodeCanonicalJson (signed_part r) = EncodeCanonicalJson (signed_part m)"
    "map_of r ''signatures'' = map_option sort_keys (map_of m ''signatures'')"
proof -
  let ?s = "sorted_members obj" and ?q = "sorted_members m"
  obtain p0 u0 m' where r0: "RedactObject (JObj obj) ''v1'' = Ret (p0, u0)"
    and sign: "SignObject C (event_to_sign C ?s p0 u0) d k key = Ret (m, m')"
    by (rule SignEvent_RetE [OF obj ret])
  define e where "e = event_to_sign C ?s p0 u0"
  note sign = sign [folded e_def] and ex = event_to_sign(3) [OF obj r0, of _ C, folded e_def]
  have e: "go_json (JObj e)" "redactable ?s"
    using event_to_sign(1) [OF obj r0] redactObjectV1_Ret(1) [OF obj r0] by (simp_all add: e_def)
  show m: "go_json (JObj m)" by (rule SignObject_go_json [OF e(1) sign utf])
  note r = redactObjectV1_Ret(1) [OF m red]
  show go_r: "go_json (JObj r)" using pruned_go_json [of ?q] m r by simp
  have q: "map_of ?q x = map_option sort_keys (map_of e x)" if "x \<noteq> ''signatures''" "x \<noteq> ''unsigned''" for x
    using SignObject_Ret(6) [OF e(1) sign] that m by (simp add: map_of_sorted_members option.map_comp comp_def)
  have ms: "map_of m x = map_option sort_keys (map_of e x)" if "x \<noteq> ''signatures''" "x \<noteq> ''unsigned''" for x
    using SignObject_Ret(6) [OF e(1) sign] that by simp
  obtain p where p: "wf_gomap p" "map_of p = redacted_member ?s"
    using pruneObject_Ret [of ?s] e(2) obj by (metis go_json_sorted_members wf_gomap_go_json)
  have same: "map_option sort_keys (map_of r x) = map_option sort_keys (map_of m x)"
    if x: "x \<noteq> ''signatures''" "x \<noteq> ''unsigned''" for x
  proof (cases "x = ''hashes''")
    case True
    then show ?thesis using r m by (simp add: redacted_member_def map_of_sorted_members option.map_comp comp_def)
  next
    case False
    have "map_option sort_keys (redacted_member ?q x) = map_option sort_keys (map_of p x)"
    proof (rule redacted_member_again [OF p(2) _ e(2)])
      show "map_of ?q j = map_option sort_keys (map_of p j)" if "j \<in> {x, ''content'', ''type''}" for j
        using that x False q [of j] ex [of j] p(2) by auto
    qed (use obj in simp)
    then show ?thesis using r ms [OF x] ex [of x] p(2) False x by (simp add: option.map_comp comp_def)
  qed
  have "sorted_members (signed_part r) = sorted_members (signed_part m)"
    using same r m by (intro sorted_members_cong_sorted) (auto simp: signed_part_def)
  then show "EncodeCanonicalJson (signed_part r) = EncodeCanonicalJson (signed_part m)"
    by (rule canonical_cong)
  show "map_of r ''signatures'' = map_option sort_keys (map_of m ''signatures'')"
    using r m by (simp add: redacted_member_def map_of_sorted_members)
qed

lemma verify_transfer:
  assumes m: "go_json (JObj m)" "go_json (JObj r)"
    and c: "EncodeCanonicalJson (signed_part r) = EncodeCanonicalJson (signed_part m)"
    and s: "map_of r ''signatures'' = map_option sort_keys (map_of m ''signatures'')"
    and v: "VerifySignatures C (JObj m) keys = Ret ()"
  shows "VerifySignatures C (JObj r) keys = Ret ()"
proof -
  obtain sigs where sigs: "map_of m ''signatures'' = Some (JObj sigs)" "sigs \<noteq> []"
      and ok: "\<forall>(d, sig) \<in> set sigs. domain_sigs_ok C (EncodeCanonicalJson (signed_part m)) keys d sig"
    using v VerifySignatures_Ret [OF m(1)] by blast
  have "sorted_members sigs \<noteq> []" using sigs(2) set_sorted_members [of sigs] by (metis image_is_empty set_empty)
  moreover have "\<forall>(d, sig) \<in> set (sorted_members sigs). domain_sigs_ok C (EncodeCanonicalJson (signed_part m)) keys d sig"
    using ok by fastforce
  ultimately show ?thesis using VerifySignatures_Ret [OF m(2)] s sigs(1) c by simp
qed

lemma SignEvent_verifies:
  assumes obj: "go_json (JObj obj)" and ret: "SignEvent C (JObj obj) d k key = Ret m"
    and fresh: "map_of obj ''signatures'' = None"
    and utf: "utf8_ok d" "utf8_ok k" and pair: "key_pair C key pub"
    and keys: "map_of keys d = Some dk" "map_of dk k = Some pub"
  shows "VerifySignatures C (JObj m) keys = Ret ()"
proof -
  obtain p u m' where r: "RedactObject (JObj obj) ''v1'' = Ret (p, u)"
    and sign: "SignObject C (event_to_sign C (sorted_members obj) p u) d k key = Ret (m, m')"
    by (rule SignEvent_RetE [OF obj ret])
  have "map_of (event_to_sign C (sorted_members obj) p u) ''signatures'' = None"
    using event_to_sign(3) [OF obj r] fresh obj by (simp add: redacted_member_def map_of_sorted_members)
  then have "sigs_of (event_to_sign C (sorted_members obj) p u) = []" by (simp add: sigs_of_def)
  then show ?thesis using SignObject_verifies [OF event_to_sign(1) [OF obj r] sign utf pair keys] by blast
qed
lemma sort_keys_eq_iff [simp]:
  "sort_keys v = JStr t \<longleftrightarrow> v = JStr t"
  "(\<exists>c. sort_keys v = JObj c) \<longleftrightarrow> (\<exists>c. v = JObj c)"
  by (cases v; simp)+

lemma object_or_absent_sort [simp]: "object_or_absent (map_option sort_keys v) = object_or_absent v"
  by (auto simp: object_or_absent_def split: option.split json.split)

text \<open>A signed event can be redacted.\<close>

lemma SignEvent_redacts:
  assumes obj: "go_json (JObj obj)" and ret: "SignEvent C (JObj obj) d k key = Ret m"
    and utf: "utf8_ok d" "utf8_ok k"
  shows "\<exists>r u. RedactObject (JObj m) ''v1'' = Ret (r, u)"
proof -
  let ?s = "sorted_members obj"
  obtain p u m' where r: "RedactObject (JObj obj) ''v1'' = Ret (p, u)"
    and sign: "SignObject C (event_to_sign C ?s p u) d k key = Ret (m, m')"
    by (rule SignEvent_RetE [OF obj ret])
  note e = event_to_sign [OF obj r, where C = C] and S = SignObject_Ret [OF event_to_sign(1) [OF obj r] sign]
  note R = redactObjectV1_Ret(1) [OF obj r]
  have m: "go_json (JObj m)" by (rule SignObject_go_json [OF e(1) sign utf])
  have t: "map_of m ''type'' = map_option sort_keys (map_of ?s ''type'')"
    and c: "map_of m ''content'' = map_option sort_keys (redacted_member ?s ''content'')"
    using S(6) e(3) by (simp_all add: redacted_member_def)
  have "object_or_absent (redacted_member ?s ''content'')"
    by (auto simp: redacted_member_def object_or_absent_def split: option.split json.split)
  then have "redactable (sorted_members m)"
    using R m t c by (auto simp: redactable_def map_of_sorted_members split: option.splits json.splits)
  moreover have "object_or_absent (map_of (sorted_members m) ''unsigned'')"
  proof (cases u)
    case None
    then have "map_of m ''unsigned'' = None" using R S(5) e(2) obj by (simp add: map_of_sorted_members)
    then show ?thesis using m by (simp add: map_of_sorted_members object_or_absent_def)
  next
    case (Some us)
    then have "map_of m ''unsigned'' = Some (JObj us)" using R S(5) e(2) by simp
    then show ?thesis using m by (simp add: map_of_sorted_members object_or_absent_def)
  qed
  ultimately show ?thesis using redactObjectV1_Ret(2) [OF m] by blast
qed

subsection \<open>Concrete inputs for the witnesses\<close>

text \<open>
  A signature scheme that has the promised law, for the witnesses only: the public key is the
  first half of the private key and a signature is the public key with part of the message.
\<close>

definition demo_crypto :: crypto where
  "demo_crypto = \<lparr>cr_sign = (\<lambda>key msg. take 32 key @ take 8 msg), cr_verify = (\<lambda>pub msg sig. sig = pub @ take 8 msg),
     cr_sha256 = (\<lambda>s. take 32 (s @ replicate 32 (CHR ''0'')))\<rparr>"

definition demo_key :: string where "demo_key = replicate 64 (CHR ''k'')"
definition demo_pub :: string where "demo_pub = replicate 32 (CHR ''k'')"

definition demo_keys :: "(string gomap) gomap" where
  "demo_keys = [(''d'', [(''k'', demo_pub)])]"

definition demo_object :: "json gomap" where
  "demo_object = [(''b'', JNum 1), (''a'', JStr ''<x>'')]"

lemma demo_key_pair: "key_pair demo_crypto demo_key demo_pub"
  by (simp add: key_pair_def demo_crypto_def demo_key_def demo_pub_def)

lemma demo_object_ok: "go_json (JObj demo_object)"
  by code_simp

lemma demo_sign: "\<exists>m. SignObject demo_crypto demo_object ''d'' ''k'' demo_key = Ret (m, signed_part demo_object)"
  by (rule SignObject_total)
    (simp_all add: signable_def demo_object_ok [unfolded demo_object_def] demo_object_def demo_key_def object_or_absent_def sigs_of_def)

subsection \<open>Properties\<close>

text \<open>
  C14: signing and verifying agree. An object signed with \<open>SignObject\<close> under a key pair whose
  public half the verifier holds passes \<open>VerifySignatures\<close>, and counter-signing keeps the
  signatures that verified before valid.
\<close>

theorem sign_then_verify:
  assumes "go_json (JObj obj)" and "SignObject C obj d k key = Ret (m, obj')"
    and "utf8_ok d" and "utf8_ok k" and "key_pair C key pub"
    and "map_of keys d = Some dk" and "map_of dk k = Some pub"
    and "map_of obj ''signatures'' = None \<or> VerifySignatures C (JObj obj) keys = Ret ()"
  shows "VerifySignatures C (JObj m) keys = Ret ()"
  using SignObject_verifies [OF assms(1-7)] assms(8) by (auto simp: sigs_of_def)

theorem sign_then_verify_witness:
  "\<exists>m. SignObject demo_crypto demo_object ''d'' ''k'' demo_key = Ret (m, signed_part demo_object) \<and>
     VerifySignatures demo_crypto (JObj m) demo_keys = Ret ()"
proof -
  obtain m where m: "SignObject demo_crypto demo_object ''d'' ''k'' demo_key = Ret (m, signed_part demo_object)"
    using demo_sign by blast
  then show ?thesis
    using sign_then_verify [OF demo_object_ok m _ _ demo_key_pair, where keys = demo_keys]
    by (simp add: demo_keys_def demo_object_def)
qed

text \<open>
  C15: what acceptance by \<open>VerifySignatures\<close> means. An object is accepted exactly when its
  \<open>signatures\<close> member is a non-empty object in which every signature of every server decodes
  and verifies, under a key of that server that the caller supplied, over the canonical
  encoding of the object without \<open>signatures\<close> and \<open>unsigned\<close>.
\<close>

theorem verify_characterisation:
  assumes "go_json (JObj m)"
  shows "VerifySignatures C (JObj m) keys = Ret () \<longleftrightarrow>
    (\<exists>sigs. map_of m ''signatures'' = Some (JObj sigs) \<and> sigs \<noteq> [] \<and>
       (\<forall>(d, sig) \<in> set sigs. \<exists>dk ks. map_of keys d = Some dk \<and> sig = JObj ks \<and>
          (\<forall>(k, b) \<in> set ks. \<exists>pub s raw. map_of dk k = Some pub \<and> b = JStr s \<and> DecodeUnpaddedBase64String s = Ret raw \<and>
             length pub = 32 \<and>
             cr_verify C pub (EncodeCanonicalJson (AList.delete ''signatures'' (AList.delete ''unsigned'' m))) raw)))"
  unfolding VerifySignatures_Ret [OF assms] domain_sigs_ok_def key_sig_ok_def signed_part_def [symmetric] Decode_eq_Ret ..

theorem verify_characterisation_witness:
  "VerifySignatures demo_crypto (JObj demo_object) demo_keys \<noteq> Ret ()"
  by (simp only: verify_characterisation [OF demo_object_ok]) (simp add: demo_object_def)

text \<open>
  C16: the canonical encoding of an object determines it. Two objects have the same canonical
  bytes exactly when they are the same JSON value up to the order of their members, so a
  signature over the bytes is a signature over the value.
\<close>

theorem canonical_determines_value:
  assumes "go_json (JObj m)" and "go_json (JObj m')"
  shows "EncodeCanonicalJson m = EncodeCanonicalJson m' \<longleftrightarrow> sort_keys (JObj m) = sort_keys (JObj m')"
  using canonical_inject [OF assms] by simp

theorem canonical_determines_value_witness:
  "EncodeCanonicalJson demo_object = EncodeCanonicalJson (rev demo_object)"
proof -
  have "go_json (JObj (rev demo_object))" by code_simp
  from canonical_determines_value [OF demo_object_ok this] show ?thesis by code_simp
qed

text \<open>
  C19: \<open>VerifySignatures\<close> does not panic on an object whose \<open>signatures\<close> member, if any, maps
  servers to objects of strings, provided every public key it is given has the 32 bytes of an
  ed25519 key. Nothing else of the object matters.
\<close>

theorem verify_never_panics:
  assumes "go_json (JObj m)" and "key_lengths_ok keys"
    and "map_of m ''signatures'' = None \<or> (\<exists>sigs. map_of m ''signatures'' = Some (JObj sigs) \<and> typed_sigs sigs)"
  shows "VerifySignatures C (JObj m) keys \<noteq> Panic p"
proof -
  have typed: "typed_sigs (sorted_members sigs)" if "typed_sigs sigs" for sigs
    using that by (fastforce simp: typed_sigs_def)
  have "verify_domains C c keys (sorted_members sigs) \<noteq> Panic p" if "typed_sigs sigs" for c sigs
    by (rule verify_domains_no_Panic [OF assms(2) typed [OF that]])
  then show ?thesis using assms(1,3)
    by (auto simp: VerifySignatures_def InterfaceToMap_go_json map_of_sorted_members Let_def split: if_splits)
qed

definition demo_sigs :: "json gomap" where
  "demo_sigs = [(''signatures'', JObj [(''d'', JObj [(''k'', JStr ''AAAA'')])])]"

theorem verify_never_panics_witness: "\<forall>p. VerifySignatures demo_crypto (JObj demo_sigs) demo_keys \<noteq> Panic p"
proof (intro allI verify_never_panics)
  show "go_json (JObj demo_sigs)" by code_simp
qed (simp_all add: key_lengths_ok_def demo_keys_def demo_pub_def demo_sigs_def typed_sigs_def)

text \<open>A public key of another length makes the same call panic.\<close>

lemma verify_panics_on_short_key:
  "VerifySignatures demo_crypto (JObj demo_sigs) [(''d'', [(''k'', take 31 demo_pub)])] =
     Panic ''ed25519: bad public key length''"
  by code_simp

text \<open>
  What the first redaction algorithm of the Matrix specification keeps, written down on its own:
  the members of an event, and the members of \<open>content\<close> for each type of event.
\<close>

definition v1_keeps :: "string \<Rightarrow> bool" where
  "v1_keeps x \<longleftrightarrow> x \<in> {''auth_events'', ''content'', ''depth'', ''event_id'', ''hashes'', ''membership'', ''origin'',
     ''origin_server_ts'', ''prev_events'', ''prev_state'', ''room_id'', ''sender'', ''signatures'', ''state_key'', ''type''}"

definition v1_keeps_content :: "string \<Rightarrow> string \<Rightarrow> bool" where
  "v1_keeps_content t x \<longleftrightarrow>
     t = ''m.room.member'' \<and> x = ''membership'' \<or>
     t = ''m.room.create'' \<and> x = ''creator'' \<or>
     t = ''m.room.join_rules'' \<and> x = ''join_rule'' \<or>
     t = ''m.room.power_levels'' \<and> x \<in> {''ban'', ''events'', ''events_default'', ''kick'', ''redact'', ''state_default'',
       ''users'', ''users_default''} \<or>
     t = ''m.room.aliases'' \<and> x = ''aliases'' \<or>
     t = ''m.room.history_visibility'' \<and> x = ''history_visibility''"

lemma v1_keeps_iff: "v1_keeps k \<longleftrightarrow> k \<in> set kept_keys"
  by (auto simp: v1_keeps_def kept_keys_def keepKeys_v1_def)

lemma v1_keeps_content_iff: "v1_keeps_content t x \<longleftrightarrow> (\<exists>ks. map_of keepContent_v1 t = Some ks \<and> x \<in> set ks)"
  by (auto simp: v1_keeps_content_def keepContent_v1_def)

lemma map_of_kept: "map_of (kept_content t c) x = (if v1_keeps_content t x then map_of c x else None)"
  by (auto simp: map_of_kept_content v1_keeps_content_iff split: option.split)

text \<open>
  C18: redaction. When \<open>RedactObject\<close> returns, its result is a map with, of the fixed list of kept
  members, exactly those the event has, each with its value; \<open>content\<close> is an object whenever the
  event has one, with exactly the listed members for this type of event that the content of the
  event has, each with its value, and empty for every other type and for an event without type;
  \<open>unsigned\<close> is returned beside it.
\<close>

theorem redaction_keeps:
  assumes "go_json (JObj obj)" and "RedactObject (JObj obj) ''v1'' = Ret (p, u)"
  shows "wf_gomap p \<and>
     (\<forall>k. k \<noteq> ''content'' \<longrightarrow> map_of p k = (if v1_keeps k then map_option sort_keys (map_of obj k) else None)) \<and>
     (case map_of obj ''content'' of
        None \<Rightarrow> map_of p ''content'' = None
      | Some v \<Rightarrow> \<exists>c'. map_of p ''content'' = Some (JObj c') \<and> wf_gomap c' \<and>
          (\<forall>x. map_of c' x =
             (case (map_of obj ''type'', v) of
                (Some (JStr t), JObj c) \<Rightarrow> if v1_keeps_content t x then map_option sort_keys (map_of c x) else None
              | _ \<Rightarrow> None))) \<and>
     map_option JObj u = map_option sort_keys (map_of obj ''unsigned'')"
proof -
  have wf: "wf_gomap obj" using assms(1) by simp
  note r = redactObjectV1_Ret(1) [OF assms]
  have p: "map_of p k = redacted_member (sorted_members obj) k" for k using r by simp
  have str: "sort_keys v = JStr t \<longleftrightarrow> v = JStr t" and obj: "sort_keys v = JObj c' \<longleftrightarrow> (\<exists>c. v = JObj c \<and> c' = sorted_members c)"
    for v t c' by (cases v; auto)+
  have "map_of p k = (if v1_keeps k then map_option sort_keys (map_of obj k) else None)" if "k \<noteq> ''content''" for k
    using that wf by (simp add: p redacted_member_def v1_keeps_iff map_of_sorted_members)
  moreover have "\<exists>c'. map_of p ''content'' = Some (JObj c') \<and> wf_gomap c' \<and> (\<forall>x. map_of c' x =
             (case (map_of obj ''type'', v) of
                (Some (JStr t), JObj c) \<Rightarrow> if v1_keeps_content t x then map_option sort_keys (map_of c x) else None
              | _ \<Rightarrow> None))" if v: "map_of obj ''content'' = Some v" for v
  proof (cases "\<exists>t c. map_of obj ''type'' = Some (JStr t) \<and> v = JObj c")
    case True
    then obtain t c where tc: "map_of obj ''type'' = Some (JStr t)" "v = JObj c" by blast
    then have "wf_gomap c" using assms(1) v by (fastforce simp: go_json_upto go_json_upto_JObj dest!: map_of_SomeD)
    then show ?thesis using tc v wf
      by (intro exI [of _ "kept_content t (sorted_members c)"])
        (auto simp: p redacted_member_def map_of_sorted_members map_of_kept)
  next
    case False
    then show ?thesis using v wf
      by (intro exI [of _ "[]"])
        (auto simp: p redacted_member_def map_of_sorted_members str obj split: option.split json.split)
  qed
  moreover have "map_of p ''content'' = None" if "map_of obj ''content'' = None"
    using that wf by (simp add: p redacted_member_def map_of_sorted_members)
  moreover have "map_option JObj u = map_option sort_keys (map_of obj ''unsigned'')"
    using r wf by (auto simp: map_of_sorted_members split: option.splits)
  ultimately show ?thesis using r by (auto split: option.split)
qed

definition demo_event :: "json gomap" where
  "demo_event = [(''type'', JStr ''m.room.create''), (''x'', JNum 1),
     (''content'', JObj [(''y'', JNull), (''creator'', JStr ''@a:b'')])]"

lemma demo_event_ok: "go_json (JObj demo_event)"
  by code_simp

lemma demo_fresh: "map_of demo_event ''signatures'' = None"
  by (simp add: demo_event_def)

lemma demo_event_sorted: "sorted_members demo_event =
    [(''content'', JObj [(''creator'', JStr ''@a:b''), (''y'', JNull)]), (''type'', JStr ''m.room.create''), (''x'', JNum 1)]"
  by code_simp

text \<open>An event with two kept and one dropped member of its content, for which the order of the keys matters too.\<close>

definition demo_levels :: "json gomap" where
  "demo_levels = [(''type'', JStr ''m.room.power_levels''), (''x'', JNum 1),
     (''content'', JObj [(''users'', JObj []), (''y'', JNull), (''ban'', JNum 50)])]"

lemma demo_levels_ok: "go_json (JObj demo_levels)"
  by code_simp

lemma demo_levels_sorted: "sorted_members demo_levels =
    [(''content'', JObj [(''ban'', JNum 50), (''users'', JObj []), (''y'', JNull)]), (''type'', JStr ''m.room.power_levels''), (''x'', JNum 1)]"
  by code_simp

theorem redaction_keeps_witness:
  "\<exists>p u c. RedactObject (JObj demo_levels) ''v1'' = Ret (p, u) \<and> map_of p ''x'' = None \<and>
     map_of p ''type'' = Some (JStr ''m.room.power_levels'') \<and> map_of p ''content'' = Some (JObj c) \<and>
     map_of c ''ban'' = Some (JNum 50) \<and> map_of c ''users'' = Some (JObj []) \<and> map_of c ''y'' = None"
proof -
  obtain p u where r: "RedactObject (JObj demo_levels) ''v1'' = Ret (p, u)"
    using redactObjectV1_Ret(2) [OF demo_levels_ok]
    by (auto simp: demo_levels_sorted redactable_def object_or_absent_def)
  note k = redaction_keeps [OF demo_levels_ok r]
  have "map_of p ''x'' = None" "map_of p ''type'' = Some (JStr ''m.room.power_levels'')"
    using k [THEN conjunct2, THEN conjunct1] by (simp_all add: v1_keeps_def demo_levels_def)
  moreover obtain c where "map_of p ''content'' = Some (JObj c)"
    "\<forall>x. map_of c x = (if v1_keeps_content ''m.room.power_levels'' x
       then map_option sort_keys (map_of [(''users'', JObj []), (''y'', JNull), (''ban'', JNum 50)] x) else None)"
    using k [THEN conjunct2, THEN conjunct2, THEN conjunct1] by (auto simp: demo_levels_def)
  ultimately show ?thesis using r by (simp add: v1_keeps_content_def sorted_members_def)
qed

text \<open>
  C17: the signature of an event survives redaction. An event signed with \<open>SignEvent\<close>
  verifies, and so does its redacted form: the signature covers only what redaction keeps,
  and the hash of the full content that \<open>SignEvent\<close> added.
\<close>

theorem event_signature_survives_redaction:
  assumes "go_json (JObj obj)" and "map_of obj ''signatures'' = None"
    and "SignEvent C (JObj obj) d k key = Ret m"
    and "utf8_ok d" and "utf8_ok k" and "key_pair C key pub"
    and "map_of keys d = Some dk" and "map_of dk k = Some pub"
  shows "VerifySignatures C (JObj m) keys = Ret () \<and>
    (\<exists>r u. RedactObject (JObj m) ''v1'' = Ret (r, u) \<and> VerifySignatures C (JObj r) keys = Ret ())"
proof -
  have v: "VerifySignatures C (JObj m) keys = Ret ()"
    by (rule SignEvent_verifies [OF assms(1,3,2,4-8)])
  obtain r u where r: "RedactObject (JObj m) ''v1'' = Ret (r, u)"
    using SignEvent_redacts [OF assms(1,3-5)] by blast
  then show ?thesis
    using verify_transfer [OF SignEvent_redact_signed_part [OF assms(1,3) r assms(4,5)] v] v by blast
qed

theorem event_signature_survives_redaction_witness:
  "\<exists>m r u. SignEvent demo_crypto (JObj demo_event) ''d'' ''k'' demo_key = Ret m \<and>
     RedactObject (JObj m) ''v1'' = Ret (r, u) \<and> VerifySignatures demo_crypto (JObj r) demo_keys = Ret ()"
proof -
  obtain m where m: "SignEvent demo_crypto (JObj demo_event) ''d'' ''k'' demo_key = Ret m"
    using SignEvent_total [OF demo_event_ok _ _ demo_fresh, where key = demo_key and d = "''d''" and k = "''k''" and C = demo_crypto]
    by (force simp: demo_event_sorted redactable_def object_or_absent_def demo_key_def)
  then show ?thesis
    using event_signature_survives_redaction [OF demo_event_ok _ m _ _ demo_key_pair, where keys = demo_keys]
    by (simp add: demo_keys_def demo_fresh)
qed
end
