(* ===== verification/ServerKeys.thy ===== *)
theory ServerKeys
  imports Models Signing
begin

text \<open>
  Package \<open>api_models\<close>: the key object of the federation API, how \<open>json.Unmarshal\<close> fills the
  Go structs from a document and how the structs are written again. A Go map that may be nil
  is an option of a map; the embedded pointer of \<open>ServerKeyResult\<close> is an option.
\<close>

subsection \<open>The types\<close>

type_synonym 'v nilmap = "'v gomap option"

record VerifyKey =
  vk_Key :: string

record OldVerifyKey =
  ov_Key :: string
  ov_ExpiredTs :: int

type_synonym Signatures = "string nilmap nilmap"

record ServerKeyResultUnsigned =
  sku_ServerName :: string
  sku_ValidUntilTs :: int
  sku_VerifyKeys :: "VerifyKey nilmap"
  sku_OldVerifyKeys :: "OldVerifyKey nilmap"

record ServerKeyResult =
  skr_Unsigned :: "ServerKeyResultUnsigned option"
  skr_Signatures :: Signatures

text \<open>Reading a nil map finds nothing.\<close>

definition nil_entries :: "'v nilmap \<Rightarrow> 'v gomap" where
  "nil_entries m = (case m of None \<Rightarrow> [] | Some e \<Rightarrow> e)"

subsection \<open>Unmarshal into a struct\<close>

text \<open>
  A member of the document goes to the field of its name, or of a name that differs in case
  only. Of the characters outside ASCII only the long s and the Kelvin sign fold to a letter.
\<close>

fun fold_name :: "string \<Rightarrow> string" where
  "fold_name (a # b # c # s) =
     (if [a, b] = [CHR 0xC5, CHR 0xBF] then CHR ''s'' # fold_name (c # s)
      else if [a, b, c] = [CHR 0xE2, CHR 0x84, CHR 0xAA] then CHR ''k'' # fold_name s
      else (if CHR ''A'' \<le> a \<and> a \<le> CHR ''Z'' then char_of (ord a + 32) else a) # fold_name (b # c # s))"
| "fold_name [a, b] =
     (if [a, b] = [CHR 0xC5, CHR 0xBF] then ''s''
      else (if CHR ''A'' \<le> a \<and> a \<le> CHR ''Z'' then char_of (ord a + 32) else a) # fold_name [b])"
| "fold_name [a] = [if CHR ''A'' \<le> a \<and> a \<le> CHR ''Z'' then char_of (ord a + 32) else a]"
| "fold_name [] = []"

definition field_named :: "string list \<Rightarrow> string \<Rightarrow> string option" where
  "field_named names k =
     (if k \<in> set names then Some k else find (\<lambda>n. fold_name n = fold_name k) names)"

text \<open>
  The decoders take the value already there, which JSON \<open>null\<close> leaves alone except that it
  makes a map nil. \<^term>\<open>None\<close> is the error of a value of the wrong type.
\<close>

definition dec_string :: "json \<Rightarrow> string \<Rightarrow> string option" where
  "dec_string j old = (case j of JNull \<Rightarrow> Some old | JStr s \<Rightarrow> Some s | _ \<Rightarrow> None)"

definition dec_int64 :: "json \<Rightarrow> int \<Rightarrow> int option" where
  "dec_int64 j old = (case j of JNull \<Rightarrow> Some old | JNum i \<Rightarrow> if int64_range i then Some i else None | _ \<Rightarrow> None)"

text \<open>The members of an object in document order; a field or key met again is set again.\<close>

fun dec_members :: "(string \<Rightarrow> json \<Rightarrow> 'a \<Rightarrow> 'a option) \<Rightarrow> (string \<times> json) list \<Rightarrow> 'a \<Rightarrow> 'a option" where
  "dec_members f [] old = Some old"
| "dec_members f ((k, v) # kvs) old =
     (case f k v old of None \<Rightarrow> None | Some new \<Rightarrow> dec_members f kvs new)"

definition dec_map :: "(json \<Rightarrow> 'v option) \<Rightarrow> json \<Rightarrow> 'v nilmap \<Rightarrow> 'v nilmap option" where
  "dec_map elem j old =
     (case j of
        JNull \<Rightarrow> Some None
      | JObj kvs \<Rightarrow> map_option Some (dec_members
          (\<lambda>k v m. map_option (\<lambda>x. AList.update k x m) (elem v)) kvs (nil_entries old))
      | _ \<Rightarrow> None)"

definition dec_struct :: "(string \<Rightarrow> json \<Rightarrow> 'a \<Rightarrow> 'a option) \<Rightarrow> json \<Rightarrow> 'a \<Rightarrow> 'a option" where
  "dec_struct field j old =
     (case j of JNull \<Rightarrow> Some old | JObj kvs \<Rightarrow> dec_members field kvs old | _ \<Rightarrow> None)"

definition dec_VerifyKey :: "json \<Rightarrow> VerifyKey option" where
  "dec_VerifyKey j = dec_struct (\<lambda>k v x.
     (if field_named [''key''] k = Some ''key'' then map_option (\<lambda>s. x\<lparr>vk_Key := s\<rparr>) (dec_string v (vk_Key x))
      else Some x)) j \<lparr>vk_Key = []\<rparr>"

definition dec_OldVerifyKey :: "json \<Rightarrow> OldVerifyKey option" where
  "dec_OldVerifyKey j = dec_struct (\<lambda>k v x.
     (case field_named [''key'', ''expired_ts''] k of
        None \<Rightarrow> Some x
      | Some n \<Rightarrow>
          if n = ''key'' then map_option (\<lambda>s. x\<lparr>ov_Key := s\<rparr>) (dec_string v (ov_Key x))
          else map_option (\<lambda>t. x\<lparr>ov_ExpiredTs := t\<rparr>) (dec_int64 v (ov_ExpiredTs x)))) j
     \<lparr>ov_Key = [], ov_ExpiredTs = 0\<rparr>"

definition dec_Signatures :: "json \<Rightarrow> Signatures \<Rightarrow> Signatures option" where
  "dec_Signatures = dec_map (\<lambda>v. dec_map (\<lambda>s. dec_string s []) v None)"

definition empty_Unsigned :: ServerKeyResultUnsigned where
  "empty_Unsigned = \<lparr>sku_ServerName = [], sku_ValidUntilTs = 0, sku_VerifyKeys = None, sku_OldVerifyKeys = None\<rparr>"

definition server_key_fields :: "string list" where
  "server_key_fields = [''server_name'', ''valid_until_ts'', ''verify_keys'', ''old_verify_keys'', ''signatures'']"

text \<open>A field of the embedded struct allocates it, whatever the value.\<close>

definition dec_server_key_field :: "string \<Rightarrow> json \<Rightarrow> ServerKeyResult \<Rightarrow> ServerKeyResult option" where
  "dec_server_key_field k v x =
     (let u = (case skr_Unsigned x of None \<Rightarrow> empty_Unsigned | Some u \<Rightarrow> u);
          put = map_option (\<lambda>u. x\<lparr>skr_Unsigned := Some u\<rparr>)
      in case field_named server_key_fields k of
           None \<Rightarrow> Some x
         | Some n \<Rightarrow>
             if n = ''server_name'' then put (map_option (\<lambda>s. u\<lparr>sku_ServerName := s\<rparr>) (dec_string v (sku_ServerName u)))
             else if n = ''valid_until_ts'' then put (map_option (\<lambda>t. u\<lparr>sku_ValidUntilTs := t\<rparr>) (dec_int64 v (sku_ValidUntilTs u)))
             else if n = ''verify_keys'' then put (map_option (\<lambda>m. u\<lparr>sku_VerifyKeys := m\<rparr>) (dec_map dec_VerifyKey v (sku_VerifyKeys u)))
             else if n = ''old_verify_keys'' then put (map_option (\<lambda>m. u\<lparr>sku_OldVerifyKeys := m\<rparr>) (dec_map dec_OldVerifyKey v (sku_OldVerifyKeys u)))
             else map_option (\<lambda>m. x\<lparr>skr_Signatures := m\<rparr>) (dec_Signatures v (skr_Signatures x)))"

definition server_key_of_json :: "json \<Rightarrow> ServerKeyResult go" where
  "server_key_of_json j =
     (case dec_struct dec_server_key_field j \<lparr>skr_Unsigned = None, skr_Signatures = None\<rparr> of
        None \<Rightarrow> Fail (Err ''cannot unmarshal into ServerKeyResult'')
      | Some k \<Rightarrow> Ret k)"

definition unmarshal_server_key :: "string \<Rightarrow> ServerKeyResult go" where
  "unmarshal_server_key c = (case json_parse c of None \<Rightarrow> Fail (Err ''invalid JSON'') | Some j \<Rightarrow> server_key_of_json j)"

definition Validate :: "ServerKeyResult \<Rightarrow> unit go" where
  "Validate r =
     (case skr_Unsigned r of
        None \<Rightarrow> Fail (Err ''response carries no server key fields'')
      | Some u \<Rightarrow>
          if sku_ServerName u = [] then Fail (Err ''response has an empty server_name'')
          else if length (nil_entries (sku_VerifyKeys u)) = 0 then Fail (Err ''response has no verify_keys'')
          else Ret ())"

subsection \<open>Marshal a struct\<close>

definition json_of_map :: "('v \<Rightarrow> json) \<Rightarrow> 'v nilmap \<Rightarrow> json" where
  "json_of_map elem m = (case m of None \<Rightarrow> JNull | Some kvs \<Rightarrow> JObj (map (\<lambda>(k, v). (k, elem v)) kvs))"

definition json_of_unsigned :: "ServerKeyResultUnsigned \<Rightarrow> json gomap" where
  "json_of_unsigned u =
     [(''server_name'', JStr (sku_ServerName u)), (''valid_until_ts'', JNum (sku_ValidUntilTs u)),
      (''verify_keys'', json_of_map (\<lambda>k. JObj [(''key'', JStr (vk_Key k))]) (sku_VerifyKeys u)),
      (''old_verify_keys'', json_of_map (\<lambda>k. JObj [(''key'', JStr (ov_Key k)), (''expired_ts'', JNum (ov_ExpiredTs k))])
         (sku_OldVerifyKeys u))]"

definition json_of_server_key :: "ServerKeyResult \<Rightarrow> json" where
  "json_of_server_key k =
     JObj ((case skr_Unsigned k of None \<Rightarrow> [] | Some u \<Rightarrow> json_of_unsigned u) @
       [(''signatures'', json_of_map (json_of_map JStr) (skr_Signatures k))])"

subsection \<open>What decoding guarantees\<close>

definition nilmap_ok :: "('v \<Rightarrow> bool) \<Rightarrow> 'v nilmap \<Rightarrow> bool" where
  "nilmap_ok P m \<longleftrightarrow> wf_gomap (nil_entries m) \<and> (\<forall>(k, v) \<in> set (nil_entries m). utf8_ok k \<and> P v)"

definition verify_key_ok :: "VerifyKey \<Rightarrow> bool" where
  "verify_key_ok v \<longleftrightarrow> utf8_ok (vk_Key v)"

definition old_key_ok :: "OldVerifyKey \<Rightarrow> bool" where
  "old_key_ok v \<longleftrightarrow> utf8_ok (ov_Key v) \<and> num_ok (ov_ExpiredTs v)"

definition unsigned_ok :: "ServerKeyResultUnsigned \<Rightarrow> bool" where
  "unsigned_ok u \<longleftrightarrow> utf8_ok (sku_ServerName u) \<and> num_ok (sku_ValidUntilTs u) \<and>
     nilmap_ok verify_key_ok (sku_VerifyKeys u) \<and> nilmap_ok old_key_ok (sku_OldVerifyKeys u)"

definition server_key_ok :: "ServerKeyResult \<Rightarrow> bool" where
  "server_key_ok k \<longleftrightarrow> (case skr_Unsigned k of None \<Rightarrow> True | Some u \<Rightarrow> unsigned_ok u) \<and>
     nilmap_ok (nilmap_ok utf8_ok) (skr_Signatures k)"

lemma nil_entries_simps [simp]: "nil_entries None = []" "nil_entries (Some m) = m"
  by (simp_all add: nil_entries_def)

lemma nilmap_ok_None [simp]: "nilmap_ok P None"
  by (simp add: nilmap_ok_def)

lemma dec_members_inv:
  "dec_members f kvs x = Some y \<Longrightarrow> P x \<Longrightarrow>
   (\<And>k v x x'. (k, v) \<in> set kvs \<Longrightarrow> f k v x = Some x' \<Longrightarrow> P x \<Longrightarrow> P x') \<Longrightarrow> P y"
proof (induction f kvs x rule: dec_members.induct)
  case (2 f k v kvs x)
  then obtain x' where x': "f k v x = Some x'" "dec_members f kvs x' = Some y" by (auto split: option.splits)
  have "P x'" using 2(4) [OF _ x'(1)] 2(3) by simp
  then show ?case
  proof (rule 2(1) [OF x'])
    show "P b" if "(j, w) \<in> set kvs" "f j w a = Some b" "P a" for j w a b
      using 2(4) [OF _ that(2,3)] that(1) by simp
  qed
qed simp

lemma json_ok_members: "json_ok (JObj kvs) \<Longrightarrow> (k, v) \<in> set kvs \<Longrightarrow> utf8_ok k \<and> json_ok v"
  by (auto simp: list_all_iff)

lemma dec_string_ok: "dec_string j old = Some s \<Longrightarrow> json_ok j \<Longrightarrow> utf8_ok old \<Longrightarrow> utf8_ok s"
  by (cases j) (auto simp: dec_string_def)

lemma num_ok_0 [simp]: "num_ok 0"
  by (simp add: num_ok_def)

lemma dec_int64_ok: "dec_int64 j old = Some i \<Longrightarrow> json_ok j \<Longrightarrow> num_ok old \<Longrightarrow> num_ok i"
  by (cases j) (auto simp: dec_int64_def split: if_splits)

lemma dec_map_ok:
  assumes d: "dec_map elem j old = Some m" and j: "json_ok j" and old: "nilmap_ok P old"
    and elem: "\<And>v x. json_ok v \<Longrightarrow> elem v = Some x \<Longrightarrow> P x"
  shows "nilmap_ok P m"
proof (cases j)
  case (JObj kvs)
  with d obtain es where m: "m = Some es"
      and es: "dec_members (\<lambda>k v m. map_option (\<lambda>x. AList.update k x m) (elem v)) kvs (nil_entries old) = Some es"
    by (auto simp: dec_map_def)
  have "nilmap_ok P (Some es)"
  proof (rule dec_members_inv [OF es, where P = "\<lambda>es. nilmap_ok P (Some es)"])
    show "nilmap_ok P (Some (nil_entries old))" using old by (simp add: nilmap_ok_def)
    fix k v x x'
    assume kv: "(k, v) \<in> set kvs" and "map_option (\<lambda>y. AList.update k y x) (elem v) = Some x'"
      and x: "nilmap_ok P (Some x)"
    then obtain y where y: "elem v = Some y" "x' = AList.update k y x" by auto
    have "utf8_ok k" "json_ok v" using json_ok_members [of kvs k v] j JObj kv by simp_all
    then show "nilmap_ok P (Some x')"
      using x y elem [of v y] set_AList_update [of k y x] by (fastforce simp: nilmap_ok_def)
  qed
  then show ?thesis using m by simp
qed (use d in \<open>auto simp: dec_map_def\<close>)

lemma dec_struct_ok:
  assumes "dec_struct field j old = Some x" and j: "json_ok j" and "P old"
    and f: "\<And>k v x x'. utf8_ok k \<Longrightarrow> json_ok v \<Longrightarrow> field k v x = Some x' \<Longrightarrow> P x \<Longrightarrow> P x'"
  shows "P x"
proof (cases j)
  case (JObj kvs)
  then have d: "dec_members field kvs old = Some x" using assms(1) by (simp add: dec_struct_def)
  show ?thesis
  proof (rule dec_members_inv [OF d, where P = P])
    show "P b" if "(k, v) \<in> set kvs" "field k v a = Some b" "P a" for k v a b
      using f [OF _ _ that(2,3)] json_ok_members [of kvs k v] j JObj that(1) by simp
  qed (rule assms(3))
qed (use assms(1,3) in \<open>auto simp: dec_struct_def\<close>)

lemma dec_VerifyKey_ok:
  assumes "json_ok j" "dec_VerifyKey j = Some x"
  shows "verify_key_ok x"
proof (rule dec_struct_ok [where P = verify_key_ok, OF assms(2) [unfolded dec_VerifyKey_def] assms(1)])
qed (auto simp: verify_key_ok_def dest: dec_string_ok split: if_splits)

lemma dec_OldVerifyKey_ok:
  assumes "json_ok j" "dec_OldVerifyKey j = Some x"
  shows "old_key_ok x"
proof (rule dec_struct_ok [where P = old_key_ok, OF assms(2) [unfolded dec_OldVerifyKey_def] assms(1)])
qed (auto simp: old_key_ok_def dest: dec_string_ok dec_int64_ok split: option.splits if_splits)

lemma dec_maps_ok:
  "dec_map dec_VerifyKey v old = Some m \<Longrightarrow> json_ok v \<Longrightarrow> nilmap_ok verify_key_ok old \<Longrightarrow> nilmap_ok verify_key_ok m"
  "dec_map dec_OldVerifyKey v old' = Some m' \<Longrightarrow> json_ok v \<Longrightarrow> nilmap_ok old_key_ok old' \<Longrightarrow> nilmap_ok old_key_ok m'"
  by (rule dec_map_ok, assumption, assumption, assumption, erule dec_VerifyKey_ok, assumption)
    (rule dec_map_ok, assumption, assumption, assumption, erule dec_OldVerifyKey_ok, assumption)

lemma dec_string_map_ok:
  assumes "dec_map (\<lambda>s. dec_string s []) v None = Some m" "json_ok v"
  shows "nilmap_ok utf8_ok m"
  by (rule dec_map_ok [OF assms]) (auto dest: dec_string_ok)

lemma dec_Signatures_ok:
  assumes "dec_Signatures j old = Some m" "json_ok j" "nilmap_ok (nilmap_ok utf8_ok) old"
  shows "nilmap_ok (nilmap_ok utf8_ok) m"
  by (rule dec_map_ok [OF assms(1) [unfolded dec_Signatures_def] assms(2,3)]) (rule dec_string_map_ok)

lemma empty_Unsigned_ok [simp]: "unsigned_ok empty_Unsigned"
  by (simp add: unsigned_ok_def empty_Unsigned_def)

lemma dec_server_key_field_ok:
  assumes "dec_server_key_field k v x = Some x'" "json_ok v" "server_key_ok x"
  shows "server_key_ok x'"
proof -
  define u where "u = (case skr_Unsigned x of None \<Rightarrow> empty_Unsigned | Some u \<Rightarrow> u)"
  have u: "unsigned_ok u" using assms(3) by (auto simp: u_def server_key_ok_def split: option.splits)
  show ?thesis
    using assms u
    unfolding dec_server_key_field_def Let_def u_def [symmetric]
    by (auto simp: server_key_ok_def unsigned_ok_def split: option.splits if_splits)
      (erule (2) dec_string_ok dec_int64_ok dec_maps_ok dec_Signatures_ok)+
qed

lemma server_key_of_json_ok:
  assumes "server_key_of_json j = Ret k" and j: "json_ok j"
  shows "server_key_ok k"
proof -
  have d: "dec_struct dec_server_key_field j \<lparr>skr_Unsigned = None, skr_Signatures = None\<rparr> = Some k"
    using assms(1) by (auto simp: server_key_of_json_def split: option.splits)
  show ?thesis
    by (rule dec_struct_ok [where P = server_key_ok, OF d j])
      (auto intro: dec_server_key_field_ok, simp add: server_key_ok_def)
qed

lemma unmarshal_server_key_ok: "unmarshal_server_key c = Ret k \<Longrightarrow> server_key_ok k"
  by (auto simp: unmarshal_server_key_def dest: json_parse_ok intro: server_key_of_json_ok split: option.splits)

lemma server_key_no_Panic [simp]: "server_key_of_json j \<noteq> Panic p" "unmarshal_server_key c \<noteq> Panic p"
  by (simp_all add: unmarshal_server_key_def server_key_of_json_def split: option.splits)

lemma Validate_Ret:
  "Validate r = Ret () \<longleftrightarrow> (\<exists>u. skr_Unsigned r = Some u \<and> sku_ServerName u \<noteq> [] \<and> nil_entries (sku_VerifyKeys u) \<noteq> [])"
  by (auto simp: Validate_def split: option.split)

subsection \<open>The structs as JSON\<close>

lemma go_json_upto_simps [simp]: "go_json_upto n JNull" "go_json_upto n (JNum i) = num_ok i"
  by (simp_all add: go_json_upto_def)

lemma go_json_upto_map:
  assumes "nilmap_ok P m" "0 < n" "\<And>v. P v \<Longrightarrow> go_json_upto (n - 1) (elem v)"
  shows "go_json_upto n (json_of_map elem m)"
proof (cases m)
  case (Some kvs)
  have "map fst (map (\<lambda>(k, v). (k, elem v)) kvs) = map fst kvs" by (simp add: comp_def split_def)
  then show ?thesis using assms Some
    by (auto simp: json_of_map_def go_json_upto_JObj nilmap_ok_def wf_gomap_def simp del: map_map)
qed (simp add: json_of_map_def)

lemma go_json_server_key:
  assumes "server_key_ok k"
  shows "go_json (json_of_server_key k)"
proof -
  have vk: "go_json_upto n (JObj [(''key'', JStr (vk_Key v))])" if "0 < n" "verify_key_ok v" for n v
    using that by (simp add: go_json_upto_JObj verify_key_ok_def wf_gomap_def utf8_ok_ascii)
  have ov: "go_json_upto n (JObj [(''key'', JStr (ov_Key v)), (''expired_ts'', JNum (ov_ExpiredTs v))])"
    if "0 < n" "old_key_ok v" for n v
    using that by (simp add: go_json_upto_JObj old_key_ok_def wf_gomap_def utf8_ok_ascii)
  have sigs: "go_json_upto 9999 (json_of_map (json_of_map JStr) (skr_Signatures k))"
    using assms unfolding server_key_ok_def
    by (intro go_json_upto_map [of "nilmap_ok utf8_ok"] go_json_upto_map [of utf8_ok]) auto
  have "go_json_upto 9999 (json_of_map (\<lambda>k. JObj [(''key'', JStr (vk_Key k))]) (sku_VerifyKeys u))"
    "go_json_upto 9999 (json_of_map (\<lambda>k. JObj [(''key'', JStr (ov_Key k)), (''expired_ts'', JNum (ov_ExpiredTs k))]) (sku_OldVerifyKeys u))"
    if "unsigned_ok u" for u
    using that vk ov unfolding unsigned_ok_def
    by (auto intro!: go_json_upto_map [of verify_key_ok] go_json_upto_map [of old_key_ok])
  then show ?thesis using assms sigs
    by (auto simp: json_of_server_key_def json_of_unsigned_def go_json_upto go_json_upto_JObj wf_gomap_def
        server_key_ok_def unsigned_ok_def utf8_ok_ascii split: option.splits)
qed

subsection \<open>Decoding undoes encoding\<close>

lemma dec_members_append:
  "dec_members f (xs @ ys) old = (case dec_members f xs old of None \<Rightarrow> None | Some new \<Rightarrow> dec_members f ys new)"
  by (induction f xs old rule: dec_members.induct) (auto split: option.split)

lemma dec_members_map:
  assumes "\<And>k v. (k, v) \<in> set kvs \<Longrightarrow> elem (enc v) = Some v"
  shows "distinct (map fst (acc @ kvs)) \<Longrightarrow>
    dec_members (\<lambda>k v m. map_option (\<lambda>x. AList.update k x m) (elem v)) (map (\<lambda>(k, v). (k, enc v)) kvs) acc = Some (acc @ kvs)"
  using assms
proof (induction kvs arbitrary: acc)
  case (Cons kv kvs)
  obtain k v where kv: "kv = (k, v)" by force
  have "elem (enc v) = Some v" "k \<notin> fst ` set acc" using Cons.prems kv by auto
  moreover have "dec_members (\<lambda>k v m. map_option (\<lambda>x. AList.update k x m) (elem v)) (map (\<lambda>(k, v). (k, enc v)) kvs)
      (acc @ [(k, v)]) = Some ((acc @ [(k, v)]) @ kvs)"
    by (rule Cons.IH) (use Cons.prems kv in auto)
  ultimately show ?case using kv by (simp add: AList_update_fresh)
qed simp

lemma dec_map_enc:
  assumes "wf_gomap (nil_entries m)" "\<And>k v. (k, v) \<in> set (nil_entries m) \<Longrightarrow> elem (enc v) = Some v"
  shows "dec_map elem (json_of_map enc m) None = Some m"
proof (cases m)
  case (Some kvs)
  then have "dec_members (\<lambda>k v m. map_option (\<lambda>x. AList.update k x m) (elem v)) (map (\<lambda>(k, v). (k, enc v)) kvs) [] = Some ([] @ kvs)"
    using assms by (intro dec_members_map) (simp_all add: wf_gomap_def)
  then show ?thesis using Some by (simp add: dec_map_def json_of_map_def)
qed (simp add: dec_map_def json_of_map_def)

lemma nilmap_ok_wf: "nilmap_ok P m \<Longrightarrow> wf_gomap (nil_entries m)"
  by (simp add: nilmap_ok_def)

lemma num_ok_int64: "num_ok i \<Longrightarrow> int64_range i"
  by (auto simp: num_ok_def int64_range_def)

lemma dec_VerifyKey_enc: "dec_VerifyKey (JObj [(''key'', JStr (vk_Key v))]) = Some v"
  by (simp add: dec_VerifyKey_def dec_struct_def field_named_def dec_string_def)

lemma dec_OldVerifyKey_enc:
  "num_ok (ov_ExpiredTs v) \<Longrightarrow> dec_OldVerifyKey (JObj [(''key'', JStr (ov_Key v)), (''expired_ts'', JNum (ov_ExpiredTs v))]) = Some v"
  by (simp add: dec_OldVerifyKey_def dec_struct_def field_named_def dec_string_def dec_int64_def num_ok_int64)

lemma dec_Signatures_enc:
  assumes "nilmap_ok (nilmap_ok utf8_ok) m"
  shows "dec_Signatures (json_of_map (json_of_map JStr) m) None = Some m"
  unfolding dec_Signatures_def
proof (rule dec_map_enc [OF nilmap_ok_wf [OF assms]])
  fix d s assume "(d, s) \<in> set (nil_entries m)"
  then have "nilmap_ok utf8_ok s" using assms by (auto simp: nilmap_ok_def)
  then show "dec_map (\<lambda>s. dec_string s []) (json_of_map JStr s) None = Some s"
    by (intro dec_map_enc nilmap_ok_wf) (auto simp: dec_string_def)
qed

lemma server_key_struct_roundtrip:
  assumes ok: "server_key_ok k" and u: "skr_Unsigned k = Some u"
  shows "dec_struct dec_server_key_field (json_of_server_key k) \<lparr>skr_Unsigned = None, skr_Signatures = None\<rparr> = Some k"
proof -
  have uok: "unsigned_ok u" using ok u by (simp add: server_key_ok_def)
  have "dec_map dec_VerifyKey (json_of_map (\<lambda>k. JObj [(''key'', JStr (vk_Key k))]) (sku_VerifyKeys u)) None = Some (sku_VerifyKeys u)"
    using uok by (intro dec_map_enc dec_VerifyKey_enc) (auto simp: unsigned_ok_def intro: nilmap_ok_wf)
  moreover have "dec_map dec_OldVerifyKey (json_of_map (\<lambda>k. JObj [(''key'', JStr (ov_Key k)), (''expired_ts'', JNum (ov_ExpiredTs k))])
      (sku_OldVerifyKeys u)) None = Some (sku_OldVerifyKeys u)"
    using uok by (intro dec_map_enc dec_OldVerifyKey_enc) (auto simp: unsigned_ok_def nilmap_ok_def old_key_ok_def)
  moreover have "dec_Signatures (json_of_map (json_of_map JStr) (skr_Signatures k)) None = Some (skr_Signatures k)"
    using ok by (intro dec_Signatures_enc) (simp add: server_key_ok_def)
  moreover have "int64_range (sku_ValidUntilTs u)" using uok by (simp add: unsigned_ok_def num_ok_int64)
  ultimately show ?thesis using u
    by (simp add: json_of_server_key_def json_of_unsigned_def dec_struct_def dec_server_key_field_def
        field_named_def server_key_fields_def dec_string_def dec_int64_def empty_Unsigned_def Let_def)
qed

definition server_key_text :: "ServerKeyResult \<Rightarrow> string" where
  "server_key_text k = json_text (json_of_server_key k)"

interpretation server_key: codec server_key_text
  "\<lambda>c. case unmarshal_server_key c of Ret k \<Rightarrow> Some k | _ \<Rightarrow> None"
  "\<lambda>k. server_key_ok k \<and> skr_Unsigned k \<noteq> None"
proof
  fix k assume k: "server_key_ok k \<and> skr_Unsigned k \<noteq> None"
  then have "json_parse (server_key_text k) = Some (json_of_server_key k)"
    using go_json_server_key [of k] unfolding server_key_text_def go_json_def by (intro json_parse_text) simp_all
  then show "(case unmarshal_server_key (server_key_text k) of Ret k \<Rightarrow> Some k | _ \<Rightarrow> None) = Some k"
    using k server_key_struct_roundtrip by (auto simp: unmarshal_server_key_def server_key_of_json_def)
qed

subsection \<open>Properties\<close>

text \<open>
  C37: key objects round trip. A well-formed key object survives being written as JSON and read
  back: every field, every key and signature, and whether a map was present or nil.
\<close>

theorem server_key_roundtrip:
  assumes "server_key_ok k" and "skr_Unsigned k = Some u"
  shows "unmarshal_server_key (json_text (json_of_server_key k)) = Ret k"
  using server_key.dec_enc [of k] assms by (auto simp: server_key_text_def split: go.splits)

definition demo_server_key :: ServerKeyResult where
  "demo_server_key = \<lparr>skr_Unsigned = Some \<lparr>sku_ServerName = ''s'', sku_ValidUntilTs = 5,
       sku_VerifyKeys = Some [(''k'', \<lparr>vk_Key = ''AA''\<rparr>)], sku_OldVerifyKeys = None\<rparr>,
     skr_Signatures = Some [(''s'', Some [(''k'', ''BB'')])]\<rparr>"

lemma demo_server_key_ok: "server_key_ok demo_server_key"
  by (simp add: demo_server_key_def server_key_ok_def unsigned_ok_def nilmap_ok_def verify_key_ok_def
      wf_gomap_def num_ok_def utf8_ok_ascii)

theorem server_key_roundtrip_witness:
  "unmarshal_server_key (json_text (json_of_server_key demo_server_key)) = Ret demo_server_key"
  by (rule server_key_roundtrip [OF demo_server_key_ok]) (simp add: demo_server_key_def)

text \<open>
  C38: what passes \<open>Validate\<close>. A document that decodes and validates has every part the
  program later uses: the embedded struct is there, the name is not empty, there is a key, all
  maps have distinct keys, all texts are valid UTF-8 and all numbers are exact; a document
  that decodes but names none of the four fields is rejected rather than dereferenced.
\<close>

theorem validated_key_usable:
  assumes "unmarshal_server_key c = Ret k"
  shows "(Validate k = Ret () \<longleftrightarrow> (\<exists>u. skr_Unsigned k = Some u \<and> sku_ServerName u \<noteq> [] \<and>
      nil_entries (sku_VerifyKeys u) \<noteq> [])) \<and> (\<forall>p. Validate k \<noteq> Panic p) \<and>
    server_key_ok k \<and> go_json (json_of_server_key k)"
  using unmarshal_server_key_ok [OF assms] go_json_server_key
  by (auto simp: Validate_Ret) (auto simp: Validate_def split: option.splits if_splits)

theorem validated_key_usable_witness:
  "Validate demo_server_key = Ret () \<and> (\<exists>k. unmarshal_server_key ''{}'' = Ret k \<and> Validate k \<noteq> Ret ())"
proof -
  have "unmarshal_server_key (json_text (json_of_server_key demo_server_key)) = Ret demo_server_key"
    using server_key.dec_enc [of demo_server_key] demo_server_key_ok
    by (auto simp: server_key_text_def demo_server_key_def split: go.splits)
  moreover have "unmarshal_server_key ''{}'' = Ret \<lparr>skr_Unsigned = None, skr_Signatures = None\<rparr>" by code_simp
  ultimately show ?thesis
    using validated_key_usable [of "json_text (json_of_server_key demo_server_key)" demo_server_key]
      validated_key_usable [of "''{}''" "\<lparr>skr_Unsigned = None, skr_Signatures = None\<rparr>"]
    by (simp add: demo_server_key_def)
qed
end
