(* ===== verification/Policy.thy ===== *)
theory Policy
  imports Models
begin

text \<open>
  The scheduling decisions of \<open>keys/notary.go\<close>: how long to stand off from a failing
  origin, when a held record answers a request on its own, and whether an origin may be
  probed. Durations are Go's \<open>time.Duration\<close>, in nanoseconds; timestamps are
  milliseconds. The interface \<open>cooldown\<close> states what a schedule promises, and its lemmas
  bound how often it lets an attempt through.
\<close>

subsection \<open>Durations\<close>

abbreviation Second :: int where "Second \<equiv> 1000000000"
abbreviation Minute :: int where "Minute \<equiv> 60 * Second"
abbreviation Hour :: int where "Hour \<equiv> 60 * Minute"

definition Milliseconds :: "int \<Rightarrow> int" where
  "Milliseconds d = go_div d 1000000"

subsection \<open>The origin backoff\<close>

definition remoteKeyLifespanMs :: int where
  "remoteKeyLifespanMs = 604800000"

definition originBackoffLadder :: "int list" where
  "originBackoffLadder = [5 * Minute, 15 * Minute, 1 * Hour, 6 * Hour, 24 * Hour]"

definition transientOriginBackoff :: int where
  "transientOriginBackoff = 1 * Minute"

definition transientOriginFailureLimit :: int where
  "transientOriginFailureLimit = 2"

definition originBackoff :: "int \<Rightarrow> bool \<Rightarrow> int" where
  "originBackoff failures transient =
     (if transient \<and> failures \<le> transientOriginFailureLimit then transientOriginBackoff
      else let failures = (if failures < 1 then 1 else failures)
           in if int (length originBackoffLadder) < failures
              then originBackoffLadder ! (length originBackoffLadder - 1)
              else originBackoffLadder ! nat (failures - 1))"

text \<open>\<open>errors.As\<close> unwraps the chain of wrapped errors.\<close>

fun isTransientOriginFailure :: "goerr \<Rightarrow> bool" where
  "isTransientOriginFailure (OriginStatus serverName statusCode) = (500 \<le> statusCode)"
| "isTransientOriginFailure (Wrapped msg err) = isTransientOriginFailure err"
| "isTransientOriginFailure (Err msg) = False"

subsection \<open>What a held record is good for\<close>

definition isArchived :: "RemoteServer option \<Rightarrow> int \<Rightarrow> bool" where
  "isArchived s now =
     (case s of None \<Rightarrow> False
      | Some s \<Rightarrow> rs_ObtainedViaNotary s \<noteq> [] \<and> rs_ValidUntilTs s < now)"

definition isFresh :: "int \<Rightarrow> int \<Rightarrow> int \<Rightarrow> int \<Rightarrow> bool" where
  "isFresh updatedTs validUntilTs minValidUntilTs now =
     (let isBeyondLifespan = now > wrap64 (updatedTs + remoteKeyLifespanMs);
          isHalfwayDead = go_div (wrap64 (updatedTs + validUntilTs)) 2 < now;
          isMinimallyAccepted = validUntilTs \<ge> minValidUntilTs
      in isMinimallyAccepted \<and> \<not> isHalfwayDead \<and> \<not> isBeyondLifespan)"

definition shouldProbeOrigin :: "RemoteServer option \<Rightarrow> int \<Rightarrow> bool" where
  "shouldProbeOrigin s now =
     (case s of None \<Rightarrow> True | Some s \<Rightarrow> now \<ge> rs_NextOriginAttemptTs s)"

definition heldSatisfies :: "CachedRemoteKeys option \<Rightarrow> Timestamp \<Rightarrow> bool" where
  "heldSatisfies held minValidUntilTs =
     (case held of None \<Rightarrow> False
      | Some h \<Rightarrow> length (ck_Keys h) > 0 \<and> ck_ValidUntilTs h \<ge> minValidUntilTs)"

subsection \<open>The interface of a cooldown\<close>

text \<open>
  A state sees events at times; some events are attempts that the schedule grants. \<open>due\<close> is
  the earliest time of the next grant. An event that is no grant may forget the deadline only
  once it has passed.
\<close>

locale cooldown =
  fixes step :: "'s \<Rightarrow> 'e \<Rightarrow> 's" and grant :: "'s \<Rightarrow> 'e \<Rightarrow> bool" and time :: "'e \<Rightarrow> int"
    and due :: "'s \<Rightarrow> int" and inv :: "'s \<Rightarrow> bool" and ok :: "'e \<Rightarrow> bool" and gap :: int
  assumes gap_pos: "0 < gap"
    and inv_step: "inv s \<Longrightarrow> ok e \<Longrightarrow> inv (step s e)"
    and grant_due: "inv s \<Longrightarrow> ok e \<Longrightarrow> grant s e \<Longrightarrow> due s \<le> time e"
    and grant_sets: "inv s \<Longrightarrow> ok e \<Longrightarrow> grant s e \<Longrightarrow> time e + gap \<le> due (step s e)"
    and other_keeps: "inv s \<Longrightarrow> ok e \<Longrightarrow> \<not> grant s e \<Longrightarrow> due s \<le> due (step s e) \<or> due s \<le> time e"
begin

fun grants :: "'s \<Rightarrow> 'e list \<Rightarrow> int list" where
  "grants s [] = []"
| "grants s (e # es) = (if grant s e then time e # grants (step s e) es else grants (step s e) es)"

lemma grants_later:
  "inv s \<Longrightarrow> list_all ok es \<Longrightarrow> sorted (map time es) \<Longrightarrow>
   l \<le> due s \<or> (\<forall>e \<in> set es. l \<le> time e) \<Longrightarrow> \<forall>t \<in> set (grants s es). l \<le> t"
proof (induction es arbitrary: s)
  case (Cons e es)
  have t: "inv s" "ok e" and later: "\<forall>x \<in> set es. time e \<le> time x"
    and es: "list_all ok es" "sorted (map time es)" using Cons.prems by simp_all
  note i = inv_step [OF t]
  show ?case
  proof (cases "grant s e")
    case True
    have "l \<le> time e" using grant_due [OF t True] Cons.prems(4) by auto
    moreover from this have "l \<le> due (step s e)" using grant_sets [OF t True] gap_pos by linarith
    then have "\<forall>t \<in> set (grants (step s e) es). l \<le> t" by (intro Cons.IH [OF i es] disjI1)
    ultimately show ?thesis using True by auto
  next
    case False
    have "l \<le> due (step s e) \<or> (\<forall>x \<in> set es. l \<le> time x)"
      using other_keeps [OF t False] Cons.prems(4) later by (auto intro: order_trans)
    from Cons.IH [OF i es this] show ?thesis using False by simp
  qed
qed simp

lemma grants_spaced:
  "inv s \<Longrightarrow> list_all ok es \<Longrightarrow> sorted (map time es) \<Longrightarrow> sorted_wrt (\<lambda>t u. t + gap \<le> u) (grants s es)"
proof (induction es arbitrary: s)
  case (Cons e es)
  have t: "inv s" "ok e" and es: "list_all ok es" "sorted (map time es)" using Cons.prems by simp_all
  note i = inv_step [OF t]
  have "\<forall>u \<in> set (grants (step s e) es). time e + gap \<le> u" if "grant s e"
    using grants_later [OF i es] grant_sets [OF t that] by blast
  with Cons.IH [OF i es] show ?case by simp
qed simp

lemma spaced_bound:
  "sorted_wrt (\<lambda>t u. t + gap \<le> u) ts \<Longrightarrow> \<forall>t \<in> set ts. a \<le> t \<and> t \<le> b \<Longrightarrow> ts \<noteq> [] \<Longrightarrow>
   (int (length ts) - 1) * gap \<le> b - a"
proof (induction ts arbitrary: a)
  case (Cons t ts)
  show ?case
  proof (cases "ts = []")
    case False
    have "(int (length ts) - 1) * gap \<le> b - (t + gap)"
      using Cons.prems False by (intro Cons.IH) simp_all
    then show ?thesis using Cons.prems(2) by (simp add: algebra_simps)
  qed (use Cons.prems in auto)
qed simp

text \<open>In any window of length \<open>w\<close> at most \<open>w div gap + 1\<close> attempts are granted.\<close>

lemma grants_bounded:
  assumes "inv s" "list_all ok es" "sorted (map time es)" "\<forall>t \<in> set (grants s es). a \<le> t \<and> t \<le> b" "a \<le> b"
  shows "int (length (grants s es)) \<le> (b - a) div gap + 1"
proof (cases "grants s es = []")
  case True
  then show ?thesis using assms(5) gap_pos pos_imp_zdiv_nonneg_iff [of gap "b - a"] by simp
next
  case False
  from spaced_bound [OF grants_spaced [OF assms(1-3)] assms(4) False]
  have "(int (length (grants s es)) - 1) * gap div gap \<le> (b - a) div gap"
    using gap_pos by (intro zdiv_mono1) auto
  then show ?thesis using gap_pos by simp
qed

end

subsection \<open>Facts about the decisions\<close>

lemma originBackoff_unfold:
  "originBackoff failures transient =
     (if transient \<and> failures \<le> 2 then 1 * Minute
      else if failures \<le> 1 then 5 * Minute
      else if failures = 2 then 15 * Minute
      else if failures = 3 then 1 * Hour
      else if failures = 4 then 6 * Hour
      else 24 * Hour)"
  by (auto simp: originBackoff_def originBackoffLadder_def transientOriginBackoff_def
      transientOriginFailureLimit_def Let_def nth_Cons')

lemma originBackoff_range:
  "1 * Minute \<le> originBackoff failures transient \<and> originBackoff failures transient \<le> 24 * Hour"
  by (simp add: originBackoff_unfold)

lemma Milliseconds_mono: "0 \<le> a \<Longrightarrow> a \<le> b \<Longrightarrow> Milliseconds a \<le> Milliseconds b"
  by (simp add: Milliseconds_def go_div_nonneg zdiv_mono1)

lemma originBackoff_ms:
  "60000 \<le> Milliseconds (originBackoff failures transient) \<and>
   Milliseconds (originBackoff failures transient) \<le> 86400000"
  by (simp add: originBackoff_unfold Milliseconds_def go_div_nonneg)

text \<open>What \<open>isFresh\<close> decides while the sum of the two timestamps stays in range.\<close>

lemma isFresh_iff:
  assumes "0 \<le> u" "0 \<le> v" "u + v < 2 ^ 63" "u + remoteKeyLifespanMs < 2 ^ 63"
  shows "isFresh u v m now \<longleftrightarrow> m \<le> v \<and> now \<le> (u + v) div 2 \<and> now \<le> u + remoteKeyLifespanMs"
  using assms by (auto simp: isFresh_def Let_def int64_range_def go_div_nonneg remoteKeyLifespanMs_def)

lemma isFresh_valid: "0 \<le> u \<Longrightarrow> 0 \<le> v \<Longrightarrow> u + v < 2 ^ 63 \<Longrightarrow> u + remoteKeyLifespanMs < 2 ^ 63 \<Longrightarrow>
  u \<le> now \<Longrightarrow> isFresh u v m now \<Longrightarrow> now \<le> v"
  using isFresh_iff [of u v m now] by presburger

text \<open>
  The sum of a plausible \<open>updated_ts\<close> and the largest \<open>valid_until_ts\<close> overflows: such a
  record is never fresh.
\<close>

lemma wrap64_overflow: "2 ^ 63 \<le> x \<Longrightarrow> x < 2 ^ 64 \<Longrightarrow> wrap64 x = x - 2 ^ 64"
proof -
  assume x: "2 ^ 63 \<le> x" "x < 2 ^ 64"
  have "(x + 2 ^ 63) mod 2 ^ 64 = ((x - 2 ^ 63) + 2 ^ 64) mod 2 ^ 64"
    by (rule arg_cong [where f = "\<lambda>y. y mod 2 ^ 64"]) simp
  also have "\<dots> = x - 2 ^ 63" using x by (simp only: mod_add_self2) (simp add: mod_pos_pos_trivial)
  finally show ?thesis by (simp add: wrap64_def)
qed

lemma isFresh_overflow:
  assumes "0 < u" "int64_range u" "int64_range v" "2 ^ 63 \<le> u + v" "0 \<le> now"
  shows "\<not> isFresh u v m now"
proof -
  have "u + v < 2 ^ 64 - 1" using assms(2,3) by (simp add: int64_range_def)
  then have "wrap64 (u + v) < - 1" using wrap64_overflow [OF assms(4)] by simp
  moreover have "x < - 1 \<Longrightarrow> go_div x 2 < 0" for x by (simp add: go_div2_less_iff) presburger
  ultimately have "go_div (wrap64 (u + v)) 2 < now" using assms(5) by fastforce
  then show ?thesis by (simp add: isFresh_def Let_def)
qed

subsection \<open>Properties\<close>

text \<open>
  C28: the origin backoff. However an origin failed and however often, the standoff lies
  between one minute and a day, it never shrinks as failures accumulate, a failure that
  proves the host up never costs more than one that does not, and five consecutive failures
  already earn the full day.
\<close>

theorem backoff_bounds:
  "1 * Minute \<le> originBackoff failures transient \<and> originBackoff failures transient \<le> 24 * Hour \<and>
   (failures \<le> failures' \<longrightarrow> originBackoff failures transient \<le> originBackoff failures' transient) \<and>
   originBackoff failures True \<le> originBackoff failures False \<and>
   (5 \<le> failures \<longrightarrow> originBackoff failures transient = 24 * Hour) \<and>
   (originBackoff failures transient < 5 * Minute \<longleftrightarrow> transient \<and> failures \<le> 2)"
  by (simp add: originBackoff_unfold)

theorem backoff_bounds_witness: "originBackoff 3 True \<le> originBackoff 4 True \<and> originBackoff 5 True = 24 * Hour"
  using backoff_bounds [of 3 True 4] backoff_bounds [of 5 True 5] by simp

text \<open>
  Freshness. While the two timestamps do not overflow, a held record is served without a
  probe exactly when it satisfies the request, has not passed the middle of its validity and
  is at most seven days old; so a record served as fresh has not expired.
\<close>

theorem fresh_means_valid:
  assumes "0 \<le> u" and "u \<le> now" and "0 \<le> v" and "u + v < 2 ^ 63" and "u + remoteKeyLifespanMs < 2 ^ 63"
  shows "(isFresh u v m now \<longleftrightarrow> m \<le> v \<and> now \<le> (u + v) div 2 \<and> now - u \<le> 7 * 24 * 3600 * 1000) \<and>
    (isFresh u v m now \<longrightarrow> now \<le> v)"
  using isFresh_iff [OF assms(1,3,4,5)] isFresh_valid [OF assms(1,3,4,5,2)]
  by (auto simp: remoteKeyLifespanMs_def)

theorem fresh_means_valid_witness: "isFresh 1000 5000 4000 3000 \<and> \<not> isFresh 1000 5000 4000 3001"
  using fresh_means_valid [of 1000 3000 5000 4000] fresh_means_valid [of 1000 3001 5000 4000]
  by (simp add: remoteKeyLifespanMs_def)
end
