(* ===== verification/Federation.thy ===== *)
theory Federation
  imports ServerKeys Policy
begin

text \<open>
  The parts of \<open>federation/federation.go\<close> that decide without touching the network: the
  bounded read of a response body, the classification of a \<open>.well-known\<close> answer, the check of
  a delegation and the lifetime its headers ask for. \<open>is.IP\<close> and \<open>is.RequestURI\<close> belong to
  another package and are parameters.
\<close>

subsection \<open>Responses\<close>

text \<open>A body delivers its bytes; then it ends, or its reader reports an error.\<close>

record http_response =
  hr_StatusCode :: int
  hr_CacheControl :: string
  hr_bytes :: string
  hr_broken :: bool

definition maxResponseBytes :: nat where
  "maxResponseBytes = 2 ^ 20"

definition ReadResponseBody :: "http_response \<Rightarrow> string go" where
  "ReadResponseBody r =
     (let b = take (maxResponseBytes + 1) (hr_bytes r) in
      if hr_broken r \<and> length (hr_bytes r) < maxResponseBytes + 1 then Fail (Err ''unexpected EOF'')
      else if length b > maxResponseBytes then Fail (Err ''response body exceeds the limit'')
      else Ret b)"

subsection \<open>Addresses\<close>

text \<open>\<open>net.SplitHostPort\<close>: the callers tell a missing port from the other errors.\<close>

datatype hostport = HostPort string string | MissingPort | BadAddress

definition last_colon :: "string \<Rightarrow> (string \<times> string) option" where
  "last_colon s =
     (let after = takeWhile (\<lambda>c. c \<noteq> CHR '':'') (rev s) in
      if CHR '':'' \<in> set s
      then Some (take (length s - length after - 1) s, rev after) else None)"

definition SplitHostPort :: "string \<Rightarrow> hostport" where
  "SplitHostPort s =
     (case last_colon s of
        None \<Rightarrow> MissingPort
      | Some (before, port) \<Rightarrow>
          if hd s = CHR ''['' then
            (if CHR '']'' \<notin> set s then BadAddress
             else let end = length (takeWhile (\<lambda>c. c \<noteq> CHR '']'') s) in
               if end + 1 = length s then MissingPort
               else if end + 1 \<noteq> length before then
                 (if s ! (end + 1) = CHR '':'' then BadAddress else MissingPort)
               else if CHR ''['' \<in> set (drop 1 s) \<or> CHR '']'' \<in> set (drop (end + 1) s) then BadAddress
               else HostPort (drop 1 (take end s)) port)
          else if CHR '':'' \<in> set before then BadAddress
          else if CHR ''['' \<in> set s \<or> CHR '']'' \<in> set s then BadAddress
          else HostPort before port)"

text \<open>\<open>strconv.Atoi\<close>: an optional sign and decimal digits, within 64 bits.\<close>

definition Atoi :: "string \<Rightarrow> int option" where
  "Atoi s =
     (let (neg, ds) = (case s of c # r \<Rightarrow> (if c = CHR ''-'' then (True, r) else if c = CHR ''+'' then (False, r) else (False, s))
                       | [] \<Rightarrow> (False, []));
          i = int (fst (read_digits 0 ds));
          i = (if neg then - i else i)
      in if ds = [] \<or> snd (read_digits 0 ds) \<noteq> [] \<or> \<not> int64_range i then None else Some i)"

definition contains_any :: "string \<Rightarrow> string \<Rightarrow> bool" where
  "contains_any s chars \<longleftrightarrow> list_ex (\<lambda>c. c \<in> set chars) s"

definition isUsableDelegation :: "(string \<Rightarrow> bool) \<Rightarrow> (string \<Rightarrow> bool) \<Rightarrow> string \<Rightarrow> bool" where
  "isUsableDelegation is_IP is_RequestURI addr =
     (if addr = [] then False
      else let check = (\<lambda>host port.
             if trim_space host = [] then False
             else if \<not> is_IP host \<and>
               (contains_any host (''/'' @ [backslash] @ '' '' @ [CHR 0x09] @ '':'') \<or> \<not> is_RequestURI (''https://'' @ host))
             then False
             else (case Atoi port of None \<Rightarrow> False | Some p \<Rightarrow> 0 < p \<and> p \<le> 65535))
      in case SplitHostPort addr of
           HostPort host port \<Rightarrow> check host port
         | MissingPort \<Rightarrow> check addr ''8448''
         | BadAddress \<Rightarrow> False)"

subsection \<open>Lifetimes\<close>

definition discoveryValidTtl :: int where "discoveryValidTtl = 24 * Hour"
definition discoveryAbsentTtl :: int where "discoveryAbsentTtl = 1 * Hour"
definition discoveryFailedTtl :: int where "discoveryFailedTtl = 5 * Minute"
definition discoveryMinTtl :: int where "discoveryMinTtl = 1 * Hour"
definition discoveryMaxTtl :: int where "discoveryMaxTtl = 48 * Hour"

fun ttl_directives :: "string list \<Rightarrow> int" where
  "ttl_directives [] = discoveryValidTtl"
| "ttl_directives (directive # ds) =
     (let directive = trim_space directive in
      if directive = ''no-store'' \<or> directive = ''no-cache'' then discoveryMinTtl
      else if \<not> has_prefix ''max-age='' directive then ttl_directives ds
      else case Atoi (trim_prefix ''max-age='' directive) of
             None \<Rightarrow> ttl_directives ds
           | Some seconds \<Rightarrow>
               if seconds \<le> 0 then ttl_directives ds
               else let age = wrap64 (seconds * Second) in
                 if age < discoveryMinTtl then discoveryMinTtl
                 else if age > discoveryMaxTtl then discoveryMaxTtl
                 else age)"

definition wellKnownTtlFrom :: "string \<Rightarrow> int" where
  "wellKnownTtlFrom cache_control = ttl_directives (split_on (CHR '','') cache_control)"

subsection \<open>The verdict on a well-known answer\<close>

datatype wellKnownOutcome = wellKnownFound | wellKnownAbsent | wellKnownFailed

text \<open>\<open>json.Unmarshal\<close> into \<open>wellknownServerResponse\<close>: its one field.\<close>

definition unmarshal_wellknown :: "string \<Rightarrow> string option" where
  "unmarshal_wellknown c =
     (case json_parse c of
        None \<Rightarrow> None
      | Some j \<Rightarrow> dec_struct (\<lambda>k v x. if field_named [''m.server''] k = Some ''m.server'' then dec_string v x else Some x) j [])"

definition classifyWellKnown ::
  "(string \<Rightarrow> bool) \<Rightarrow> (string \<Rightarrow> bool) \<Rightarrow> http_response go \<Rightarrow> string \<times> wellKnownOutcome \<times> int" where
  "classifyWellKnown is_IP is_RequestURI r =
     (let failed = ([], wellKnownFailed, discoveryFailedTtl) in
      case r of
        Ret r \<Rightarrow>
          if hr_StatusCode r = 404 \<or> hr_StatusCode r = 410 then ([], wellKnownAbsent, discoveryAbsentTtl)
          else if hr_StatusCode r \<noteq> 200 then failed
          else (case ReadResponseBody r of
                  Ret c \<Rightarrow>
                    (case unmarshal_wellknown c of
                       None \<Rightarrow> failed
                     | Some a \<Rightarrow>
                         let addr = trim_space a in
                         if \<not> isUsableDelegation is_IP is_RequestURI addr then failed
                         else (addr, wellKnownFound, wellKnownTtlFrom (hr_CacheControl r)))
                | _ \<Rightarrow> failed)
      | _ \<Rightarrow> failed)"

text \<open>Outcomes are ordered by the value of their constants: the less was learned, the larger.\<close>

fun outcome_rank :: "wellKnownOutcome \<Rightarrow> nat" where
  "outcome_rank wellKnownFound = 0"
| "outcome_rank wellKnownAbsent = 1"
| "outcome_rank wellKnownFailed = 2"

instantiation wellKnownOutcome :: linorder
begin

definition less_eq_wellKnownOutcome :: "wellKnownOutcome \<Rightarrow> wellKnownOutcome \<Rightarrow> bool" where
  "less_eq_wellKnownOutcome a b \<longleftrightarrow> outcome_rank a \<le> outcome_rank b"

definition less_wellKnownOutcome :: "wellKnownOutcome \<Rightarrow> wellKnownOutcome \<Rightarrow> bool" where
  "less_wellKnownOutcome a b \<longleftrightarrow> outcome_rank a < outcome_rank b"

instance
proof
  show "a \<le> b \<Longrightarrow> b \<le> a \<Longrightarrow> a = b" for a b :: wellKnownOutcome
    by (cases a; cases b) (simp_all add: less_eq_wellKnownOutcome_def)
qed (auto simp: less_eq_wellKnownOutcome_def less_wellKnownOutcome_def)

end

subsection \<open>Facts\<close>

lemmas ttl_defs = discoveryValidTtl_def discoveryAbsentTtl_def discoveryFailedTtl_def
  discoveryMinTtl_def discoveryMaxTtl_def

lemma ttl_directives_range: "discoveryMinTtl \<le> ttl_directives ds \<and> ttl_directives ds \<le> discoveryMaxTtl"
  by (induction ds) (auto simp: ttl_defs Let_def split: option.split)

lemma ReadResponseBody_Ret:
  "ReadResponseBody r = Ret b \<longleftrightarrow> \<not> hr_broken r \<and> length (hr_bytes r) \<le> maxResponseBytes \<and> b = hr_bytes r"
  by (auto simp: ReadResponseBody_def Let_def min_def split: if_splits)

lemma ReadResponseBody_no_Panic [simp]: "ReadResponseBody r \<noteq> Panic p"
  by (simp add: ReadResponseBody_def Let_def)

lemma last_colon_append: "CHR '':'' \<notin> set p \<Longrightarrow> last_colon (h @ CHR '':'' # p) = Some (h, p)"
proof -
  assume p: "CHR '':'' \<notin> set p"
  have "takeWhile (\<lambda>c. c \<noteq> CHR '':'') (rev (h @ CHR '':'' # p)) = rev p"
    using p by (simp add: takeWhile_append)
  then show ?thesis by (simp add: last_colon_def)
qed

lemma last_colon_None: "last_colon s = None \<longleftrightarrow> CHR '':'' \<notin> set s"
  by (simp add: last_colon_def Let_def)

lemma SplitHostPort_plain:
  assumes "CHR '':'' \<notin> set h \<union> set p" "CHR ''['' \<notin> set h \<union> set p" "CHR '']'' \<notin> set h \<union> set p"
  shows "SplitHostPort (h @ CHR '':'' # p) = HostPort h p"
proof -
  have "hd (h @ CHR '':'' # p) \<noteq> CHR ''[''" using assms by (cases h) auto
  then show ?thesis using assms by (simp add: SplitHostPort_def last_colon_append)
qed

lemma SplitHostPort_bracketed:
  assumes "CHR '':'' \<notin> set p" "CHR ''['' \<notin> set h \<union> set p" "CHR '']'' \<notin> set h \<union> set p"
  shows "SplitHostPort (''['' @ h @ '']:'' @ p) = HostPort h p"
proof -
  let ?s = "''['' @ h @ '']:'' @ p"
  have c: "last_colon ?s = Some (''['' @ h @ '']'', p)"
    using last_colon_append [of p "''['' @ h @ '']''"] assms(1) by simp
  have "takeWhile (\<lambda>c. c \<noteq> CHR '']'') ?s = ''['' @ h"
    using assms(3) by (simp add: takeWhile_append)
  then show ?thesis using assms c by (simp add: SplitHostPort_def)
qed

lemma SplitHostPort_no_colon: "CHR '':'' \<notin> set s \<Longrightarrow> SplitHostPort s = MissingPort"
  by (simp add: SplitHostPort_def last_colon_None [THEN iffD2])

lemma usable_not_empty: "isUsableDelegation is_IP is_URI addr \<Longrightarrow> addr \<noteq> []"
  by (auto simp: isUsableDelegation_def)

text \<open>A usable delegation names a host that is not blank and a port in range.\<close>

lemma usable_parts:
  assumes "isUsableDelegation is_IP is_URI addr"
  shows "\<exists>h p n. (SplitHostPort addr = HostPort h p \<or> SplitHostPort addr = MissingPort \<and> h = addr \<and> p = ''8448'') \<and>
    trim_space h \<noteq> [] \<and> Atoi p = Some n \<and> 0 < n \<and> n \<le> 65535 \<and>
    (is_IP h \<or> set h \<inter> {CHR ''/'', backslash, CHR '' '', CHR 0x09, CHR '':''} = {} \<and> is_URI (''https://'' @ h))"
  using assms unfolding isUsableDelegation_def Let_def
  by (cases "SplitHostPort addr")
    (auto simp: contains_any_def list_ex_iff split: if_splits option.splits)

lemma classify_cases:
  assumes "classifyWellKnown is_IP is_URI r = (addr, outcome, ttl)"
  shows "outcome = wellKnownFailed \<and> addr = [] \<and> ttl = discoveryFailedTtl \<or>
    outcome = wellKnownAbsent \<and> addr = [] \<and> ttl = discoveryAbsentTtl \<and>
      (\<exists>x. r = Ret x \<and> (hr_StatusCode x = 404 \<or> hr_StatusCode x = 410)) \<or>
    outcome = wellKnownFound \<and> isUsableDelegation is_IP is_URI addr \<and>
      (\<exists>x a. r = Ret x \<and> hr_StatusCode x = 200 \<and> ReadResponseBody x = Ret (hr_bytes x) \<and>
         unmarshal_wellknown (hr_bytes x) = Some a \<and> addr = trim_space a \<and> ttl = wellKnownTtlFrom (hr_CacheControl x))"
proof (cases r)
  case (Ret x)
  show ?thesis
  proof (cases "ReadResponseBody x")
    case c: (Ret c)
    then have "c = hr_bytes x" by (simp add: ReadResponseBody_Ret)
    with assms Ret c show ?thesis
      by (cases "unmarshal_wellknown (hr_bytes x)") (auto simp: classifyWellKnown_def Let_def split: if_splits)
  qed (use assms Ret in \<open>auto simp: classifyWellKnown_def Let_def split: if_splits\<close>)
qed (use assms in \<open>auto simp: classifyWellKnown_def Let_def\<close>)

lemma wellKnownTtlFrom_range: "discoveryAbsentTtl \<le> wellKnownTtlFrom h \<and> wellKnownTtlFrom h \<le> discoveryMaxTtl"
  using ttl_directives_range by (simp add: wellKnownTtlFrom_def ttl_defs)

subsection \<open>Properties\<close>

text \<open>
  A remote host cannot pin or churn the discovery cache. Whatever its Cache-Control header
  says, the lifetime of a delegation it serves lies between one hour and two days.
\<close>

theorem delegation_ttl_clamped:
  "1 * Hour \<le> wellKnownTtlFrom cache_control \<and> wellKnownTtlFrom cache_control \<le> 48 * Hour"
  using wellKnownTtlFrom_range by (simp add: ttl_defs)

text \<open>
  The clamp is not monotone: the multiplication by a second overflows for an absurdly long
  max-age, which then gets the shortest lifetime rather than the longest.
\<close>

lemma huge_max_age_is_short:
  "wellKnownTtlFrom ''max-age=9223372037'' = discoveryMinTtl \<and> wellKnownTtlFrom ''max-age=9223372036'' = discoveryMaxTtl"
proof -
  have t: "trim_space ''max-age=9223372037'' = ''max-age=9223372037''" "trim_space ''max-age=9223372036'' = ''max-age=9223372036''"
    by code_simp+
  have "Atoi ''9223372037'' = Some 9223372037" "Atoi ''9223372036'' = Some 9223372036"
    by (simp_all add: Atoi_def digit_val_def int64_range_def)
  then show ?thesis
    by (simp add: wellKnownTtlFrom_def t Let_def trim_prefix_def ttl_defs wrap64_def)
qed

text \<open>
  The verdict on a well-known answer. A delegation is accepted only from a complete 200
  answer within the size limit whose address is usable; only a 404 or 410 counts as having no
  delegation; everything else is a failure and is remembered for five minutes. The less the
  host told us, the shorter the verdict is kept.
\<close>

theorem wellknown_verdict:
  assumes "classifyWellKnown is_IP is_URI r = (addr, outcome, ttl)"
    and "classifyWellKnown is_IP is_URI r' = (addr', outcome', ttl')"
  shows "(outcome = wellKnownFound \<longleftrightarrow> addr \<noteq> []) \<and>
    (outcome = wellKnownFound \<longrightarrow> isUsableDelegation is_IP is_URI addr \<and>
       (\<exists>x. r = Ret x \<and> hr_StatusCode x = 200 \<and> \<not> hr_broken x \<and> length (hr_bytes x) \<le> 1048576)) \<and>
    (outcome = wellKnownAbsent \<longleftrightarrow> (\<exists>x. r = Ret x \<and> hr_StatusCode x \<in> {404, 410})) \<and>
    (outcome = wellKnownFailed \<longrightarrow> ttl = 5 * Minute) \<and>
    (outcome < outcome' \<longrightarrow> ttl' \<le> ttl)"
proof -
  have absent: "outcome = wellKnownAbsent" if "r = Ret x" "hr_StatusCode x \<in> {404, 410}" for x
    using that assms(1) by (auto simp: classifyWellKnown_def Let_def)
  have ttl: "outcome = wellKnownFound \<longrightarrow> discoveryAbsentTtl \<le> ttl" "outcome = wellKnownAbsent \<longrightarrow> ttl = discoveryAbsentTtl"
      "outcome = wellKnownFailed \<longrightarrow> ttl = discoveryFailedTtl"
    if "classifyWellKnown is_IP is_URI r = (addr, outcome, ttl)" for r addr outcome ttl
    using classify_cases [OF that] wellKnownTtlFrom_range by auto
  have "ttl' \<le> ttl" if "outcome < outcome'"
    using that ttl [OF assms(1)] ttl [OF assms(2)]
    by (cases outcome; cases outcome') (auto simp: less_wellKnownOutcome_def ttl_defs)
  then show ?thesis
    using classify_cases [OF assms(1)] absent usable_not_empty
    by (auto simp: discoveryFailedTtl_def ReadResponseBody_Ret maxResponseBytes_def)
qed

definition demo_404 :: http_response where
  "demo_404 = \<lparr>hr_StatusCode = 404, hr_CacheControl = [], hr_bytes = ''not found'', hr_broken = False\<rparr>"

theorem wellknown_verdict_witness:
  "(case classifyWellKnown (\<lambda>_. False) (\<lambda>_. True) (Ret demo_404) of (addr, outcome, ttl) \<Rightarrow>
      outcome = wellKnownAbsent \<and> addr = [] \<and> 5 * Minute \<le> ttl)"
proof -
  obtain addr outcome ttl where c: "classifyWellKnown (\<lambda>_. False) (\<lambda>_. True) (Ret demo_404) = (addr, outcome, ttl)"
    by (metis prod_cases3)
  moreover have f: "classifyWellKnown (\<lambda>_. False) (\<lambda>_. True) (Fail (Err ''refused'')) = ([], wellKnownFailed, discoveryFailedTtl)"
    by (simp add: classifyWellKnown_def)
  ultimately show ?thesis
    using wellknown_verdict [OF c f] by (auto simp: demo_404_def less_wellKnownOutcome_def discoveryFailedTtl_def)
qed

text \<open>
  Splitting an address. \<open>SplitHostPort\<close> takes apart exactly what was joined: a plain host
  and a port, or a bracketed host that may contain colons; a host without a colon is reported
  as having no port, which is what makes the callers add the default.
\<close>

theorem split_host_port_join:
  assumes "set p \<inter> set '':[]'' = {}" and "set h \<inter> set ''[]'' = {}"
  shows "SplitHostPort (''['' @ h @ '']:'' @ p) = HostPort h p \<and>
    (CHR '':'' \<notin> set h \<longrightarrow> SplitHostPort (h @ '':'' @ p) = HostPort h p \<and> SplitHostPort h = MissingPort)"
  using assms SplitHostPort_bracketed [of p h] SplitHostPort_plain [of h p] SplitHostPort_no_colon [of h]
  by auto

theorem split_host_port_join_witness:
  "SplitHostPort ''[::1]:8448'' = HostPort ''::1'' ''8448'' \<and> SplitHostPort ''a.b'' = MissingPort"
  using split_host_port_join [of "''8448''" "''::1''"] split_host_port_join [of "''8448''" "''a.b''"] by simp

end
