(* ===== verification/NotaryWalks.thy ===== *)
theory NotaryWalks
  imports Policy
begin

text \<open>
  The walk schedule of \<open>keys/notaryWalks.go\<close>, which spaces out notary walks per server. It
  implements the interface \<open>cooldown\<close>.
\<close>

subsection \<open>The schedule\<close>

definition notaryWalkCooldown :: int where
  "notaryWalkCooldown = 15 * Minute"

record walkSchedule =
  ws_cooldownMs :: int
  ws_last :: "int gomap"

definition newWalkSchedule :: "int \<Rightarrow> walkSchedule" where
  "newWalkSchedule duration = \<lparr>ws_cooldownMs = Milliseconds duration, ws_last = []\<rparr>"

definition walkSchedulePruneAt :: nat where
  "walkSchedulePruneAt = 10000"

text \<open>\<open>take\<close> runs under the mutex: the answer and the schedule after the call.\<close>

definition walk_take :: "walkSchedule \<Rightarrow> ServerName \<Rightarrow> int \<Rightarrow> bool \<times> walkSchedule" where
  "walk_take w serverName now =
     (if (case map_of (ws_last w) serverName of None \<Rightarrow> False
          | Some started \<Rightarrow> now < wrap64 (started + ws_cooldownMs w))
      then (False, w)
      else let kept = (if length (ws_last w) \<ge> walkSchedulePruneAt
                       then filter (\<lambda>(name, started). \<not> now \<ge> wrap64 (started + ws_cooldownMs w)) (ws_last w)
                       else ws_last w)
           in (True, w\<lparr>ws_last := AList.update serverName now kept\<rparr>))"

subsection \<open>The schedule is a cooldown\<close>

definition walk_time_ok :: "int \<Rightarrow> bool" where
  "walk_time_ok t \<longleftrightarrow> 0 \<le> t \<and> t < 2 ^ 62"

definition walks_ok :: "walkSchedule \<Rightarrow> bool" where
  "walks_ok w \<longleftrightarrow> wf_gomap (ws_last w) \<and> ws_cooldownMs w = Milliseconds notaryWalkCooldown \<and>
     (\<forall>(n, t) \<in> set (ws_last w). walk_time_ok t)"

definition walk_due :: "ServerName \<Rightarrow> walkSchedule \<Rightarrow> int" where
  "walk_due n w = (case map_of (ws_last w) n of None \<Rightarrow> 0 | Some t \<Rightarrow> t + ws_cooldownMs w)"

lemma cooldown_ms: "Milliseconds notaryWalkCooldown = 900000"
  by (simp add: notaryWalkCooldown_def Milliseconds_def go_div_nonneg)

lemma walk_deadline: "walks_ok w \<Longrightarrow> walk_time_ok t \<Longrightarrow> wrap64 (t + ws_cooldownMs w) = t + ws_cooldownMs w"
  by (simp add: walks_ok_def cooldown_ms walk_time_ok_def int64_range_def)

lemma walk_entry: "walks_ok w \<Longrightarrow> map_of (ws_last w) n = Some t \<Longrightarrow> walk_time_ok t"
  by (auto simp: walks_ok_def dest: map_of_SomeD)

lemma walk_take_cooldown [simp]: "ws_cooldownMs (snd (walk_take w n t)) = ws_cooldownMs w"
  by (simp add: walk_take_def Let_def)

lemma walk_take_last:
  assumes w: "walks_ok w" and t: "walk_time_ok t"
  shows "fst (walk_take w n t) \<longleftrightarrow> walk_due n w \<le> t"
    and "map_of (ws_last (snd (walk_take w n t))) n' =
      (if fst (walk_take w n t) then
         if n' = n then Some t
         else case map_of (ws_last w) n' of None \<Rightarrow> None
              | Some l \<Rightarrow> if length (ws_last w) \<ge> walkSchedulePruneAt \<and> l + ws_cooldownMs w \<le> t then None else Some l
       else map_of (ws_last w) n')"
    and "walks_ok (snd (walk_take w n t))"
proof -
  have wf: "wf_gomap (ws_last w)" using w by (simp add: walks_ok_def)
  have filt: "filter (\<lambda>(name, started). \<not> t \<ge> wrap64 (started + ws_cooldownMs w)) (ws_last w)
      = filter (\<lambda>(name, started). \<not> t \<ge> started + ws_cooldownMs w) (ws_last w)"
    using walk_deadline [OF w] w by (intro filter_cong) (auto simp: walks_ok_def)
  show fst: "fst (walk_take w n t) \<longleftrightarrow> walk_due n w \<le> t"
    using walk_entry [OF w, of n] walk_deadline [OF w] t
    by (auto simp: walk_take_def walk_due_def walk_time_ok_def Let_def split: option.split)
  show "map_of (ws_last (snd (walk_take w n t))) n' =
      (if fst (walk_take w n t) then
         if n' = n then Some t
         else case map_of (ws_last w) n' of None \<Rightarrow> None
              | Some l \<Rightarrow> if length (ws_last w) \<ge> walkSchedulePruneAt \<and> l + ws_cooldownMs w \<le> t then None else Some l
       else map_of (ws_last w) n')"
    unfolding walk_take_def Let_def filt
    using map_of_filter_value [OF wf, of "\<lambda>l. \<not> t \<ge> l + ws_cooldownMs w"]
    by (auto split: option.split)
  show "walks_ok (snd (walk_take w n t))"
  proof -
    have "walk_time_ok l" if "(k, l) \<in> set (ws_last (snd (walk_take w n t)))" for k l
      using that w t unfolding walks_ok_def walk_take_def Let_def
      by (auto split: if_splits dest!: set_AList_update [THEN subsetD])
    moreover have "wf_gomap (ws_last (snd (walk_take w n t)))"
      using wf by (simp add: walk_take_def Let_def wf_gomap_filter)
    ultimately show ?thesis using w by (auto simp: walks_ok_def)
  qed
qed

text \<open>
  A call of \<open>take\<close> is a server, the time the request brings, and the time of the call itself. The
  two differ: \<open>queryRemoteKeys\<close> reads the clock, then may probe the origin, and only then asks for
  a walk, so the times that arrive here are up to the length of a probe in the past and need not
  be in the order of the calls. With a bound \<open>D\<close> on that delay, shorter than the cooldown, the
  schedule is a cooldown of what is left of the fifteen minutes.
\<close>

type_synonym walk_call = "ServerName \<times> int \<times> int"

definition call_ok :: "int \<Rightarrow> walk_call \<Rightarrow> bool" where
  "call_ok D = (\<lambda>(n, t, s). walk_time_ok t \<and> s - D \<le> t \<and> t \<le> s \<and> D < 900000)"

interpretation walks: cooldown
  "\<lambda>w (n', t, s). snd (walk_take w n' t)" "\<lambda>w c. fst c = n \<and> fst (walk_take w n (fst (snd c)))" "\<lambda>(n', t, s). s"
  "walk_due n" walks_ok "call_ok D" "max 1 (900000 - D)"
  for n :: ServerName and D :: int
proof (unfold_locales, goal_cases)
  case 1
  show ?case by simp
next
  case (2 w e)
  then show ?case by (cases e) (simp add: walk_take_last(3) call_ok_def)
next
  case (3 w e)
  then show ?case by (cases e) (auto simp: walk_take_last(1) call_ok_def)
next
  case (4 w e)
  then show ?case using walk_take_last(3) [of w "fst (snd e)" "fst e"]
    by (cases e) (auto simp: walk_due_def walk_take_last(2) walks_ok_def cooldown_ms call_ok_def)
next
  case (5 w e)
  then show ?case
    by (cases e) (auto simp: walk_take_last walk_due_def walk_time_ok_def call_ok_def split: option.split)
qed

subsection \<open>Runs of the schedule\<close>

text \<open>The walks that a sequence of calls starts, for all servers, and when they start for one.\<close>

fun granted_walks :: "walkSchedule \<Rightarrow> walk_call list \<Rightarrow> walk_call list" where
  "granted_walks w [] = []"
| "granted_walks w ((n, t, s) # es) =
     (case walk_take w n t of (granted, w') \<Rightarrow>
        if granted then (n, t, s) # granted_walks w' es else granted_walks w' es)"

definition walk_starts :: "ServerName \<Rightarrow> walkSchedule \<Rightarrow> walk_call list \<Rightarrow> int list" where
  "walk_starts n w es = map (\<lambda>(m, t, s). s) (filter (\<lambda>(m, t, s). m = n) (granted_walks w es))"

lemma walk_starts_grants: "walk_starts n w es = walks.grants n w es"
  by (induction w es rule: granted_walks.induct)
    (auto simp: walk_starts_def walks.grants.simps split: prod.splits)

lemma newWalkSchedule_ok: "walks_ok (newWalkSchedule notaryWalkCooldown)"
  by (simp add: walks_ok_def newWalkSchedule_def)

lemma granted_walks_subset: "set (granted_walks w es) \<subseteq> set es"
proof (induction es arbitrary: w)
  case (Cons e es)
  obtain n t s where "e = (n, t, s)" by (cases e) auto
  then show ?case using Cons [of "snd (walk_take w n t)"]
    by (cases "walk_take w n t") (auto split: if_splits)
qed simp

text \<open>
  C26: notary walks are rate limited. A request asks for a walk at time \<open>s\<close> with the time \<open>t\<close> that
  it read before it probed the origin, at most \<open>D\<close> earlier; the calls come in the order of \<open>s\<close>,
  the times \<open>t\<close> in any order. However the requests for different servers interleave, and whatever
  the pruning of old entries forgets, two walks for one server start at least fifteen minutes less
  \<open>D\<close> apart, and a window of length \<open>b - a\<close> sees at most \<open>(b - a) / (15 min - D) + 1\<close> of them. The
  delay does cost spacing: see \<open>delayed_walks_close\<close>.
\<close>

theorem walks_rate_limited:
  assumes "walks_ok w" and "sorted (map (\<lambda>(m, t, s). s) es)"
    and "\<forall>(m, t, s) \<in> set es. 0 \<le> t \<and> t < 2 ^ 62 \<and> s - D \<le> t \<and> t \<le> s \<and> a \<le> s \<and> s \<le> b"
    and "0 \<le> D" and "D < 900000" and "a \<le> b"
  shows "sorted_wrt (\<lambda>s s'. s + (900000 - D) \<le> s') (walk_starts n w es) \<and>
    int (length (walk_starts n w es)) \<le> (b - a) div (900000 - D) + 1"
proof -
  have ok: "list_all (call_ok D) es"
    using assms(3,5) by (fastforce simp: list_all_iff call_ok_def walk_time_ok_def)
  have "a \<le> s \<and> s \<le> b" if "s \<in> set (walk_starts n w es)" for s
    using that assms(3) granted_walks_subset [of w es] by (fastforce simp: walk_starts_def)
  moreover have "max 1 (900000 - D) = 900000 - D" using assms(5) by simp
  ultimately show ?thesis
    using walks.grants_spaced [OF assms(1) ok assms(2)] walks.grants_bounded [OF assms(1) ok assms(2) _ assms(6)]
    by (simp add: walk_starts_grants)
qed

text \<open>Calls whose times are out of order: the second request for \<open>a\<close> brings an earlier time than the first.\<close>

definition demo_walk_requests :: "walk_call list" where
  "demo_walk_requests = [(''a'', 50, 60), (''a'', 10, 70), (''b'', 75, 75), (''a'', 900040, 900045), (''a'', 900055, 900080)]"

lemma demo_walk_granted:
  "granted_walks (newWalkSchedule notaryWalkCooldown) demo_walk_requests = [(''a'', 50, 60), (''b'', 75, 75), (''a'', 900055, 900080)]"
  by code_simp

theorem walks_rate_limited_witness:
  "walk_starts ''a'' (newWalkSchedule notaryWalkCooldown) demo_walk_requests = [60, 900080] \<and>
   sorted_wrt (\<lambda>s s'. s + 899940 \<le> s') (walk_starts ''a'' (newWalkSchedule notaryWalkCooldown) demo_walk_requests)"
proof -
  have "sorted (map (\<lambda>(m, t, s). s) demo_walk_requests)" by (simp add: demo_walk_requests_def)
  moreover have "\<forall>(m, t, s) \<in> set demo_walk_requests. 0 \<le> t \<and> t < 2 ^ 62 \<and> s - 60 \<le> t \<and> t \<le> s \<and> 0 \<le> s \<and> s \<le> 900080"
    by (simp add: demo_walk_requests_def)
  ultimately have "sorted_wrt (\<lambda>s s'. s + 899940 \<le> s') (walk_starts ''a'' (newWalkSchedule notaryWalkCooldown) demo_walk_requests)"
    using walks_rate_limited [OF newWalkSchedule_ok, of demo_walk_requests 60 0 900080 "''a''"] by simp
  then show ?thesis by (simp add: walk_starts_def demo_walk_granted)
qed

text \<open>
  The spacing really shrinks by the delay: a walk that starts after a probe of almost fifteen
  minutes is on record with the time from before the probe, and the next walk may start a
  millisecond later.
\<close>

lemma delayed_walks_close:
  "walk_starts ''a'' (newWalkSchedule notaryWalkCooldown) [(''a'', 0, 899999), (''a'', 900000, 900000)] = [899999, 900000]"
  by code_simp

text \<open>
  The schedule never starves a server. A request is granted exactly when no walk for the
  server is on record or the last one started at least fifteen minutes ago; pruning changes
  this for no server.
\<close>

theorem walk_granted_iff:
  assumes "walks_ok w" and "0 \<le> t" and "t < 2 ^ 62"
  shows "(fst (walk_take w n t) \<longleftrightarrow> (\<forall>l. map_of (ws_last w) n = Some l \<longrightarrow> l + 900000 \<le> t)) \<and>
    walks_ok (snd (walk_take w n t)) \<and>
    (\<forall>u \<ge> t. u < 2 ^ 62 \<longrightarrow> m \<noteq> n \<longrightarrow>
       fst (walk_take (snd (walk_take w n t)) m u) = fst (walk_take w m u))"
proof -
  have t: "walk_time_ok t" using assms by (simp add: walk_time_ok_def)
  have cd: "ws_cooldownMs w = 900000" using assms(1) by (simp add: walks_ok_def cooldown_ms)
  note l = walk_take_last [OF assms(1) t]
  have "fst (walk_take (snd (walk_take w n t)) m u) = fst (walk_take w m u)"
    if "t \<le> u" "u < 2 ^ 62" "m \<noteq> n" for u
  proof -
    have u: "walk_time_ok u" using that t by (simp add: walk_time_ok_def)
    show ?thesis
      using that walk_take_last(1) [OF assms(1) u] walk_take_last(1) [OF l(3) u] u l(2)
      by (auto simp: walk_due_def walk_time_ok_def split: option.splits)
  qed
  then show ?thesis using l(1,3) t cd by (auto simp: walk_due_def walk_time_ok_def split: option.split)
qed

theorem walk_granted_iff_witness: "fst (walk_take (newWalkSchedule notaryWalkCooldown) ''a'' 7)"
  using walk_granted_iff [OF newWalkSchedule_ok, of 7 "''a''"] by (simp add: newWalkSchedule_def)
end
