(* ===== verification/Db.thy ===== *)
theory Db
  imports Models
begin

text \<open>
  Package \<open>db\<close>: the tables that \<open>db/migrations\<close> creates, the statements of
  \<open>db/queries.go\<close> and the functions of \<open>db/orm.go\<close> that run them. A table is the list of
  its rows; a \<open>SELECT\<close> without \<open>ORDER BY\<close> returns them in the order of the list. Each
  statement may be lost before it reaches the database or cut off after, as the oracle
  \<open>db_fault\<close> of the database says.
\<close>

subsection \<open>The tables\<close>

record self_row =
  sf_key_id :: KeyID
  sf_public_key_b64 :: string
  sf_private_key_b64 :: string
  sf_expires_ts :: Timestamp

record server_row =
  sr_updated_ts :: Timestamp
  sr_valid_until_ts :: Timestamp
  sr_nonstandard_json :: string
  sr_obtained_via_notary :: "string option"
  sr_origin_failures :: int
  sr_next_origin_attempt_ts :: Timestamp

record key_row =
  kr_server_name :: ServerName
  kr_key_id :: KeyID
  kr_public_key_b64 :: string
  kr_expires_ts :: Timestamp

record sig_row =
  gr_server_name :: ServerName
  gr_key_id :: KeyID
  gr_signature_b64 :: string

text \<open>
  A statement works; is lost, with no effect; or is cut: an update that took effect but was
  not acknowledged, a query that delivered its first rows only.
\<close>

datatype fault = Works | Lost | Cut nat

record db =
  self_keys :: "self_row list"
  remote_servers :: "(ServerName \<times> server_row) list"
  remote_keys :: "key_row list"
  remote_signatures :: "sig_row list"
  db_tick :: nat
  db_fault :: "nat \<Rightarrow> fault"

type_synonym 'a dbact = "(db, 'a) act"

subsection \<open>Column types\<close>

text \<open>\<open>VARCHAR(255)\<close> counts characters, that is bytes that do not continue one; text is
  valid UTF-8 without a zero byte.\<close>

definition pg_text :: "string \<Rightarrow> bool" where
  "pg_text s \<longleftrightarrow> utf8_ok s \<and> CHR 0x00 \<notin> set s"

definition varchar_ok :: "string \<Rightarrow> bool" where
  "varchar_ok s \<longleftrightarrow> pg_text s \<and> length (filter (\<lambda>c. \<not> is_cont c) s) \<le> 255"

definition int4_ok :: "int \<Rightarrow> bool" where
  "int4_ok i \<longleftrightarrow> - (2 ^ 31) \<le> i \<and> i < 2 ^ 31"

subsection \<open>Running a statement\<close>

text \<open>
  The text parameters \<open>ps\<close> of a statement are checked by the server before it runs. (The one
  parameter left out is the output of \<open>json.Marshal\<close>, which is valid UTF-8.)
\<close>

definition run_stmt :: "string list \<Rightarrow> (nat option \<Rightarrow> 'a dbact) \<Rightarrow> 'a dbact" where
  "run_stmt ps f d =
     (let d' = d\<lparr>db_tick := Suc (db_tick d)\<rparr> in
      case db_fault d (db_tick d) of
        Lost \<Rightarrow> (Fail (Err ''database connection''), d')
      | Works \<Rightarrow> (if list_all pg_text ps then f None d' else (Fail (Err ''invalid byte sequence''), d'))
      | Cut n \<Rightarrow> (if list_all pg_text ps then f (Some n) d' else (Fail (Err ''invalid byte sequence''), d')))"

definition exec_stmt :: "string list \<Rightarrow> (db \<Rightarrow> db option) \<Rightarrow> unit dbact" where
  "exec_stmt ps f = run_stmt ps (\<lambda>cut d.
     case f d of
       None \<Rightarrow> (Fail (Err ''constraint violation''), d)
     | Some e \<Rightarrow> (if cut = None then Ret () else Fail (Err ''database connection''), e))"

text \<open>\<open>Query\<close>: the rows that arrived, and whether \<open>rows.Err()\<close> would report an error.\<close>

definition query_stmt :: "string list \<Rightarrow> (db \<Rightarrow> 'r list) \<Rightarrow> ('r list \<times> bool) dbact" where
  "query_stmt ps f = run_stmt ps (\<lambda>cut d.
     (Ret (case cut of None \<Rightarrow> (f d, False) | Some n \<Rightarrow> (take n (f d), True)), d))"

text \<open>\<open>QueryRow(..).Scan\<close>: the first row; \<^term>\<open>None\<close> stands for \<open>sql.ErrNoRows\<close>.\<close>

definition query_row :: "string list \<Rightarrow> (db \<Rightarrow> 'r list) \<Rightarrow> 'r option dbact" where
  "query_row ps f = run_stmt ps (\<lambda>cut d.
     (if cut = None then Ret (case f d of [] \<Rightarrow> None | r # _ \<Rightarrow> Some r)
      else Fail (Err ''database connection''), d))"

subsection \<open>The statements\<close>

definition selectActiveSelfKeyIds :: "db \<Rightarrow> KeyID list" where
  "selectActiveSelfKeyIds d = map sf_key_id (filter (\<lambda>r. sf_expires_ts r = 0) (self_keys d))"

definition selectSelfKey :: "KeyID \<Rightarrow> db \<Rightarrow> self_row list" where
  "selectSelfKey i d = filter (\<lambda>r. sf_key_id r = i) (self_keys d)"

definition insertActiveSelfKey :: "KeyID \<Rightarrow> string \<Rightarrow> string \<Rightarrow> db \<Rightarrow> db option" where
  "insertActiveSelfKey i pub priv d =
     (if i \<in> set (map sf_key_id (self_keys d)) \<or> \<not> varchar_ok i \<or> \<not> varchar_ok pub \<or> \<not> varchar_ok priv
      then None
      else Some (d\<lparr>self_keys := self_keys d @
        [\<lparr>sf_key_id = i, sf_public_key_b64 = pub, sf_private_key_b64 = priv, sf_expires_ts = 0\<rparr>]\<rparr>))"

definition selectRemoteServer :: "ServerName \<Rightarrow> db \<Rightarrow> server_row list" where
  "selectRemoteServer n d = map snd (filter (\<lambda>(m, _). m = n) (remote_servers d))"

definition selectRemoteKeys :: "ServerName \<Rightarrow> db \<Rightarrow> key_row list" where
  "selectRemoteKeys n d = filter (\<lambda>r. kr_server_name r = n) (remote_keys d)"

definition selectRemoteSignatures :: "ServerName \<Rightarrow> db \<Rightarrow> sig_row list" where
  "selectRemoteSignatures n d = filter (\<lambda>r. gr_server_name r = n) (remote_signatures d)"

definition deleteRemoteKeys :: "ServerName \<Rightarrow> db \<Rightarrow> db option" where
  "deleteRemoteKeys n d = Some (d\<lparr>remote_keys := filter (\<lambda>r. kr_server_name r \<noteq> n) (remote_keys d)\<rparr>)"

definition deleteRemoteSignatures :: "ServerName \<Rightarrow> db \<Rightarrow> db option" where
  "deleteRemoteSignatures n d =
     Some (d\<lparr>remote_signatures := filter (\<lambda>r. gr_server_name r \<noteq> n) (remote_signatures d)\<rparr>)"

text \<open>An upsert writes its own columns and leaves the others of an existing row alone.\<close>

definition upsertRemoteServer ::
  "ServerName \<Rightarrow> Timestamp \<Rightarrow> Timestamp \<Rightarrow> string \<Rightarrow> string option \<Rightarrow> db \<Rightarrow> db option" where
  "upsertRemoteServer n updated valid j notary d =
     (if \<not> varchar_ok n \<or> \<not> (case notary of None \<Rightarrow> True | Some v \<Rightarrow> varchar_ok v) then None
      else let row = (case map_of (remote_servers d) n of
             Some r \<Rightarrow> r\<lparr>sr_updated_ts := updated, sr_valid_until_ts := valid,
                         sr_nonstandard_json := j, sr_obtained_via_notary := notary\<rparr>
           | None \<Rightarrow> \<lparr>sr_updated_ts = updated, sr_valid_until_ts = valid, sr_nonstandard_json = j,
                      sr_obtained_via_notary = notary, sr_origin_failures = 0, sr_next_origin_attempt_ts = 0\<rparr>)
           in Some (d\<lparr>remote_servers := AList.update n row (remote_servers d)\<rparr>))"

definition noteOriginFailure :: "ServerName \<Rightarrow> Timestamp \<Rightarrow> int \<Rightarrow> Timestamp \<Rightarrow> db \<Rightarrow> db option" where
  "noteOriginFailure n updated failures next_ts d =
     (if \<not> varchar_ok n \<or> \<not> int4_ok failures then None
      else let row = (case map_of (remote_servers d) n of
             Some r \<Rightarrow> r\<lparr>sr_updated_ts := updated, sr_origin_failures := failures,
                         sr_next_origin_attempt_ts := next_ts\<rparr>
           | None \<Rightarrow> \<lparr>sr_updated_ts = updated, sr_valid_until_ts = 0, sr_nonstandard_json = ''{}'',
                      sr_obtained_via_notary = None, sr_origin_failures = failures,
                      sr_next_origin_attempt_ts = next_ts\<rparr>)
           in Some (d\<lparr>remote_servers := AList.update n row (remote_servers d)\<rparr>))"

definition update_server :: "ServerName \<Rightarrow> (server_row \<Rightarrow> server_row) \<Rightarrow> db \<Rightarrow> db" where
  "update_server n f d =
     d\<lparr>remote_servers := map (\<lambda>(m, r). if m = n then (m, f r) else (m, r)) (remote_servers d)\<rparr>"

definition resetOriginProbe :: "ServerName \<Rightarrow> db \<Rightarrow> db option" where
  "resetOriginProbe n d =
     Some (update_server n (\<lambda>r. r\<lparr>sr_origin_failures := 0, sr_next_origin_attempt_ts := 0\<rparr>) d)"

definition invalidateRemoteServer :: "ServerName \<Rightarrow> db \<Rightarrow> db option" where
  "invalidateRemoteServer n d =
     Some (update_server n (\<lambda>r. r\<lparr>sr_valid_until_ts := 0, sr_updated_ts := 0\<rparr>) d)"

definition selectOriginProbeCandidates :: "Timestamp \<Rightarrow> nat \<Rightarrow> db \<Rightarrow> ServerName list" where
  "selectOriginProbeCandidates now limit d =
     map fst (take limit (sort_key (\<lambda>(_, r). sr_next_origin_attempt_ts r)
       (filter (\<lambda>(_, r). 0 < sr_next_origin_attempt_ts r \<and> sr_next_origin_attempt_ts r \<le> now)
         (remote_servers d))))"

definition known_server :: "ServerName \<Rightarrow> db \<Rightarrow> bool" where
  "known_server n d \<longleftrightarrow> n \<in> set (map fst (remote_servers d))"

definition insertRemoteKey :: "key_row \<Rightarrow> db \<Rightarrow> db option" where
  "insertRemoteKey r d =
     (if \<not> known_server (kr_server_name r) d
         \<or> (kr_server_name r, kr_key_id r) \<in> set (map (\<lambda>r. (kr_server_name r, kr_key_id r)) (remote_keys d))
         \<or> \<not> varchar_ok (kr_server_name r) \<or> \<not> varchar_ok (kr_key_id r) \<or> \<not> varchar_ok (kr_public_key_b64 r)
      then None else Some (d\<lparr>remote_keys := remote_keys d @ [r]\<rparr>))"

definition insertRemoteSignature :: "sig_row \<Rightarrow> db \<Rightarrow> db option" where
  "insertRemoteSignature r d =
     (if \<not> known_server (gr_server_name r) d
         \<or> (gr_server_name r, gr_key_id r) \<in> set (map (\<lambda>r. (gr_server_name r, gr_key_id r)) (remote_signatures d))
         \<or> \<not> varchar_ok (gr_server_name r) \<or> \<not> varchar_ok (gr_key_id r) \<or> \<not> varchar_ok (gr_signature_b64 r)
      then None else Some (d\<lparr>remote_signatures := remote_signatures d @ [r]\<rparr>))"

definition has_keys :: "db \<Rightarrow> ServerName \<Rightarrow> bool" where
  "has_keys d n \<longleftrightarrow> (\<exists>r \<in> set (remote_keys d). kr_server_name r = n)"

definition countKnownServers :: "db \<Rightarrow> int \<times> int \<times> int" where
  "countKnownServers d =
     (let count = (\<lambda>P. int (length (filter P (remote_servers d)))) in
      (count (\<lambda>(n, r). sr_obtained_via_notary r = None \<and> has_keys d n),
       count (\<lambda>(n, r). sr_obtained_via_notary r \<noteq> None),
       count (\<lambda>(n, r). sr_obtained_via_notary r = None \<and> \<not> has_keys d n)))"

subsection \<open>The functions of orm.go\<close>

text \<open>
  Of the functions that return a list of rows only \<open>GetOriginProbeCandidates\<close> looks at
  \<open>rows.Err()\<close> after the loop; the others return the rows that arrived.
\<close>

definition rows_unchecked :: "('r list \<times> bool) dbact \<Rightarrow> ('r \<Rightarrow> 'a) \<Rightarrow> 'a list dbact" where
  "rows_unchecked q scan = act_bind q (\<lambda>(rows, _). act_ret (map scan rows))"

definition scan_own_key :: "self_row \<Rightarrow> OwnKey" where
  "scan_own_key r = \<lparr>ok_ID = sf_key_id r, ok_PublicKey = sf_public_key_b64 r,
     ok_PrivateKey = sf_private_key_b64 r, ok_ExpiresTs = sf_expires_ts r\<rparr>"

definition GetAllOwnKeys :: "OwnKey list dbact" where
  "GetAllOwnKeys = rows_unchecked (query_stmt [] self_keys) scan_own_key"

definition GetOwnActiveKeyIds :: "KeyID list dbact" where
  "GetOwnActiveKeyIds = rows_unchecked (query_stmt [] selectActiveSelfKeyIds) (\<lambda>i. i)"

definition GetOwnKey :: "KeyID \<Rightarrow> OwnKey option dbact" where
  "GetOwnKey i = act_bind (query_row [i] (selectSelfKey i)) (\<lambda>r.
     act_ret (map_option (\<lambda>r. (scan_own_key r)\<lparr>ok_ID := i\<rparr>) r))"

definition AddOwnActiveKey :: "KeyID \<Rightarrow> string \<Rightarrow> string \<Rightarrow> unit dbact" where
  "AddOwnActiveKey i publicKey privateKey =
     exec_stmt [i, publicKey, privateKey] (insertActiveSelfKey i publicKey privateKey)"

definition GetRemoteServerMetadata :: "ServerName \<Rightarrow> RemoteServer option dbact" where
  "GetRemoteServerMetadata n = act_bind (query_row [n] (selectRemoteServer n)) (\<lambda>row.
     (case row of
        None \<Rightarrow> act_ret None
      | Some r \<Rightarrow> (\<lambda>d. (go_bind (unmarshal_map (sr_nonstandard_json r)) (\<lambda>addl. Ret (Some
          \<lparr>rs_ServerName = n, rs_UpdatedTs = sr_updated_ts r, rs_ValidUntilTs = sr_valid_until_ts r,
           rs_NonStandardJSON = addl,
           rs_ObtainedViaNotary = (case sr_obtained_via_notary r of None \<Rightarrow> [] | Some v \<Rightarrow> v),
           rs_OriginFailures = sr_origin_failures r,
           rs_NextOriginAttemptTs = sr_next_origin_attempt_ts r\<rparr>)), d))))"

definition UpsertRemoteServer ::
  "ServerName \<Rightarrow> Timestamp \<Rightarrow> Timestamp \<Rightarrow> AdditionalJSON \<Rightarrow> string \<Rightarrow> unit dbact" where
  "UpsertRemoteServer n updatedTs validUntilTs additionalJson obtainedViaNotary =
     (let j = json_marshal (JObj additionalJson);
          notary = (if obtainedViaNotary \<noteq> [] then Some obtainedViaNotary else None)
      in exec_stmt [n, obtainedViaNotary] (upsertRemoteServer n updatedTs validUntilTs j notary))"

definition NoteOriginFailure :: "ServerName \<Rightarrow> Timestamp \<Rightarrow> int \<Rightarrow> Timestamp \<Rightarrow> unit dbact" where
  "NoteOriginFailure n updatedTs failures nextAttemptTs =
     exec_stmt [n] (noteOriginFailure n updatedTs failures nextAttemptTs)"

definition GetOriginProbeCandidates :: "Timestamp \<Rightarrow> nat \<Rightarrow> ServerName list dbact" where
  "GetOriginProbeCandidates now limit =
     act_bind (query_stmt [] (selectOriginProbeCandidates now limit)) (\<lambda>(rows, err) d.
       (if err then Fail (Err ''database connection'') else Ret rows, d))"

definition ResetOriginProbe :: "ServerName \<Rightarrow> unit dbact" where
  "ResetOriginProbe n = exec_stmt [n] (resetOriginProbe n)"

definition InvalidateRemoteServer :: "ServerName \<Rightarrow> unit dbact" where
  "InvalidateRemoteServer n = exec_stmt [n] (invalidateRemoteServer n)"

definition DeleteRemoteServerKeys :: "ServerName \<Rightarrow> unit dbact" where
  "DeleteRemoteServerKeys n = exec_stmt [n] (deleteRemoteKeys n)"

definition DeleteRemoteServerSignatures :: "ServerName \<Rightarrow> unit dbact" where
  "DeleteRemoteServerSignatures n = exec_stmt [n] (deleteRemoteSignatures n)"

definition AddRemoteServerKey :: "ServerName \<Rightarrow> KeyID \<Rightarrow> string \<Rightarrow> Timestamp \<Rightarrow> unit dbact" where
  "AddRemoteServerKey n keyId publicKey expiresTs =
     exec_stmt [n, keyId, publicKey] (insertRemoteKey
       \<lparr>kr_server_name = n, kr_key_id = keyId, kr_public_key_b64 = publicKey, kr_expires_ts = expiresTs\<rparr>)"

definition AddRemoteServerSignature :: "ServerName \<Rightarrow> KeyID \<Rightarrow> string \<Rightarrow> unit dbact" where
  "AddRemoteServerSignature n keyId signature =
     exec_stmt [n, keyId, signature] (insertRemoteSignature
       \<lparr>gr_server_name = n, gr_key_id = keyId, gr_signature_b64 = signature\<rparr>)"

definition GetAllRemoteServerKeys :: "ServerName \<Rightarrow> RemoteKey list dbact" where
  "GetAllRemoteServerKeys n = rows_unchecked (query_stmt [n] (selectRemoteKeys n)) (\<lambda>r.
     \<lparr>rk_ServerName = n, rk_ID = kr_key_id r, rk_PublicKey = kr_public_key_b64 r, rk_ExpiresTs = kr_expires_ts r\<rparr>)"

definition GetAllRemoteServerSignatures :: "ServerName \<Rightarrow> RemoteSignature list dbact" where
  "GetAllRemoteServerSignatures n = rows_unchecked (query_stmt [n] (selectRemoteSignatures n)) (\<lambda>r.
     \<lparr>sg_ServerName = n, sg_KeyID = gr_key_id r, sg_Signature = gr_signature_b64 r\<rparr>)"

definition CountKnownServers :: "(int \<times> int \<times> int) dbact" where
  "CountKnownServers = act_bind (query_row [] (\<lambda>d. [countKnownServers d])) (\<lambda>r d.
     (case r of None \<Rightarrow> Fail (Err ''sql: no rows'') | Some c \<Rightarrow> Ret c, d))"

subsection \<open>Statements that ran\<close>

abbreviation tick :: "db \<Rightarrow> db" where
  "tick d \<equiv> d\<lparr>db_tick := Suc (db_tick d)\<rparr>"

text \<open>The next statement reaches the database and is acknowledged.\<close>

definition db_up :: "db \<Rightarrow> bool" where
  "db_up d \<longleftrightarrow> db_fault d (db_tick d) = Works"

lemma exec_stmt_Ret:
  "exec_stmt ps f d = (Ret (), d') \<longleftrightarrow> db_up d \<and> list_all pg_text ps \<and> f (tick d) = Some d'"
  by (auto simp: exec_stmt_def run_stmt_def db_up_def Let_def split: fault.split option.split)

lemma exec_stmt_up:
  "db_up d \<Longrightarrow> list_all pg_text ps \<Longrightarrow> f (tick d) = Some d' \<Longrightarrow> exec_stmt ps f d = (Ret (), d')"
  by (simp add: exec_stmt_Ret)

lemma exec_stmt_effect:
  "snd (exec_stmt ps f d) = tick d \<or> f (tick d) = Some (snd (exec_stmt ps f d))"
  by (auto simp: exec_stmt_def run_stmt_def Let_def split: fault.split option.split)

lemma exec_stmt_no_Panic [simp]: "exec_stmt ps f d \<noteq> (Panic p, d')"
  by (auto simp: exec_stmt_def run_stmt_def Let_def split: fault.split option.split)

lemma query_stmt_no_Panic [simp]: "query_stmt ps f d \<noteq> (Panic p, d')"
  by (auto simp: query_stmt_def run_stmt_def Let_def split: fault.split)

lemma query_row_no_Panic [simp]: "query_row ps f d \<noteq> (Panic p, d')"
  by (auto simp: query_row_def run_stmt_def Let_def split: fault.split)

lemma query_snd [simp]: "snd (query_stmt ps f d) = tick d" "snd (query_row ps f d) = tick d"
  by (auto simp: query_stmt_def query_row_def run_stmt_def Let_def split: fault.split option.split)

lemma query_row_Ret:
  "query_row ps f d = (Ret r, d') \<longleftrightarrow> db_up d \<and> list_all pg_text ps \<and> d' = tick d \<and>
     r = (case f (tick d) of [] \<Rightarrow> None | x # _ \<Rightarrow> Some x)"
  by (auto simp: query_row_def run_stmt_def db_up_def Let_def split: fault.split)

lemma query_stmt_Ret:
  "query_stmt ps f d = (Ret (rows, e), d') \<longleftrightarrow> list_all pg_text ps \<and> d' = tick d \<and>
     (db_fault d (db_tick d) = Works \<and> rows = f (tick d) \<and> \<not> e \<or>
      (\<exists>n. db_fault d (db_tick d) = Cut n \<and> rows = take n (f (tick d)) \<and> e))"
  by (auto simp: query_stmt_def run_stmt_def Let_def split: fault.split)

subsection \<open>Reading what was written\<close>

lemma map_of_update_server:
  "map_of (remote_servers (update_server m f d)) n = (if n = m then map_option f (map_of (remote_servers d) n)
     else map_of (remote_servers d) n)"
proof -
  have "map_of (map (\<lambda>(k, r). if k = m then (k, f r) else (k, r)) rows) n =
      (if n = m then map_option f (map_of rows n) else map_of rows n)" for rows
    by (induction rows) auto
  then show ?thesis by (simp add: update_server_def)
qed

lemma update_server_frame [simp]:
  "remote_keys (update_server n f d) = remote_keys d" "remote_signatures (update_server n f d) = remote_signatures d"
  "self_keys (update_server n f d) = self_keys d" "db_fault (update_server n f d) = db_fault d"
  "db_tick (update_server n f d) = db_tick d"
  "map fst (remote_servers (update_server n f d)) = map fst (remote_servers d)"
  by (auto simp: update_server_def comp_def split_def intro!: map_cong)

lemma selectRemoteServer_map_of:
  assumes "wf_gomap (remote_servers d)"
  shows "(case selectRemoteServer n d of [] \<Rightarrow> None | r # _ \<Rightarrow> Some r) = map_of (remote_servers d) n"
proof -
  have "(case map snd (filter (\<lambda>(m, _). m = n) rows) of [] \<Rightarrow> None | r # _ \<Rightarrow> Some r) = map_of rows n" for rows :: "(string \<times> 'v) list"
    by (induction rows) auto
  then show ?thesis by (simp add: selectRemoteServer_def)
qed

lemma known_server_map_of: "known_server n d \<longleftrightarrow> map_of (remote_servers d) n \<noteq> None"
  by (simp add: known_server_def map_of_eq_None_iff)

text \<open>The record that a row stands for.\<close>

definition server_of_row :: "ServerName \<Rightarrow> server_row \<Rightarrow> AdditionalJSON \<Rightarrow> RemoteServer" where
  "server_of_row n r addl =
     \<lparr>rs_ServerName = n, rs_UpdatedTs = sr_updated_ts r, rs_ValidUntilTs = sr_valid_until_ts r,
      rs_NonStandardJSON = addl,
      rs_ObtainedViaNotary = (case sr_obtained_via_notary r of None \<Rightarrow> [] | Some v \<Rightarrow> v),
      rs_OriginFailures = sr_origin_failures r, rs_NextOriginAttemptTs = sr_next_origin_attempt_ts r\<rparr>"

lemma GetRemoteServerMetadata_Ret:
  assumes "wf_gomap (remote_servers d)"
  shows "GetRemoteServerMetadata n d = (Ret s, d') \<longleftrightarrow> db_up d \<and> pg_text n \<and> d' = tick d \<and>
    (case map_of (remote_servers d) n of
       None \<Rightarrow> s = None
     | Some r \<Rightarrow> \<exists>addl. unmarshal_map (sr_nonstandard_json r) = Ret addl \<and> s = Some (server_of_row n r addl))"
proof -
  have "(case selectRemoteServer n (tick d) of [] \<Rightarrow> None | r # _ \<Rightarrow> Some r) = map_of (remote_servers d) n"
    using selectRemoteServer_map_of [of "tick d" n] assms by simp
  then show ?thesis
    unfolding GetRemoteServerMetadata_def act_bind_eq_Ret_iff query_row_Ret
    by (auto simp: act_ret_def go_bind_eq_Ret_iff server_of_row_def split: option.splits)
qed

lemma GetRemoteServerMetadata_snd [simp]: "snd (GetRemoteServerMetadata n d) = tick d"
proof (cases "query_row [n] (selectRemoteServer n) d")
  case (Pair r d')
  moreover from this have "d' = tick d" using query_snd(2) [of "[n]" "selectRemoteServer n" d] by simp
  ultimately show ?thesis
    by (cases r) (auto simp: GetRemoteServerMetadata_def act_bind_def act_ret_def split: option.split)
qed

lemma GetRemoteServerMetadata_no_Panic [simp]: "GetRemoteServerMetadata n d \<noteq> (Panic p, d')"
proof (cases "query_row [n] (selectRemoteServer n) d")
  case (Pair r d'')
  have "go_bind (unmarshal_map j) (\<lambda>a. Ret (f a)) \<noteq> Panic p" for j and f :: "json gomap \<Rightarrow> RemoteServer option"
    by (cases "unmarshal_map j") auto
  with Pair show ?thesis
    by (cases r) (auto simp: GetRemoteServerMetadata_def act_bind_def act_ret_def split: option.split)
qed

subsection \<open>The integrity of the tables\<close>

definition server_row_ok :: "server_row \<Rightarrow> bool" where
  "server_row_ok r \<longleftrightarrow> (\<exists>m. unmarshal_map (sr_nonstandard_json r) = Ret m) \<and>
     sr_obtained_via_notary r \<noteq> Some [] \<and> int4_ok (sr_origin_failures r)"

definition db_ok :: "db \<Rightarrow> bool" where
  "db_ok d \<longleftrightarrow> wf_gomap (remote_servers d) \<and> (\<forall>(n, r) \<in> set (remote_servers d). server_row_ok r) \<and>
     distinct (map (\<lambda>r. (kr_server_name r, kr_key_id r)) (remote_keys d)) \<and>
     distinct (map (\<lambda>r. (gr_server_name r, gr_key_id r)) (remote_signatures d)) \<and>
     distinct (map sf_key_id (self_keys d)) \<and>
     (\<forall>r \<in> set (remote_keys d). known_server (kr_server_name r) d) \<and>
     (\<forall>r \<in> set (remote_signatures d). known_server (gr_server_name r) d)"

lemma known_server_frame [simp]:
  "known_server n (d\<lparr>remote_keys := ks\<rparr>) = known_server n d"
  "known_server n (d\<lparr>remote_signatures := gs\<rparr>) = known_server n d"
  "known_server n (d\<lparr>self_keys := ss\<rparr>) = known_server n d"
  "known_server n (d\<lparr>db_tick := t\<rparr>) = known_server n d"
  by (simp_all add: known_server_def)

lemma db_ok_tick [simp]: "db_ok (d\<lparr>db_tick := t\<rparr>) = db_ok d"
  by (simp add: db_ok_def)

lemma db_okD: "db_ok d \<Longrightarrow> wf_gomap (remote_servers d)"
  by (simp add: db_ok_def)

text \<open>A statement keeps the integrity if its effect does, whatever the connection did.\<close>

lemma exec_stmt_ok:
  assumes "db_ok d" "\<And>e. f (tick d) = Some e \<Longrightarrow> db_ok e"
  shows "db_ok (snd (exec_stmt ps f d))"
  using exec_stmt_effect [of ps f d] assms by auto

lemma known_server_update: "known_server n (d\<lparr>remote_servers := AList.update m r (remote_servers d)\<rparr>) \<longleftrightarrow> n = m \<or> known_server n d"
  by (simp add: known_server_def dom_update)

lemma db_ok_set_server:
  assumes "db_ok d" "server_row_ok r"
  shows "db_ok (d\<lparr>remote_servers := AList.update n r (remote_servers d)\<rparr>)"
proof -
  have "server_row_ok x" if "(m, x) \<in> set (AList.update n r (remote_servers d))" for m x
    using that assms set_AList_update [of n r "remote_servers d"] by (auto simp: db_ok_def)
  then show ?thesis using assms(1) by (auto simp: db_ok_def known_server_update)
qed

lemma server_row_lookup: "db_ok d \<Longrightarrow> map_of (remote_servers d) n = Some r \<Longrightarrow> server_row_ok r"
  by (auto simp: db_ok_def dest: map_of_SomeD)

lemma unmarshal_empty: "unmarshal_map ''{}'' = Ret []"
  by code_simp

lemma marshal_unmarshal: "go_json (JObj m) \<Longrightarrow> unmarshal_map (json_marshal (JObj m)) = Ret (sorted_members m)"
  using InterfaceToMap_go_json by (simp add: InterfaceToMap_def)

lemma upsertRemoteServer_ok:
  assumes "db_ok d" "unmarshal_map j = Ret m" "notary \<noteq> Some []"
    and "upsertRemoteServer n u v j notary d = Some e"
  shows "db_ok e"
proof (cases "map_of (remote_servers d) n")
  case None
  then have e: "e = d\<lparr>remote_servers := AList.update n \<lparr>sr_updated_ts = u, sr_valid_until_ts = v, sr_nonstandard_json = j,
      sr_obtained_via_notary = notary, sr_origin_failures = 0, sr_next_origin_attempt_ts = 0\<rparr> (remote_servers d)\<rparr>"
    using assms(4) by (simp add: upsertRemoteServer_def split: if_splits)
  show ?thesis unfolding e using assms(2,3)
    by (intro db_ok_set_server [OF assms(1)]) (simp add: server_row_ok_def int4_ok_def)
next
  case (Some r)
  then have e: "e = d\<lparr>remote_servers := AList.update n (r\<lparr>sr_updated_ts := u, sr_valid_until_ts := v,
                         sr_nonstandard_json := j, sr_obtained_via_notary := notary\<rparr>) (remote_servers d)\<rparr>"
    using assms(4) by (simp add: upsertRemoteServer_def split: if_splits)
  show ?thesis unfolding e using assms(2,3) server_row_lookup [OF assms(1) Some]
    by (intro db_ok_set_server [OF assms(1)]) (simp add: server_row_ok_def)
qed

lemma noteOriginFailure_ok:
  assumes "db_ok d" and "noteOriginFailure n u f t d = Some e"
  shows "db_ok e"
proof (cases "map_of (remote_servers d) n")
  case None
  then have e: "int4_ok f" "e = d\<lparr>remote_servers := AList.update n \<lparr>sr_updated_ts = u, sr_valid_until_ts = 0,
      sr_nonstandard_json = ''{}'', sr_obtained_via_notary = None, sr_origin_failures = f,
      sr_next_origin_attempt_ts = t\<rparr> (remote_servers d)\<rparr>"
    using assms(2) by (simp_all add: noteOriginFailure_def split: if_splits)
  show ?thesis unfolding e(2) using e(1)
    by (intro db_ok_set_server [OF assms(1)]) (simp add: server_row_ok_def unmarshal_empty)
next
  case (Some r)
  then have e: "int4_ok f" "e = d\<lparr>remote_servers := AList.update n (r\<lparr>sr_updated_ts := u, sr_origin_failures := f,
                         sr_next_origin_attempt_ts := t\<rparr>) (remote_servers d)\<rparr>"
    using assms(2) by (simp_all add: noteOriginFailure_def split: if_splits)
  show ?thesis unfolding e(2) using e(1) server_row_lookup [OF assms(1) Some]
    by (intro db_ok_set_server [OF assms(1)]) (simp add: server_row_ok_def)
qed

lemma update_server_ok:
  assumes "db_ok d" "\<And>r. server_row_ok r \<Longrightarrow> server_row_ok (f r)"
  shows "db_ok (update_server n f d)"
proof -
  have "known_server m (update_server n f d) = known_server m d" for m
    unfolding known_server_def update_server_frame(6) ..
  moreover have "server_row_ok r" if "(m, r) \<in> set (remote_servers (update_server n f d))" for m r
    using that assms by (auto simp: update_server_def db_ok_def split: if_splits)
  moreover have "wf_gomap (remote_servers (update_server n f d))"
    using assms(1) unfolding wf_gomap_def update_server_frame(6) by (simp add: db_ok_def wf_gomap_def)
  ultimately show ?thesis using assms(1) by (auto simp: db_ok_def)
qed

lemma statements_ok:
  "db_ok d \<Longrightarrow> insertActiveSelfKey i pub priv d = Some e \<Longrightarrow> db_ok e"
  "db_ok d \<Longrightarrow> deleteRemoteKeys n d = Some e \<Longrightarrow> db_ok e"
  "db_ok d \<Longrightarrow> deleteRemoteSignatures n d = Some e \<Longrightarrow> db_ok e"
  "db_ok d \<Longrightarrow> insertRemoteKey k d = Some e \<Longrightarrow> db_ok e"
  "db_ok d \<Longrightarrow> insertRemoteSignature g d = Some e \<Longrightarrow> db_ok e"
  "db_ok d \<Longrightarrow> resetOriginProbe n d = Some e \<Longrightarrow> db_ok e"
  "db_ok d \<Longrightarrow> invalidateRemoteServer n d = Some e \<Longrightarrow> db_ok e"
proof -
  show "db_ok d \<Longrightarrow> resetOriginProbe n d = Some e \<Longrightarrow> db_ok e"
    by (auto simp: resetOriginProbe_def server_row_ok_def int4_ok_def intro!: update_server_ok)
  show "db_ok d \<Longrightarrow> invalidateRemoteServer n d = Some e \<Longrightarrow> db_ok e"
    by (auto simp: invalidateRemoteServer_def server_row_ok_def intro!: update_server_ok)
qed (auto simp: db_ok_def insertActiveSelfKey_def deleteRemoteKeys_def deleteRemoteSignatures_def
      insertRemoteKey_def insertRemoteSignature_def distinct_map_filter split: if_splits)

text \<open>Every function of \<open>orm.go\<close> that writes keeps the integrity, on every outcome.\<close>

lemma writes_ok:
  assumes "db_ok d"
  shows "db_ok (snd (AddOwnActiveKey i pub priv d))"
    and "go_json (JObj m) \<Longrightarrow> db_ok (snd (UpsertRemoteServer n u v m notary d))"
    and "db_ok (snd (NoteOriginFailure n u f t d))"
    and "db_ok (snd (ResetOriginProbe n d))"
    and "db_ok (snd (InvalidateRemoteServer n d))"
    and "db_ok (snd (DeleteRemoteServerKeys n d))"
    and "db_ok (snd (DeleteRemoteServerSignatures n d))"
    and "db_ok (snd (AddRemoteServerKey n k key x d))"
    and "db_ok (snd (AddRemoteServerSignature n k key d))"
proof -
  note t = db_ok_tick [THEN iffD2, OF assms]
  note run = exec_stmt_ok [OF assms]
  show "db_ok (snd (AddOwnActiveKey i pub priv d))"
    unfolding AddOwnActiveKey_def by (rule run) (rule statements_ok(1) [OF t])
  show "db_ok (snd (NoteOriginFailure n u f t d))"
    unfolding NoteOriginFailure_def by (rule run) (rule noteOriginFailure_ok [OF t])
  show "db_ok (snd (ResetOriginProbe n d))"
    unfolding ResetOriginProbe_def by (rule run) (rule statements_ok(6) [OF t])
  show "db_ok (snd (InvalidateRemoteServer n d))"
    unfolding InvalidateRemoteServer_def by (rule run) (rule statements_ok(7) [OF t])
  show "db_ok (snd (DeleteRemoteServerKeys n d))"
    unfolding DeleteRemoteServerKeys_def by (rule run) (rule statements_ok(2) [OF t])
  show "db_ok (snd (DeleteRemoteServerSignatures n d))"
    unfolding DeleteRemoteServerSignatures_def by (rule run) (rule statements_ok(3) [OF t])
  show "db_ok (snd (AddRemoteServerKey n k key x d))"
    unfolding AddRemoteServerKey_def by (rule run) (rule statements_ok(4) [OF t])
  show "db_ok (snd (AddRemoteServerSignature n k key d))"
    unfolding AddRemoteServerSignature_def by (rule run) (rule statements_ok(5) [OF t])
  show "db_ok (snd (UpsertRemoteServer n u v m notary d))" if m: "go_json (JObj m)"
    unfolding UpsertRemoteServer_def Let_def
    by (rule run) (rule upsertRemoteServer_ok [OF t marshal_unmarshal [OF m]], auto)
qed

subsection \<open>The interface of a table of per-server rows\<close>

text \<open>
  The keys and the signatures of a server are rows of a child table. A client that deletes the
  rows of a server and inserts new ones uses only these laws.
\<close>

definition db_healthy :: "db \<Rightarrow> bool" where
  "db_healthy d \<longleftrightarrow> (\<forall>t \<ge> db_tick d. db_fault d t = Works)"

lemma db_healthy_up: "db_healthy d \<Longrightarrow> db_up d"
  by (simp add: db_healthy_def db_up_def)

locale child_table =
  fixes ins :: "'r \<Rightarrow> unit dbact" and del :: "ServerName \<Rightarrow> unit dbact" and sel :: "ServerName \<Rightarrow> db \<Rightarrow> 'r list"
    and owner :: "'r \<Rightarrow> ServerName" and kid :: "'r \<Rightarrow> KeyID" and fits :: "'r \<Rightarrow> bool" and frame :: "db \<Rightarrow> 'f"
  assumes sel_ins: "ins r d = (Ret (), d') \<Longrightarrow> sel n d' = sel n d @ (if owner r = n then [r] else [])"
    and sel_ins_Fail: "sel n (snd (ins r d)) = sel n d \<or> sel n (snd (ins r d)) = sel n d @ [r] \<and> owner r = n"
    and frame_ins: "frame (snd (ins r d)) = frame d"
    and frame_del: "frame (snd (del n d)) = frame d"
    and sel_del: "del n d = (Ret (), d') \<Longrightarrow> sel m d' = (if m = n then [] else sel m d)"
    and ins_total: "db_healthy d \<Longrightarrow> fits r \<Longrightarrow> known_server (owner r) d \<Longrightarrow> kid r \<notin> kid ` set (sel (owner r) d) \<Longrightarrow>
      \<exists>d'. ins r d = (Ret (), d') \<and> db_healthy d' \<and> (\<forall>n. known_server n d \<longrightarrow> known_server n d')"
    and ins_dup: "ins r d = (Ret (), d') \<Longrightarrow> kid r \<notin> kid ` set (sel (owner r) d)"
begin

lemma inserts_Ret: "act_iter ins rs d = (Ret (), d') \<Longrightarrow> sel n d' = sel n d @ filter (\<lambda>r. owner r = n) rs"
  by (induction rs arbitrary: d) (auto simp: act_bind_eq_Ret_iff sel_ins)

lemma inserts_frame: "frame (snd (act_iter ins rs d)) = frame d"
  by (rule act_iter_keeps) (simp_all add: frame_ins)

lemma inserts_distinct:
  "act_iter ins rs d = (Ret (), d') \<Longrightarrow> \<forall>r \<in> set rs. owner r = n \<Longrightarrow>
   distinct (map kid rs) \<and> kid ` set rs \<inter> kid ` set (sel n d) = {}"
proof (induction rs arbitrary: d)
  case (Cons r rs)
  then obtain e where e: "ins r d = (Ret (), e)" "act_iter ins rs e = (Ret (), d')"
    by (auto simp: act_bind_eq_Ret_iff)
  from Cons.IH [OF e(2)] Cons.prems(2) sel_ins [OF e(1), of n] ins_dup [OF e(1)] show ?case by auto
qed simp

lemma inserts_total:
  "db_healthy d \<Longrightarrow> known_server n d \<Longrightarrow> list_all fits rs \<Longrightarrow> \<forall>r \<in> set rs. owner r = n \<Longrightarrow>
   distinct (map kid rs) \<Longrightarrow> kid ` set rs \<inter> kid ` set (sel n d) = {} \<Longrightarrow>
   \<exists>d'. act_iter ins rs d = (Ret (), d') \<and> db_healthy d' \<and> known_server n d'"
proof (induction rs arbitrary: d)
  case (Cons r rs)
  then obtain e where e: "ins r d = (Ret (), e)" "db_healthy e" "known_server n e"
    using ins_total [of d r] by auto
  have "\<exists>d'. act_iter ins rs e = (Ret (), d') \<and> db_healthy d' \<and> known_server n d'"
    using Cons.prems sel_ins [OF e(1), of n] by (intro Cons.IH e) auto
  then show ?case using e(1) by (auto simp: act_bind_app)
qed simp

text \<open>Deleting and inserting anew leaves exactly the new rows, and other servers alone.\<close>

lemma replace_Ret:
  "del n d = (Ret (), d1) \<Longrightarrow> act_iter ins rs d1 = (Ret (), d2) \<Longrightarrow> \<forall>r \<in> set rs. owner r = n \<Longrightarrow>
   sel n d2 = rs \<and> (m \<noteq> n \<longrightarrow> sel m d2 = sel m d)"
  by (auto simp: inserts_Ret sel_del intro!: filter_True filter_False)

end

definition key_row_fits :: "key_row \<Rightarrow> bool" where
  "key_row_fits r \<longleftrightarrow> varchar_ok (kr_server_name r) \<and> varchar_ok (kr_key_id r) \<and> varchar_ok (kr_public_key_b64 r)"

definition sig_row_fits :: "sig_row \<Rightarrow> bool" where
  "sig_row_fits r \<longleftrightarrow> varchar_ok (gr_server_name r) \<and> varchar_ok (gr_key_id r) \<and> varchar_ok (gr_signature_b64 r)"

definition add_key_row :: "key_row \<Rightarrow> unit dbact" where
  "add_key_row r = AddRemoteServerKey (kr_server_name r) (kr_key_id r) (kr_public_key_b64 r) (kr_expires_ts r)"

definition add_sig_row :: "sig_row \<Rightarrow> unit dbact" where
  "add_sig_row r = AddRemoteServerSignature (gr_server_name r) (gr_key_id r) (gr_signature_b64 r)"

lemma add_key_row: "add_key_row r =
    exec_stmt [kr_server_name r, kr_key_id r, kr_public_key_b64 r] (insertRemoteKey r)"
  by (cases r) (simp add: add_key_row_def AddRemoteServerKey_def)

lemma add_sig_row: "add_sig_row r =
    exec_stmt [gr_server_name r, gr_key_id r, gr_signature_b64 r] (insertRemoteSignature r)"
  by (cases r) (simp add: add_sig_row_def AddRemoteServerSignature_def)

lemma exec_stmt_keeps:
  "P (tick d) \<Longrightarrow> (\<And>e. f (tick d) = Some e \<Longrightarrow> P e) \<Longrightarrow> P (snd (exec_stmt ps f d))"
  using exec_stmt_effect [of ps f d] by auto

lemma varchar_ok_text: "varchar_ok s \<Longrightarrow> pg_text s"
  by (simp add: varchar_ok_def)

interpretation key_rows: child_table add_key_row DeleteRemoteServerKeys selectRemoteKeys kr_server_name kr_key_id
  key_row_fits "\<lambda>d. (remote_servers d, remote_signatures d, self_keys d, db_fault d)"
proof
  fix r d d' n m
  show "add_key_row r d = (Ret (), d') \<Longrightarrow> selectRemoteKeys n d' = selectRemoteKeys n d @ (if kr_server_name r = n then [r] else [])"
    by (auto simp: add_key_row exec_stmt_Ret insertRemoteKey_def selectRemoteKeys_def split: if_splits)
  show "selectRemoteKeys n (snd (add_key_row r d)) = selectRemoteKeys n d \<or>
      selectRemoteKeys n (snd (add_key_row r d)) = selectRemoteKeys n d @ [r] \<and> kr_server_name r = n"
    unfolding add_key_row by (rule exec_stmt_keeps) (auto simp: insertRemoteKey_def selectRemoteKeys_def split: if_splits)
  show "(remote_servers (snd (add_key_row r d)), remote_signatures (snd (add_key_row r d)), self_keys (snd (add_key_row r d)),
      db_fault (snd (add_key_row r d))) = (remote_servers d, remote_signatures d, self_keys d, db_fault d)"
    unfolding add_key_row by (rule exec_stmt_keeps) (auto simp: insertRemoteKey_def split: if_splits)
  show "(remote_servers (snd (DeleteRemoteServerKeys n d)), remote_signatures (snd (DeleteRemoteServerKeys n d)),
      self_keys (snd (DeleteRemoteServerKeys n d)), db_fault (snd (DeleteRemoteServerKeys n d))) =
      (remote_servers d, remote_signatures d, self_keys d, db_fault d)"
    unfolding DeleteRemoteServerKeys_def by (rule exec_stmt_keeps) (auto simp: deleteRemoteKeys_def)
  show "DeleteRemoteServerKeys n d = (Ret (), d') \<Longrightarrow> selectRemoteKeys m d' = (if m = n then [] else selectRemoteKeys m d)"
    by (auto simp: DeleteRemoteServerKeys_def exec_stmt_Ret deleteRemoteKeys_def selectRemoteKeys_def intro: filter_cong)
  show "\<exists>d'. add_key_row r d = (Ret (), d') \<and> db_healthy d' \<and> (\<forall>n. known_server n d \<longrightarrow> known_server n d')"
    if "db_healthy d" "key_row_fits r" "known_server (kr_server_name r) d"
      "kr_key_id r \<notin> kr_key_id ` set (selectRemoteKeys (kr_server_name r) d)"
    using that db_healthy_up [OF that(1)]
    by (auto simp: add_key_row exec_stmt_Ret insertRemoteKey_def key_row_fits_def varchar_ok_text selectRemoteKeys_def db_healthy_def)
  show "add_key_row r d = (Ret (), d') \<Longrightarrow> kr_key_id r \<notin> kr_key_id ` set (selectRemoteKeys (kr_server_name r) d)"
    by (auto simp: add_key_row exec_stmt_Ret insertRemoteKey_def selectRemoteKeys_def image_iff split: if_splits)
qed

interpretation sig_rows: child_table add_sig_row DeleteRemoteServerSignatures selectRemoteSignatures gr_server_name gr_key_id
  sig_row_fits "\<lambda>d. (remote_servers d, remote_keys d, self_keys d, db_fault d)"
proof
  fix r d d' n m
  show "add_sig_row r d = (Ret (), d') \<Longrightarrow> selectRemoteSignatures n d' = selectRemoteSignatures n d @ (if gr_server_name r = n then [r] else [])"
    by (auto simp: add_sig_row exec_stmt_Ret insertRemoteSignature_def selectRemoteSignatures_def split: if_splits)
  show "selectRemoteSignatures n (snd (add_sig_row r d)) = selectRemoteSignatures n d \<or>
      selectRemoteSignatures n (snd (add_sig_row r d)) = selectRemoteSignatures n d @ [r] \<and> gr_server_name r = n"
    unfolding add_sig_row by (rule exec_stmt_keeps) (auto simp: insertRemoteSignature_def selectRemoteSignatures_def split: if_splits)
  show "(remote_servers (snd (add_sig_row r d)), remote_keys (snd (add_sig_row r d)), self_keys (snd (add_sig_row r d)),
      db_fault (snd (add_sig_row r d))) = (remote_servers d, remote_keys d, self_keys d, db_fault d)"
    unfolding add_sig_row by (rule exec_stmt_keeps) (auto simp: insertRemoteSignature_def split: if_splits)
  show "(remote_servers (snd (DeleteRemoteServerSignatures n d)), remote_keys (snd (DeleteRemoteServerSignatures n d)),
      self_keys (snd (DeleteRemoteServerSignatures n d)), db_fault (snd (DeleteRemoteServerSignatures n d))) =
      (remote_servers d, remote_keys d, self_keys d, db_fault d)"
    unfolding DeleteRemoteServerSignatures_def by (rule exec_stmt_keeps) (auto simp: deleteRemoteSignatures_def)
  show "DeleteRemoteServerSignatures n d = (Ret (), d') \<Longrightarrow>
      selectRemoteSignatures m d' = (if m = n then [] else selectRemoteSignatures m d)"
    by (auto simp: DeleteRemoteServerSignatures_def exec_stmt_Ret deleteRemoteSignatures_def selectRemoteSignatures_def
        intro: filter_cong)
  show "\<exists>d'. add_sig_row r d = (Ret (), d') \<and> db_healthy d' \<and> (\<forall>n. known_server n d \<longrightarrow> known_server n d')"
    if "db_healthy d" "sig_row_fits r" "known_server (gr_server_name r) d"
      "gr_key_id r \<notin> gr_key_id ` set (selectRemoteSignatures (gr_server_name r) d)"
    using that db_healthy_up [OF that(1)]
    by (auto simp: add_sig_row exec_stmt_Ret insertRemoteSignature_def sig_row_fits_def varchar_ok_text
        selectRemoteSignatures_def db_healthy_def)
  show "add_sig_row r d = (Ret (), d') \<Longrightarrow> gr_key_id r \<notin> gr_key_id ` set (selectRemoteSignatures (gr_server_name r) d)"
    by (auto simp: add_sig_row exec_stmt_Ret insertRemoteSignature_def selectRemoteSignatures_def image_iff split: if_splits)
qed

subsection \<open>Sequences of writes\<close>

text \<open>Any process may run any write next; the connection may fail in any of them.\<close>

inductive db_step :: "db \<Rightarrow> db \<Rightarrow> bool" where
  AddOwn: "db_step d (snd (AddOwnActiveKey i pub priv d))"
| Upsert: "go_json (JObj addl) \<Longrightarrow> db_step d (snd (UpsertRemoteServer n u v addl notary d))"
| Note: "db_step d (snd (NoteOriginFailure n u f t d))"
| Reset: "db_step d (snd (ResetOriginProbe n d))"
| Invalidate: "db_step d (snd (InvalidateRemoteServer n d))"
| DeleteKeys: "db_step d (snd (DeleteRemoteServerKeys n d))"
| DeleteSignatures: "db_step d (snd (DeleteRemoteServerSignatures n d))"
| AddKey: "db_step d (snd (AddRemoteServerKey n k key x d))"
| AddSignature: "db_step d (snd (AddRemoteServerSignature n k key d))"

lemma db_step_ok: "db_step d e \<Longrightarrow> db_ok d \<Longrightarrow> db_ok e"
  by (induction rule: db_step.induct) (auto intro: writes_ok)

lemma db_steps_ok: "db_step\<^sup>*\<^sup>* d e \<Longrightarrow> db_ok d \<Longrightarrow> db_ok e"
  by (induction rule: rtranclp_induct) (auto intro: db_step_ok)

definition empty_db :: "(nat \<Rightarrow> fault) \<Rightarrow> db" where
  "empty_db fault = \<lparr>self_keys = [], remote_servers = [], remote_keys = [], remote_signatures = [],
     db_tick = 0, db_fault = fault\<rparr>"

lemma empty_db_ok: "db_ok (empty_db fault)"
  by (simp add: db_ok_def empty_db_def)

subsection \<open>Properties\<close>

text \<open>
  C25: the integrity of the tables survives every sequence of writes, even when statements are
  lost or their answers are: one row per server and per key of a server, keys and signatures
  only of known servers, and in every server's row stored JSON that reads back as an object.
\<close>

theorem integrity_reachable:
  assumes "db_step\<^sup>*\<^sup>* (empty_db fault) d"
  shows "distinct (map fst (remote_servers d)) \<and>
    (\<forall>(n, r) \<in> set (remote_servers d). \<exists>m. unmarshal_map (sr_nonstandard_json r) = Ret m) \<and>
    (\<forall>n. distinct (map kr_key_id (selectRemoteKeys n d)) \<and> distinct (map gr_key_id (selectRemoteSignatures n d))) \<and>
    (\<forall>n. selectRemoteKeys n d \<noteq> [] \<or> selectRemoteSignatures n d \<noteq> [] \<longrightarrow> known_server n d)"
proof -
  have ok: "db_ok d" using db_steps_ok [OF assms empty_db_ok] .
  have "distinct (map kr_key_id (selectRemoteKeys n d))" for n
  proof -
    have "distinct (map (\<lambda>r. (kr_server_name r, kr_key_id r)) (selectRemoteKeys n d))"
      using ok by (simp add: db_ok_def selectRemoteKeys_def distinct_map_filter)
    moreover have "map (\<lambda>r. (kr_server_name r, kr_key_id r)) (selectRemoteKeys n d)
        = map (Pair n) (map kr_key_id (selectRemoteKeys n d))"
      by (auto simp: selectRemoteKeys_def)
    ultimately show ?thesis by (metis distinct_map)
  qed
  moreover have "distinct (map gr_key_id (selectRemoteSignatures n d))" for n
  proof -
    have "distinct (map (\<lambda>r. (gr_server_name r, gr_key_id r)) (selectRemoteSignatures n d))"
      using ok by (simp add: db_ok_def selectRemoteSignatures_def distinct_map_filter)
    moreover have "map (\<lambda>r. (gr_server_name r, gr_key_id r)) (selectRemoteSignatures n d)
        = map (Pair n) (map gr_key_id (selectRemoteSignatures n d))"
      by (auto simp: selectRemoteSignatures_def)
    ultimately show ?thesis by (metis distinct_map)
  qed
  moreover have "known_server n d" if "selectRemoteKeys n d \<noteq> [] \<or> selectRemoteSignatures n d \<noteq> []" for n
    using that ok by (fastforce simp: db_ok_def selectRemoteKeys_def selectRemoteSignatures_def filter_empty_conv)
  ultimately show ?thesis using ok by (auto simp: db_ok_def wf_gomap_def server_row_ok_def)
qed

definition demo_written :: db where
  "demo_written = snd (AddRemoteServerKey ''s'' ''k'' ''AA'' 0 (snd (NoteOriginFailure ''s'' 1 1 2 (empty_db (\<lambda>_. Works)))))"

theorem integrity_reachable_witness:
  "map kr_key_id (selectRemoteKeys ''s'' demo_written) = [''k''] \<and> known_server ''s'' demo_written"
proof -
  have "db_step\<^sup>*\<^sup>* (empty_db (\<lambda>_. Works)) demo_written"
    unfolding demo_written_def
    by (rule rtranclp.rtrancl_into_rtrancl [OF r_into_rtranclp]) (rule Note AddKey)+
  moreover have k: "map kr_key_id (selectRemoteKeys ''s'' demo_written) = [''k'']" by code_simp
  then have "selectRemoteKeys ''s'' demo_written \<noteq> []" by auto
  ultimately show ?thesis using integrity_reachable [of "\<lambda>_. Works" demo_written] k by blast
qed

text \<open>What the first elements of a sorted list leave out.\<close>

lemma take_sorted_left:
  assumes "sorted (map key xs)" "y \<in> set xs" "y \<notin> set (take n xs)"
  shows "length (take n xs) = n \<and> (\<forall>x \<in> set (take n xs). key x \<le> key y)"
proof -
  have yd: "y \<in> set (drop n xs)" using assms(2,3) by (metis append_take_drop_id set_append Un_iff)
  moreover have "sorted (map key (take n xs @ drop n xs))" using assms(1) by simp
  ultimately have "\<forall>x \<in> set (take n xs). key x \<le> key y"
    by (auto simp: sorted_append simp del: append_take_drop_id)
  moreover have "length (take n xs) = n" using yd by (cases "length xs \<le> n") auto
  ultimately show ?thesis by blast
qed

lemma distinct_sorted_rows: "distinct (map fst xs) \<Longrightarrow> distinct (map fst (sort_key key (filter P xs)))"
proof -
  assume "distinct (map fst xs)"
  then have "distinct (map fst (filter P xs))" by (simp add: distinct_map_filter)
  moreover have "mset (map fst (sort_key key (filter P xs))) = mset (map fst (filter P xs))" by simp
  ultimately show ?thesis using mset_eq_imp_distinct_iff by blast
qed

text \<open>The rows behind the candidates: a prefix of the due rows in the order of their due time.\<close>

definition due_rows :: "int \<Rightarrow> db \<Rightarrow> (ServerName \<times> server_row) list" where
  "due_rows now d = sort_key (\<lambda>(n :: string, r). sr_next_origin_attempt_ts r)
     (filter (\<lambda>(_, r). 0 < sr_next_origin_attempt_ts r \<and> sr_next_origin_attempt_ts r \<le> now) (remote_servers d))"

lemma candidates_due_rows: "selectOriginProbeCandidates now limit d = map fst (take limit (due_rows now d))"
  by (simp add: selectOriginProbeCandidates_def due_rows_def)

lemma due_rows:
  assumes "db_ok d"
  shows "(n, r) \<in> set (due_rows now d) \<longleftrightarrow> map_of (remote_servers d) n = Some r \<and>
      0 < sr_next_origin_attempt_ts r \<and> sr_next_origin_attempt_ts r \<le> now"
    and "sorted (map (\<lambda>(n, r). sr_next_origin_attempt_ts r) (due_rows now d))" and "distinct (map fst (due_rows now d))"
proof -
  have wf: "wf_gomap (remote_servers d)" using assms by (rule db_okD)
  then show "(n, r) \<in> set (due_rows now d) \<longleftrightarrow> map_of (remote_servers d) n = Some r \<and>
      0 < sr_next_origin_attempt_ts r \<and> sr_next_origin_attempt_ts r \<le> now"
    by (auto simp: due_rows_def wf_gomap_map_of)
  show "distinct (map fst (due_rows now d))"
    using wf unfolding due_rows_def by (intro distinct_sorted_rows) (simp add: wf_gomap_def)
qed (simp add: due_rows_def)

text \<open>
  C32: the sweep's candidates. The list holds at most \<open>limit\<close> servers, each with a standing
  failure whose next attempt is due, ordered by due time; a due server that was left out is
  due no earlier than any that was listed, and is left out only when the list is full.
\<close>

theorem candidates_oldest_due_first:
  assumes "db_ok d"
  shows "length (selectOriginProbeCandidates now limit d) \<le> limit \<and>
    distinct (selectOriginProbeCandidates now limit d) \<and>
    sorted (map (\<lambda>n. sr_next_origin_attempt_ts (the (map_of (remote_servers d) n))) (selectOriginProbeCandidates now limit d)) \<and>
    (\<forall>n \<in> set (selectOriginProbeCandidates now limit d). \<exists>r. map_of (remote_servers d) n = Some r \<and>
       0 < sr_next_origin_attempt_ts r \<and> sr_next_origin_attempt_ts r \<le> now) \<and>
    (\<forall>n r. map_of (remote_servers d) n = Some r \<and> 0 < sr_next_origin_attempt_ts r \<and>
       sr_next_origin_attempt_ts r \<le> now \<and> n \<notin> set (selectOriginProbeCandidates now limit d) \<longrightarrow>
       length (selectOriginProbeCandidates now limit d) = limit \<and>
       (\<forall>m \<in> set (selectOriginProbeCandidates now limit d).
          sr_next_origin_attempt_ts (the (map_of (remote_servers d) m)) \<le> sr_next_origin_attempt_ts r))"
proof -
  define xs where "xs = due_rows now d"
  note c = candidates_due_rows [of now limit d, folded xs_def]
  note set_xs = due_rows(1) [OF assms, of _ _ now, folded xs_def]
    and sorted = due_rows(2) [OF assms, of now, folded xs_def] and dist = due_rows(3) [OF assms, of now, folded xs_def]
  have val: "sr_next_origin_attempt_ts (the (map_of (remote_servers d) n)) = sr_next_origin_attempt_ts r"
    if "(n, r) \<in> set xs" for n r using that set_xs by simp
  have keys: "map (\<lambda>n. sr_next_origin_attempt_ts (the (map_of (remote_servers d) n))) (map fst (take limit xs))
      = map (\<lambda>(n, r). sr_next_origin_attempt_ts r) (take limit xs)"
    using val by (force dest: in_set_takeD)
  note left = take_sorted_left [OF sorted, of _ limit]
  show ?thesis
    unfolding c
  proof (intro conjI allI impI ballI)
    show "sorted (map (\<lambda>n. sr_next_origin_attempt_ts (the (map_of (remote_servers d) n))) (map fst (take limit xs)))"
      unfolding keys using sorted_wrt_take [OF sorted, of limit] by (simp add: take_map)
    show "distinct (map fst (take limit xs))" using dist by (simp add: take_map [symmetric])
  next
    fix n assume "n \<in> set (map fst (take limit xs))"
    then show "\<exists>r. map_of (remote_servers d) n = Some r \<and>
       0 < sr_next_origin_attempt_ts r \<and> sr_next_origin_attempt_ts r \<le> now"
      using set_xs by (fastforce dest: in_set_takeD)
  next
    fix n r assume a: "map_of (remote_servers d) n = Some r \<and> 0 < sr_next_origin_attempt_ts r \<and>
       sr_next_origin_attempt_ts r \<le> now \<and> n \<notin> set (map fst (take limit xs))"
    then have y: "(n, r) \<in> set xs" "(n, r) \<notin> set (take limit xs)" using set_xs by force+
    from left [OF y] show "length (map fst (take limit xs)) = limit" by simp
    show "sr_next_origin_attempt_ts (the (map_of (remote_servers d) m)) \<le> sr_next_origin_attempt_ts r"
      if "m \<in> set (map fst (take limit xs))" for m
      using that left [OF y] val by (fastforce dest: in_set_takeD)
  qed simp
qed

definition demo_row :: "Timestamp \<Rightarrow> server_row" where
  "demo_row next_ts = \<lparr>sr_updated_ts = 0, sr_valid_until_ts = 0, sr_nonstandard_json = ''{}'',
     sr_obtained_via_notary = None, sr_origin_failures = 1, sr_next_origin_attempt_ts = next_ts\<rparr>"

definition demo_db :: db where
  "demo_db = (empty_db (\<lambda>_. Works))\<lparr>remote_servers :=
     [(''late'', demo_row 30), (''early'', demo_row 10), (''healthy'', demo_row 0), (''future'', demo_row 99)]\<rparr>"

lemma demo_db_ok: "db_ok demo_db"
  by (simp add: db_ok_def demo_db_def empty_db_def wf_gomap_def server_row_ok_def demo_row_def unmarshal_empty int4_ok_def)

theorem candidates_oldest_due_first_witness:
  "selectOriginProbeCandidates 50 1 demo_db = [''early''] \<and>
   sr_next_origin_attempt_ts (the (map_of (remote_servers demo_db) ''early'')) \<le> 30"
proof -
  have c: "selectOriginProbeCandidates 50 1 demo_db = [''early'']" by code_simp
  have late: "map_of (remote_servers demo_db) ''late'' = Some (demo_row 30)"
    "0 < sr_next_origin_attempt_ts (demo_row 30)" "sr_next_origin_attempt_ts (demo_row 30) \<le> 50"
    "''late'' \<notin> set (selectOriginProbeCandidates 50 1 demo_db)"
    unfolding c by (simp_all add: demo_db_def demo_row_def)
  then have "\<forall>m \<in> set (selectOriginProbeCandidates 50 1 demo_db).
      sr_next_origin_attempt_ts (the (map_of (remote_servers demo_db) m)) \<le> sr_next_origin_attempt_ts (demo_row 30)"
    using candidates_oldest_due_first [OF demo_db_ok, where limit = 1 and now = 50] by blast
  with c show ?thesis by (simp add: demo_row_def)
qed

lemma length_filter_parts:
  "(\<And>x. x \<in> set xs \<Longrightarrow> (P x \<or> Q x \<or> R x) \<and> \<not> (P x \<and> Q x) \<and> \<not> (P x \<and> R x) \<and> \<not> (Q x \<and> R x)) \<Longrightarrow>
   length (filter P xs) + length (filter Q xs) + length (filter R xs) = length xs"
proof (induction xs)
  case (Cons x xs)
  have "length (filter P xs) + length (filter Q xs) + length (filter R xs) = length xs"
    using Cons.prems by (intro Cons.IH) simp
  with Cons.prems [of x] show ?case by auto
qed simp

text \<open>
  The three counts of \<open>CountKnownServers\<close> partition the known servers: they sum to the
  number of rows, and a server is counted as reached directly only if it has keys.
\<close>

theorem counts_partition:
  "(case countKnownServers d of (direct, viaNotary, unreachable) \<Rightarrow>
      direct + viaNotary + unreachable = int (length (remote_servers d)) \<and>
      (direct > 0 \<longleftrightarrow> (\<exists>(n, r) \<in> set (remote_servers d). sr_obtained_via_notary r = None \<and> selectRemoteKeys n d \<noteq> [])))"
proof -
  let ?P = "\<lambda>(n, r). sr_obtained_via_notary r = None \<and> has_keys d n"
  let ?Q = "\<lambda>(n :: string, r). sr_obtained_via_notary r \<noteq> None"
  let ?R = "\<lambda>(n, r). sr_obtained_via_notary r = None \<and> \<not> has_keys d n"
  have "length (filter ?P (remote_servers d)) + length (filter ?Q (remote_servers d)) + length (filter ?R (remote_servers d))
      = length (remote_servers d)"
    by (rule length_filter_parts) auto
  moreover have "has_keys d n \<longleftrightarrow> selectRemoteKeys n d \<noteq> []" for n
    by (auto simp: has_keys_def selectRemoteKeys_def filter_empty_conv)
  moreover have "0 < int (length (filter ?P (remote_servers d))) \<longleftrightarrow> (\<exists>x \<in> set (remote_servers d). ?P x)"
    by (auto simp: filter_empty_conv)
  ultimately show ?thesis
    unfolding countKnownServers_def Let_def by (simp add: of_nat_add [symmetric] del: of_nat_add)
qed
end
