(* ===== verification/World.thy ===== *)
theory World
  imports Federation NotaryWalks Db
begin

text \<open>
  The process as its operations see it. The environment answers what lies outside the program:
  the clock, HTTP and which URLs it accepts, DNS, random keys, and the packages \<open>is\<close> and
  \<open>go-cache\<close>. The world is what
  the process holds and writes: the database, the walk schedule, the discovery cache, the pool
  of HTTP clients, its own key, and a record of the calls and outcomes that can be seen from
  outside. Each question to the environment happens at its own instant.
\<close>

datatype http_call =
  WellKnownGet string
| FederatedCall (call_url: string) (call_host: string) (call_tls: string)

text \<open>The outcomes that \<open>metrics\<close> counts, one series for each.\<close>

datatype discovery_outcome =
  DiscoveryCached | DiscoveryLiteral | DiscoveryWellKnown | DiscoveryWellKnownAbsent
| DiscoveryWellKnownFailed | DiscoverySRV | DiscoveryFallback

datatype key_outcome =
  OutcomeCacheFresh | OutcomeCacheCooldown | OutcomeOriginSuccess | OutcomeNotarySuccess
| OutcomeAllFailedStale | OutcomeAllFailedEmpty | OutcomeArchiveServed

datatype fetch_result = ResultSuccess | ResultFailure

text \<open>The labels of one series of the requests: the action of the route, the method, the status.\<close>

type_synonym request_series = "string \<times> string \<times> int"

record http_client =
  hc_ServerName :: string
  hc_Timeout :: int

record cachedServer =
  cs_url :: string
  cs_hostname :: string

text \<open>One \<open>Set\<close> of the discovery cache: what was stored, when, and for how long.\<close>

record url_entry =
  ue_key :: string
  ue_value :: cachedServer
  ue_at :: int
  ue_ttl :: int

record SelfKey =
  sk_RawKey :: OwnKey
  sk_ID :: KeyID
  sk_Pub :: string
  sk_Priv :: string

record env =
  env_crypto :: crypto
  env_now :: "nat \<Rightarrow> int"
  env_http :: "nat \<Rightarrow> http_call \<Rightarrow> http_response go"
  env_srv :: "nat \<Rightarrow> string \<Rightarrow> string \<Rightarrow> (string \<times> nat) list"
  env_genkey :: "nat \<Rightarrow> (string \<times> string) go"
  env_random :: "nat \<Rightarrow> nat \<Rightarrow> string go"
  env_is_IP :: "string \<Rightarrow> bool"
  env_is_RequestURI :: "string \<Rightarrow> bool"
  env_is_URL :: "string \<Rightarrow> bool"
  env_cache_get :: "url_entry list \<Rightarrow> string \<Rightarrow> int \<Rightarrow> cachedServer option"
  env_TrustedNotaries :: "string list"
  env_SelfDomainName :: string

record world =
  w_db :: db
  w_walks :: walkSchedule
  w_urls :: "url_entry list"
  w_clients :: "http_client gomap"
  w_own :: "SelfKey option"
  w_tick :: nat
  w_calls :: "http_call list"
  w_discovery :: "discovery_outcome list"
  w_outcomes :: "key_outcome list"
  w_origin_fetches :: "(fetch_result \<times> int) list"
  w_notary_fetches :: "((string \<times> fetch_result) \<times> int) list"
  w_requests :: "(request_series \<times> int) list"

type_synonym 'a io = "(world, 'a) act"

subsection \<open>Primitive actions\<close>

definition ask :: "(nat \<Rightarrow> 'a) \<Rightarrow> 'a io" where
  "ask f w = (Ret (f (w_tick w)), w\<lparr>w_tick := Suc (w_tick w)\<rparr>)"

definition ask_go :: "(nat \<Rightarrow> 'a go) \<Rightarrow> 'a io" where
  "ask_go f w = (f (w_tick w), w\<lparr>w_tick := Suc (w_tick w)\<rparr>)"

definition lift_db :: "'a dbact \<Rightarrow> 'a io" where
  "lift_db m w = (case m (w_db w) of (r, d) \<Rightarrow> (r, w\<lparr>w_db := d\<rparr>))"

definition modify :: "(world \<Rightarrow> world) \<Rightarrow> unit io" where
  "modify f w = (Ret (), f w)"

definition get_world :: "world io" where
  "get_world w = (Ret w, w)"

definition NowMillis :: "env \<Rightarrow> int io" where
  "NowMillis E = ask (\<lambda>t. go_div (env_now E t) 1000000)"

definition RecordDiscovery :: "discovery_outcome \<Rightarrow> unit io" where
  "RecordDiscovery outcome = modify (\<lambda>w. w\<lparr>w_discovery := w_discovery w @ [outcome]\<rparr>)"

definition RecordKeyQuery :: "key_outcome \<Rightarrow> unit io" where
  "RecordKeyQuery outcome = modify (\<lambda>w. w\<lparr>w_outcomes := w_outcomes w @ [outcome]\<rparr>)"

text \<open>
  The histograms: each observation with its labels and its duration, which is the difference of
  two readings of the clock, \<open>time.Now\<close> and \<open>time.Since\<close>, and saturates at 64 bits.
\<close>

definition go_sub_time :: "int \<Rightarrow> int \<Rightarrow> int" where
  "go_sub_time t u = max (- (2 ^ 63)) (min (2 ^ 63 - 1) (t - u))"

definition time_Now :: "env \<Rightarrow> int io" where
  "time_Now E = ask (env_now E)"

definition time_Since :: "env \<Rightarrow> int \<Rightarrow> int io" where
  "time_Since E start = act_bind (time_Now E) (\<lambda>now. act_ret (go_sub_time now start))"

definition ObserveOriginFetch :: "fetch_result \<Rightarrow> int \<Rightarrow> unit io" where
  "ObserveOriginFetch result d = modify (\<lambda>w. w\<lparr>w_origin_fetches := w_origin_fetches w @ [(result, d)]\<rparr>)"

definition ObserveNotaryFetch :: "string \<Rightarrow> fetch_result \<Rightarrow> int \<Rightarrow> unit io" where
  "ObserveNotaryFetch notary result d = modify (\<lambda>w. w\<lparr>w_notary_fetches := w_notary_fetches w @ [((notary, result), d)]\<rparr>)"

definition ObserveHTTPRequest :: "string \<Rightarrow> string \<Rightarrow> int \<Rightarrow> int \<Rightarrow> unit io" where
  "ObserveHTTPRequest route meth status d = modify (\<lambda>w. w\<lparr>w_requests := w_requests w @ [((route, meth, status), d)]\<rparr>)"

subsection \<open>The contract of the discovery cache\<close>

text \<open>
  What \<open>go-cache\<close> documents of \<open>Get\<close>: it finds nothing that was not set, returns the value
  of the last \<open>Set\<close> of the key, and only while its lifetime has not passed.
\<close>

definition last_set :: "url_entry list \<Rightarrow> string \<Rightarrow> url_entry option" where
  "last_set es k = find (\<lambda>e. ue_key e = k) (rev es)"

definition go_cache_contract :: "env \<Rightarrow> bool" where
  "go_cache_contract E \<longleftrightarrow>
     (\<forall>es k now v. env_cache_get E es k now = Some v \<longleftrightarrow>
        (\<exists>e. last_set es k = Some e \<and> ue_value e = v \<and> now \<le> ue_at e + ue_ttl e))"

text \<open>An implementation of the contract, for the witnesses.\<close>

definition list_cache_get :: "url_entry list \<Rightarrow> string \<Rightarrow> int \<Rightarrow> cachedServer option" where
  "list_cache_get es k now =
     (case last_set es k of None \<Rightarrow> None | Some e \<Rightarrow> if now \<le> ue_at e + ue_ttl e then Some (ue_value e) else None)"

lemma list_cache_contract: "env_cache_get E = list_cache_get \<Longrightarrow> go_cache_contract E"
  by (auto simp: go_cache_contract_def list_cache_get_def split: option.splits)

subsection \<open>Rules\<close>

lemma ask_eq [simp]: "ask f w = (Ret (f (w_tick w)), w\<lparr>w_tick := Suc (w_tick w)\<rparr>)"
  by (simp add: ask_def)

lemma ask_go_eq [simp]: "ask_go f w = (f (w_tick w), w\<lparr>w_tick := Suc (w_tick w)\<rparr>)"
  by (simp add: ask_go_def)

lemma modify_eq [simp]: "modify f w = (Ret (), f w)"
  by (simp add: modify_def)

lemma get_world_eq [simp]: "get_world w = (Ret w, w)"
  by (simp add: get_world_def)

lemma lift_db_snd [simp]: "snd (lift_db m w) = w\<lparr>w_db := snd (m (w_db w))\<rparr>"
  by (simp add: lift_db_def split: prod.split)

lemma lift_db_fst [simp]: "fst (lift_db m w) = fst (m (w_db w))"
  by (simp add: lift_db_def split: prod.split)

lemma lift_db_Ret: "lift_db m w = (r, w') \<longleftrightarrow> (\<exists>d. m (w_db w) = (r, d) \<and> w' = w\<lparr>w_db := d\<rparr>)"
  by (auto simp: lift_db_def split: prod.splits)

lemma time_Now_eq [simp]: "time_Now E w = (Ret (env_now E (w_tick w)), w\<lparr>w_tick := Suc (w_tick w)\<rparr>)"
  by (simp add: time_Now_def)

lemma time_Since_eq [simp]:
  "time_Since E start w = (Ret (go_sub_time (env_now E (w_tick w)) start), w\<lparr>w_tick := Suc (w_tick w)\<rparr>)"
  by (simp add: time_Since_def act_bind_def)

lemmas observe_defs = ObserveOriginFetch_def ObserveNotaryFetch_def ObserveHTTPRequest_def

lemma NowMillis_bind:
  "act_bind (NowMillis E) f w = f (go_div (env_now E (w_tick w)) 1000000) (w\<lparr>w_tick := Suc (w_tick w)\<rparr>)"
  by (simp add: act_bind_def NowMillis_def)

end
