(* ===== verification/Discovery.thy ===== *)
theory Discovery
  imports World
begin

text \<open>
  Finding the federation URL of a server and fetching from it: \<open>GetServerApiUrl\<close> with its
  cache, \<open>lookupSrv\<close>, \<open>probeWellKnown\<close> and the pooled clients of \<open>federation.go\<close>.
\<close>

definition probeWellKnown :: "env \<Rightarrow> string \<Rightarrow> (string \<times> wellKnownOutcome \<times> int) io" where
  "probeWellKnown E h =
     (let call = WellKnownGet (''https://'' @ h @ ''/.well-known/matrix/server'') in
      act_bind (modify (\<lambda>w. w\<lparr>w_calls := w_calls w @ [call]\<rparr>)) (\<lambda>_.
      act_bind (ask (\<lambda>t. env_http E t call)) (\<lambda>r.
      act_ret (classifyWellKnown (env_is_IP E) (env_is_RequestURI E) r))))"

fun lookup_services :: "env \<Rightarrow> string list \<Rightarrow> string \<Rightarrow> string option io" where
  "lookup_services E [] host = act_ret None"
| "lookup_services E (service # services) host =
     act_bind (ask (\<lambda>t. env_srv E t service host)) (\<lambda>addrs.
       (case addrs of
          [] \<Rightarrow> lookup_services E services host
        | (target, port) # _ \<Rightarrow>
            act_ret (Some (''https://'' @ trim_suffix ''.'' target @ '':'' @ show_nat port))))"

definition lookupSrv :: "env \<Rightarrow> string \<Rightarrow> string option io" where
  "lookupSrv E host = lookup_services E [''matrix-fed'', ''matrix''] host"

definition rememberServerUrl :: "env \<Rightarrow> string \<Rightarrow> string \<Rightarrow> string \<Rightarrow> int \<Rightarrow> discovery_outcome \<Rightarrow> (string \<times> string) io" where
  "rememberServerUrl E hostname url realHost ttl outcome =
     act_bind (ask (env_now E)) (\<lambda>now.
     act_bind (modify (\<lambda>w. w\<lparr>w_urls := w_urls w @
       [\<lparr>ue_key = hostname, ue_value = \<lparr>cs_url = url, cs_hostname = realHost\<rparr>, ue_at = now, ue_ttl = ttl\<rparr>]\<rparr>)) (\<lambda>_.
     act_bind (RecordDiscovery outcome) (\<lambda>_.
     act_ret (url, realHost))))"

definition https_url :: "string \<Rightarrow> string \<Rightarrow> string" where
  "https_url h p = ''https://'' @ h @ '':'' @ p"

text \<open>Splitting with the default port: the parts, and whether the default was used.\<close>

definition split_default :: "string \<Rightarrow> (string \<times> string \<times> bool) option" where
  "split_default s =
     (case SplitHostPort s of
        HostPort h p \<Rightarrow> Some (h, p, False)
      | MissingPort \<Rightarrow> (case SplitHostPort (s @ '':8448'') of HostPort h p \<Rightarrow> Some (h, p, True) | _ \<Rightarrow> None)
      | BadAddress \<Rightarrow> None)"

text \<open>Steps 4 to 6: no delegation that could be used.\<close>

definition without_delegation :: "env \<Rightarrow> string \<Rightarrow> string \<Rightarrow> string \<Rightarrow> int \<Rightarrow> discovery_outcome \<Rightarrow> (string \<times> string) io" where
  "without_delegation E hostname h p fallbackTtl fallbackOutcome =
     act_bind (lookupSrv E hostname) (\<lambda>srv.
       (case srv of
          Some url \<Rightarrow>
            rememberServerUrl E hostname url h (if fallbackTtl < discoveryAbsentTtl then fallbackTtl else discoveryAbsentTtl) DiscoverySRV
        | None \<Rightarrow>
            rememberServerUrl E hostname (https_url h p) h fallbackTtl
              (if fallbackOutcome = DiscoveryWellKnownAbsent then DiscoveryFallback else fallbackOutcome)))"

text \<open>Step 3 with a delegation \<open>wkAddr\<close>.\<close>

definition with_delegation :: "env \<Rightarrow> string \<Rightarrow> string \<Rightarrow> string \<Rightarrow> string \<Rightarrow> int \<Rightarrow> (string \<times> string) io" where
  "with_delegation E hostname h p wkAddr wkTtl =
     (case split_default wkAddr of
        None \<Rightarrow> without_delegation E hostname h p discoveryFailedTtl DiscoveryWellKnownFailed
      | Some (wkHost, wkPort, wkDefPort) \<Rightarrow>
          if env_is_IP E wkHost then rememberServerUrl E hostname (https_url wkHost wkPort) wkAddr wkTtl DiscoveryWellKnown
          else if \<not> wkDefPort then rememberServerUrl E hostname (https_url wkHost wkPort) wkHost wkTtl DiscoveryWellKnown
          else act_bind (lookupSrv E wkHost) (\<lambda>srv.
            (case srv of
               Some url \<Rightarrow> rememberServerUrl E hostname url wkHost wkTtl DiscoveryWellKnown
             | None \<Rightarrow> rememberServerUrl E hostname (https_url wkHost wkPort) wkHost wkTtl DiscoveryWellKnown)))"

definition discover :: "env \<Rightarrow> string \<Rightarrow> (string \<times> string) io" where
  "discover E hostname =
     (case split_default hostname of
        None \<Rightarrow> act_fail (Err ''bad address'')
      | Some (h, p, defPort) \<Rightarrow>
          if env_is_IP E h then rememberServerUrl E hostname (https_url h p) hostname discoveryValidTtl DiscoveryLiteral
          else if \<not> defPort then rememberServerUrl E hostname (https_url h p) h discoveryValidTtl DiscoveryLiteral
          else act_bind (probeWellKnown E h) (\<lambda>(wkAddr, wkOutcome, wkTtl).
            if wkOutcome = wellKnownFound then with_delegation E hostname h p wkAddr wkTtl
            else if wkOutcome = wellKnownFailed
              then without_delegation E hostname h p discoveryFailedTtl DiscoveryWellKnownFailed
              else without_delegation E hostname h p discoveryAbsentTtl DiscoveryWellKnownAbsent))"

definition GetServerApiUrl :: "env \<Rightarrow> string \<Rightarrow> (string \<times> string) io" where
  "GetServerApiUrl E hostname =
     act_bind (ask (env_now E)) (\<lambda>now.
     act_bind get_world (\<lambda>w.
       (case env_cache_get E (w_urls w) hostname now of
          Some server \<Rightarrow> act_bind (RecordDiscovery DiscoveryCached) (\<lambda>_. act_ret (cs_url server, cs_hostname server))
        | None \<Rightarrow> discover E hostname)))"

subsection \<open>Fetching\<close>

definition federationRequestTimeout :: int where
  "federationRequestTimeout = 8 * Second"

definition federatedClientFor :: "string \<Rightarrow> http_client io" where
  "federatedClientFor realHost =
     act_bind get_world (\<lambda>w.
       (case map_of (w_clients w) realHost of
          Some c \<Rightarrow> act_ret c
        | None \<Rightarrow>
            let c = \<lparr>hc_ServerName = realHost, hc_Timeout = federationRequestTimeout\<rparr> in
            act_bind (modify (\<lambda>w. w\<lparr>w_clients := AList.update realHost c (w_clients w)\<rparr>)) (\<lambda>_. act_ret c)))"

definition FederatedGet :: "env \<Rightarrow> string \<Rightarrow> string \<Rightarrow> http_response io" where
  "FederatedGet E url realHost =
     (if \<not> env_is_URL E url then act_fail (Err ''cannot parse the URL'')
      else act_bind (federatedClientFor realHost) (\<lambda>c.
        let call = FederatedCall url realHost (hc_ServerName c) in
        act_bind (modify (\<lambda>w. w\<lparr>w_calls := w_calls w @ [call]\<rparr>)) (\<lambda>_.
        ask_go (\<lambda>t. env_http E t call))))"

subsection \<open>What discovery does to the world\<close>

text \<open>The parts of the world that only network operations touch are the only ones they change.\<close>

definition same_store :: "world \<Rightarrow> world \<Rightarrow> bool" where
  "same_store w w' \<longleftrightarrow> w_db w' = w_db w \<and> w_walks w' = w_walks w \<and> w_own w' = w_own w \<and> w_outcomes w' = w_outcomes w \<and>
     w_origin_fetches w' = w_origin_fetches w \<and> w_notary_fetches w' = w_notary_fetches w \<and> w_requests w' = w_requests w"

lemma same_store_refl [simp]: "same_store w w"
  by (simp add: same_store_def)

lemma same_store_trans: "same_store w v \<Longrightarrow> same_store v u \<Longrightarrow> same_store w u"
  by (simp add: same_store_def)

lemma rememberServerUrl_eq [simp]:
  "rememberServerUrl E n url rh ttl out w = (Ret (url, rh),
     w\<lparr>w_tick := Suc (w_tick w), w_urls := w_urls w @ [\<lparr>ue_key = n, ue_value = \<lparr>cs_url = url, cs_hostname = rh\<rparr>,
         ue_at = env_now E (w_tick w), ue_ttl = ttl\<rparr>], w_discovery := w_discovery w @ [out]\<rparr>)"
  by (simp add: rememberServerUrl_def RecordDiscovery_def act_bind_def)

definition https :: "string \<Rightarrow> bool" where
  "https url \<longleftrightarrow> has_prefix ''https://'' url"

lemma https_url [simp]: "https (https_url h p)"
  by (simp add: https_def https_url_def)

lemma https_prefix: "https (''https://'' @ s)"
  by (simp only: https_def has_prefix_append)

lemma lookup_services_eq:
  "\<exists>r t. lookup_services E services host w = (Ret r, w\<lparr>w_tick := t\<rparr>) \<and> w_tick w \<le> t \<and> (\<forall>url. r = Some url \<longrightarrow> https url)"
proof (induction services arbitrary: w)
  case Nil
  show ?case by (intro exI [of _ None] exI [of _ "w_tick w"]) simp
next
  case (Cons s ss)
  show ?case
  proof (cases "env_srv E (w_tick w) s host")
    case Nil
    obtain r t where "lookup_services E ss host (w\<lparr>w_tick := Suc (w_tick w)\<rparr>) = (Ret r, w\<lparr>w_tick := t\<rparr>)"
        "Suc (w_tick w) \<le> t" "\<forall>url. r = Some url \<longrightarrow> https url"
      using Cons.IH [of "w\<lparr>w_tick := Suc (w_tick w)\<rparr>"] by auto
    with Nil show ?thesis by (intro exI [of _ r] exI [of _ t]) (simp add: act_bind_def)
  next
    case (Cons a as)
    obtain target port where "a = (target, port)" by force
    with Cons show ?thesis
      by (intro exI [of _ "Some (''https://'' @ trim_suffix ''.'' target @ '':'' @ show_nat port)"] exI [of _ "Suc (w_tick w)"])
        (simp add: act_bind_def https_prefix [simplified])
  qed
qed

lemma lookupSrv_eq:
  obtains r t where "lookupSrv E host w = (Ret r, w\<lparr>w_tick := t\<rparr>)" "w_tick w \<le> t" "\<And>url. r = Some url \<Longrightarrow> https url"
  using lookup_services_eq [of E "[''matrix-fed'', ''matrix'']" host w] unfolding lookupSrv_def by blast

text \<open>
  What a successful discovery leaves behind: one cache entry for the name that was asked, the
  outcome it counted, and at most one well-known request.
\<close>

definition discovered :: "env \<Rightarrow> string \<Rightarrow> world \<Rightarrow> string \<times> string \<Rightarrow> int \<Rightarrow> discovery_outcome \<Rightarrow> http_call list \<Rightarrow> world \<Rightarrow> bool" where
  "discovered E n w res ttl out calls w' \<longleftrightarrow>
     (\<exists>t e. w' = w\<lparr>w_tick := Suc t, w_urls := w_urls w @ [e], w_discovery := w_discovery w @ [out], w_calls := w_calls w @ calls\<rparr> \<and>
        w_tick w \<le> t \<and> e = \<lparr>ue_key = n, ue_value = \<lparr>cs_url = fst res, cs_hostname = snd res\<rparr>, ue_at = env_now E t, ue_ttl = ttl\<rparr> \<and>
        https (fst res))"

lemma discovered_remember:
  assumes "rememberServerUrl E n url rh ttl out (w\<lparr>w_tick := t\<rparr>) = (r, w')" "https url" "w_tick w \<le> t"
  shows "\<exists>res. r = Ret res \<and> discovered E n w res ttl out [] w'"
  using assms by (auto simp: discovered_def)

lemma discovered_remember_now:
  assumes "rememberServerUrl E n url rh ttl out w = (r, w')" "https url"
  shows "\<exists>res. r = Ret res \<and> discovered E n w res ttl out [] w'"
  by (rule discovered_remember [where t = "w_tick w"]) (use assms in simp_all)

lemma without_delegation_spec:
  assumes "without_delegation E n h p ttl out w = (r, w')"
  shows "\<exists>res. r = Ret res \<and> (discovered E n w res (min ttl discoveryAbsentTtl) DiscoverySRV [] w' \<or>
    discovered E n w res ttl (if out = DiscoveryWellKnownAbsent then DiscoveryFallback else out) [] w')"
proof (rule lookupSrv_eq [of E n w])
  fix s t assume l: "lookupSrv E n w = (Ret s, w\<lparr>w_tick := t\<rparr>)" "w_tick w \<le> t" "\<And>url. s = Some url \<Longrightarrow> https url"
  show ?thesis
  proof (cases s)
    case None
    with assms l(1) have "rememberServerUrl E n (https_url h p) h ttl
        (if out = DiscoveryWellKnownAbsent then DiscoveryFallback else out) (w\<lparr>w_tick := t\<rparr>) = (r, w')"
      by (simp add: without_delegation_def act_bind_def del: rememberServerUrl_eq)
    from discovered_remember [OF this https_url l(2)] show ?thesis by blast
  next
    case (Some url)
    with assms l(1) have "rememberServerUrl E n url h (min ttl discoveryAbsentTtl) DiscoverySRV (w\<lparr>w_tick := t\<rparr>) = (r, w')"
      by (simp add: without_delegation_def act_bind_def min_def del: rememberServerUrl_eq split: if_splits)
    from discovered_remember [OF this l(3) [OF Some] l(2)] show ?thesis by blast
  qed
qed

lemma with_delegation_spec:
  assumes "with_delegation E n h p wkAddr wkTtl w = (r, w')"
  shows "\<exists>res. r = Ret res \<and> (discovered E n w res wkTtl DiscoveryWellKnown [] w' \<or>
    (split_default wkAddr = None \<and> (discovered E n w res discoveryFailedTtl DiscoverySRV [] w' \<or>
     discovered E n w res discoveryFailedTtl DiscoveryWellKnownFailed [] w')))"
proof (cases "split_default wkAddr")
  case None
  then have "without_delegation E n h p discoveryFailedTtl DiscoveryWellKnownFailed w = (r, w')"
    using assms by (simp add: with_delegation_def)
  from without_delegation_spec [OF this] show ?thesis using None by (auto simp: ttl_defs min_def)
next
  case (Some x)
  obtain wh wp d where x: "x = (wh, wp, d)" by (metis prod_cases3)
  have "\<exists>res. r = Ret res \<and> discovered E n w res wkTtl DiscoveryWellKnown [] w'"
  proof (cases "env_is_IP E wh \<or> \<not> d")
    case True
    then obtain rh where "rememberServerUrl E n (https_url wh wp) rh wkTtl DiscoveryWellKnown w = (r, w')"
      using assms Some x by (auto simp: with_delegation_def simp del: rememberServerUrl_eq split: if_splits)
    from discovered_remember_now [OF this https_url] show ?thesis .
  next
    case False
    show ?thesis
    proof (rule lookupSrv_eq [of E wh w])
      fix s t assume l: "lookupSrv E wh w = (Ret s, w\<lparr>w_tick := t\<rparr>)" "w_tick w \<le> t" "\<And>url. s = Some url \<Longrightarrow> https url"
      obtain url where "https url" "rememberServerUrl E n url wh wkTtl DiscoveryWellKnown (w\<lparr>w_tick := t\<rparr>) = (r, w')"
        using assms Some x False l
        by (cases s) (auto simp: with_delegation_def act_bind_def simp del: rememberServerUrl_eq intro: that [OF https_url])
      from discovered_remember [OF this(2,1) l(2)] show ?thesis .
    qed
  qed
  then show ?thesis by blast
qed

lemma discovered_after_probe:
  assumes "discovered E n (w\<lparr>w_tick := Suc (w_tick w), w_calls := w_calls w @ cs\<rparr>) res ttl out [] w'"
  shows "discovered E n w res ttl out cs w'"
  using assms unfolding discovered_def by force

text \<open>
  What the verdict of the well-known request decides: how long the answer is kept, and the
  outcome that is counted.
\<close>

abbreviation probe_decides ::
  "env \<Rightarrow> string \<Rightarrow> world \<Rightarrow> string \<times> wellKnownOutcome \<times> int \<Rightarrow> http_call \<Rightarrow> string \<times> string \<Rightarrow> world \<Rightarrow> bool" where
  "probe_decides E n w verdict call res w' \<equiv> (case verdict of (addr, outcome, wkTtl) \<Rightarrow>
     outcome = wellKnownFound \<and> discovered E n w res wkTtl DiscoveryWellKnown [call] w' \<or>
     outcome = wellKnownAbsent \<and> (discovered E n w res discoveryAbsentTtl DiscoverySRV [call] w' \<or>
       discovered E n w res discoveryAbsentTtl DiscoveryFallback [call] w') \<or>
     (outcome = wellKnownFailed \<or> outcome = wellKnownFound \<and> split_default addr = None) \<and>
       (discovered E n w res discoveryFailedTtl DiscoverySRV [call] w' \<or>
        discovered E n w res discoveryFailedTtl DiscoveryWellKnownFailed [call] w'))"

lemma discover_probed:
  assumes "discover E n w = (r, w')" "split_default n = Some (h, p, d)" "\<not> env_is_IP E h" "d"
    and call: "call = WellKnownGet (''https://'' @ h @ ''/.well-known/matrix/server'')"
    and c: "classifyWellKnown (env_is_IP E) (env_is_RequestURI E) (env_http E (w_tick w) call) = (addr, outcome, wkTtl)"
  shows "\<exists>res. r = Ret res \<and> probe_decides E n w (addr, outcome, wkTtl) call res w'"
proof -
  define v where "v = w\<lparr>w_tick := Suc (w_tick w), w_calls := w_calls w @ [call]\<rparr>"
  have "probeWellKnown E h w = (Ret (addr, outcome, wkTtl), v)"
    using c unfolding call v_def by (simp add: probeWellKnown_def act_bind_def Let_def)
  then have run: "(if outcome = wellKnownFound then with_delegation E n h p addr wkTtl v
      else if outcome = wellKnownFailed then without_delegation E n h p discoveryFailedTtl DiscoveryWellKnownFailed v
      else without_delegation E n h p discoveryAbsentTtl DiscoveryWellKnownAbsent v) = (r, w')"
    using assms(1-4) by (cases outcome) (simp_all add: discover_def act_bind_def)
  note after = discovered_after_probe [of E n w "[call]", folded v_def]
  show ?thesis
  proof (cases outcome)
    case wellKnownFound
    with with_delegation_spec [of E n h p addr wkTtl v r w'] run after show ?thesis by auto
  next
    case wellKnownAbsent
    with without_delegation_spec [of E n h p discoveryAbsentTtl DiscoveryWellKnownAbsent v r w'] run after show ?thesis by auto
  next
    case wellKnownFailed
    with without_delegation_spec [of E n h p discoveryFailedTtl DiscoveryWellKnownFailed v r w'] run after
    show ?thesis by (auto simp: ttl_defs min_def)
  qed
qed

text \<open>
  Every way \<open>discover\<close> ends: a literal address needs no request; otherwise one well-known
  request decides.
\<close>

lemma discover_spec:
  assumes "discover E n w = (r, w')"
  shows "split_default n = None \<and> r = Fail (Err ''bad address'') \<and> w' = w \<or>
    (\<exists>h p d res. split_default n = Some (h, p, d) \<and> r = Ret res \<and>
      ((env_is_IP E h \<or> \<not> d) \<and> discovered E n w res discoveryValidTtl DiscoveryLiteral [] w' \<or>
       \<not> env_is_IP E h \<and> d \<and> (\<exists>call addr outcome wkTtl. call = WellKnownGet (''https://'' @ h @ ''/.well-known/matrix/server'') \<and>
         classifyWellKnown (env_is_IP E) (env_is_RequestURI E) (env_http E (w_tick w) call) = (addr, outcome, wkTtl) \<and>
         probe_decides E n w (addr, outcome, wkTtl) call res w')))"
proof (cases "split_default n")
  case None
  then show ?thesis using assms by (simp add: discover_def)
next
  case (Some x)
  obtain h p d where x: "x = (h, p, d)" by (metis prod_cases3)
  show ?thesis
  proof (cases "env_is_IP E h \<or> \<not> d")
    case True
    then obtain rh where "rememberServerUrl E n (https_url h p) rh discoveryValidTtl DiscoveryLiteral w = (r, w')"
      using assms Some x by (auto simp: discover_def simp del: rememberServerUrl_eq split: if_splits)
    from discovered_remember_now [OF this https_url] show ?thesis using True Some x by blast
  next
    case False
    define call where "call = WellKnownGet (''https://'' @ h @ ''/.well-known/matrix/server'')"
    obtain addr outcome wkTtl where c: "classifyWellKnown (env_is_IP E) (env_is_RequestURI E) (env_http E (w_tick w) call) = (addr, outcome, wkTtl)"
      by (metis prod_cases3)
    obtain res where "r = Ret res" "probe_decides E n w (addr, outcome, wkTtl) call res w'"
      using discover_probed [OF assms Some [unfolded x] _ _ call_def c] False by blast
    then show ?thesis using False Some x c call_def by blast
  qed
qed

lemma discovered_same_store: "discovered E n w res ttl out calls w' \<Longrightarrow> same_store w w'"
  by (auto simp: discovered_def same_store_def)

lemma discover_same_store: "same_store w (snd (discover E n w))"
  using discover_spec [of E n w "fst (discover E n w)" "snd (discover E n w)"] discovered_same_store
  by (fastforce simp: same_store_def)

lemma GetServerApiUrl_eq:
  "GetServerApiUrl E n w =
     (case env_cache_get E (w_urls w) n (env_now E (w_tick w)) of
        Some s \<Rightarrow> (Ret (cs_url s, cs_hostname s),
          w\<lparr>w_tick := Suc (w_tick w), w_discovery := w_discovery w @ [DiscoveryCached]\<rparr>)
      | None \<Rightarrow> discover E n (w\<lparr>w_tick := Suc (w_tick w)\<rparr>))"
  by (simp add: GetServerApiUrl_def act_bind_def RecordDiscovery_def split: option.split)

lemma GetServerApiUrl_same_store: "same_store w (snd (GetServerApiUrl E n w))"
  using discover_same_store [of "w\<lparr>w_tick := Suc (w_tick w)\<rparr>" E n]
  by (auto simp: GetServerApiUrl_eq same_store_def split: option.split)

lemma GetServerApiUrl_no_Panic [simp]: "GetServerApiUrl E n w \<noteq> (Panic p, w')"
  using discover_spec [of E n "w\<lparr>w_tick := Suc (w_tick w)\<rparr>" "Panic p" w']
  by (auto simp: GetServerApiUrl_eq split: option.split)

definition clients_ok :: "world \<Rightarrow> bool" where
  "clients_ok w \<longleftrightarrow> (\<forall>(h, c) \<in> set (w_clients w). hc_ServerName c = h \<and> hc_Timeout c = federationRequestTimeout)"

lemma FederatedGet_eq:
  assumes "clients_ok w" "env_is_URL E url"
  shows "\<exists>cs. FederatedGet E url h w = (env_http E (w_tick w) (FederatedCall url h h),
     w\<lparr>w_clients := cs, w_calls := w_calls w @ [FederatedCall url h h], w_tick := Suc (w_tick w)\<rparr>) \<and>
     clients_ok (w\<lparr>w_clients := cs\<rparr>) \<and> (\<exists>c. map_of cs h = Some c) \<and> (\<forall>k c. map_of (w_clients w) k = Some c \<longrightarrow> map_of cs k = Some c)"
proof (cases "map_of (w_clients w) h")
  case (Some c)
  then have "hc_ServerName c = h" using assms(1) by (auto simp: clients_ok_def dest: map_of_SomeD)
  with Some assms show ?thesis
    by (intro exI [of _ "w_clients w"]) (simp add: FederatedGet_def federatedClientFor_def act_bind_def Let_def)
next
  case None
  let ?c = "\<lparr>hc_ServerName = h, hc_Timeout = federationRequestTimeout\<rparr>"
  have "clients_ok (w\<lparr>w_clients := AList.update h ?c (w_clients w)\<rparr>)"
    using assms(1) set_AList_update [of h ?c "w_clients w"] by (fastforce simp: clients_ok_def)
  with None assms(2) show ?thesis
    by (intro exI [of _ "AList.update h ?c (w_clients w)"])
      (auto simp: FederatedGet_def federatedClientFor_def act_bind_def Let_def)
qed

lemma discovery_lifetime_aux:
  assumes "discover E n w = (Ret (url, host), w')"
  shows "\<exists>e calls. w_urls w' = w_urls w @ [e] \<and> ue_key e = n \<and>
    ue_value e = \<lparr>cs_url = url, cs_hostname = host\<rparr> \<and> has_prefix ''https://'' url \<and>
    w_calls w' = w_calls w @ calls \<and> length calls \<le> 1 \<and>
    5 * Minute \<le> ue_ttl e \<and> ue_ttl e \<le> 48 * Hour \<and>
    (calls = [] \<longrightarrow> ue_ttl e = 24 * Hour) \<and>
    (\<forall>call \<in> set calls. fst (snd (classifyWellKnown (env_is_IP E) (env_is_RequestURI E) (env_http E (w_tick w) call))) = wellKnownFailed
       \<longrightarrow> ue_ttl e = 5 * Minute) \<and>
    w_db w' = w_db w \<and> w_walks w' = w_walks w"
proof -
  have main: "\<exists>e calls. w_urls w' = w_urls w @ [e] \<and> ue_key e = n \<and>
      ue_value e = \<lparr>cs_url = url, cs_hostname = host\<rparr> \<and> has_prefix ''https://'' url \<and>
      w_calls w' = w_calls w @ cs \<and> ue_ttl e = ttl \<and> w_db w' = w_db w \<and> w_walks w' = w_walks w"
    if "discovered E n w (url, host) ttl out cs w'" for ttl out cs
    using that by (auto simp: discovered_def https_def)
  have ttl: "discoveryAbsentTtl \<le> wkTtl \<and> wkTtl \<le> discoveryMaxTtl"
    if "classifyWellKnown is_IP is_URI r = (addr, wellKnownFound, wkTtl)" for is_IP is_URI r addr wkTtl
    using classify_cases [OF that] wellKnownTtlFrom_range by auto
  consider (literal) "discovered E n w (url, host) discoveryValidTtl DiscoveryLiteral [] w'"
    | (probed) call addr outcome wkTtl out ttl where
      "classifyWellKnown (env_is_IP E) (env_is_RequestURI E) (env_http E (w_tick w) call) = (addr, outcome, wkTtl)"
      "discovered E n w (url, host) ttl out [call] w'"
      "outcome = wellKnownFailed \<longrightarrow> ttl = discoveryFailedTtl" "discoveryFailedTtl \<le> ttl" "ttl \<le> discoveryMaxTtl"
    using discover_spec [OF assms] ttl by (fastforce simp: ttl_defs)
  then show ?thesis
  proof cases
    case literal
    from main [OF this] obtain e where "w_urls w' = w_urls w @ [e]" "ue_key e = n"
      "ue_value e = \<lparr>cs_url = url, cs_hostname = host\<rparr>" "has_prefix ''https://'' url" "w_calls w' = w_calls w"
      "ue_ttl e = discoveryValidTtl" "w_db w' = w_db w" "w_walks w' = w_walks w" by auto
    then show ?thesis by (intro exI [of _ e] exI [of _ "[]"]) (simp add: ttl_defs)
  next
    case probed
    from main [OF probed(2)] obtain e where "w_urls w' = w_urls w @ [e]" "ue_key e = n"
      "ue_value e = \<lparr>cs_url = url, cs_hostname = host\<rparr>" "has_prefix ''https://'' url" "w_calls w' = w_calls w @ [call]"
      "ue_ttl e = ttl" "w_db w' = w_db w" "w_walks w' = w_walks w" by auto
    then show ?thesis using probed(1,3-5) by (intro exI [of _ e] exI [of _ "[call]"]) (simp add: ttl_defs)
  qed
qed

subsection \<open>Properties\<close>

text \<open>
  C36: how long a discovered URL is kept. A discovery that succeeds remembers one entry, for the
  name it was asked about, with an https URL. It keeps it between five minutes and two days;
  for five minutes exactly when the well-known request told it nothing; and for a literal
  address or port, which needs no request at all, one day.
\<close>

theorem discovery_lifetime:
  assumes "discover E n w = (Ret (url, host), w')"
  shows "\<exists>e calls. w_urls w' = w_urls w @ [e] \<and> ue_key e = n \<and>
    ue_value e = \<lparr>cs_url = url, cs_hostname = host\<rparr> \<and> has_prefix ''https://'' url \<and>
    w_calls w' = w_calls w @ calls \<and> length calls \<le> 1 \<and>
    5 * Minute \<le> ue_ttl e \<and> ue_ttl e \<le> 48 * Hour \<and>
    (calls = [] \<longrightarrow> ue_ttl e = 24 * Hour) \<and>
    (\<forall>call \<in> set calls. fst (snd (classifyWellKnown (env_is_IP E) (env_is_RequestURI E) (env_http E (w_tick w) call))) = wellKnownFailed
       \<longrightarrow> ue_ttl e = 5 * Minute) \<and>
    w_db w' = w_db w \<and> w_walks w' = w_walks w"
  by (rule discovery_lifetime_aux [OF assms])

definition demo_env :: env where
  "demo_env = \<lparr>env_crypto = demo_crypto, env_now = (\<lambda>t. int t * Second), env_http = (\<lambda>_ _. Ret demo_404),
     env_srv = (\<lambda>_ _ _. []), env_genkey = (\<lambda>_. Ret (demo_pub, demo_key)), env_random = (\<lambda>_ n. Ret (replicate n (CHR ''r''))),
     env_is_IP = (\<lambda>_. False), env_is_RequestURI = (\<lambda>_. True), env_is_URL = (\<lambda>_. True), env_cache_get = list_cache_get,
     env_TrustedNotaries = [''notary''], env_SelfDomainName = ''self''\<rparr>"

lemma demo_is_URL [simp]: "env_is_URL demo_env url"
  by (simp add: demo_env_def)

definition demo_world :: world where
  "demo_world = \<lparr>w_db = empty_db (\<lambda>_. Works), w_walks = newWalkSchedule notaryWalkCooldown, w_urls = [], w_clients = [],
     w_own = None, w_tick = 0, w_calls = [], w_discovery = [], w_outcomes = [],
     w_origin_fetches = [], w_notary_fetches = [], w_requests = []\<rparr>"

lemma demo_split: "split_default ''s'' = Some (''s'', ''8448'', True)"
  by code_simp

lemma demo_discover:
  "discover demo_env ''s'' w = (Ret (''https://s:8448'', ''s''), snd (discover demo_env ''s'' w))"
  by (simp add: discover_def demo_split demo_env_def probeWellKnown_def classifyWellKnown_def demo_404_def act_bind_def
      without_delegation_def lookupSrv_def https_url_def Let_def)

theorem discovery_lifetime_witness:
  "\<exists>e calls. w_urls (snd (discover demo_env ''s'' demo_world)) = [e] \<and> ue_key e = ''s'' \<and> ue_ttl e \<le> 48 * Hour"
  using discovery_lifetime [OF demo_discover, of demo_world] by (auto simp: demo_world_def)

text \<open>
  A remembered URL is reused. After a lookup that had to discover, any lookup of the same
  name within five minutes returns the same URL and host and sends no request, whatever other
  names were discovered in between, provided none of them is the name itself.
\<close>

theorem discovery_cached:
  assumes "go_cache_contract E"
    and "env_cache_get E (w_urls w) n (env_now E (w_tick w)) = None"
    and "GetServerApiUrl E n w = (Ret (url, host), w')"
    and "w_urls v = w_urls w' @ others" and "\<forall>e \<in> set others. ue_key e \<noteq> n"
    and "\<forall>t. w_tick w < t \<and> t < w_tick w' \<longrightarrow> env_now E (w_tick v) \<le> env_now E t + 5 * Minute"
  shows "GetServerApiUrl E n v = (Ret (url, host), v\<lparr>w_tick := Suc (w_tick v), w_discovery := w_discovery v @ [DiscoveryCached]\<rparr>)"
proof -
  have d: "discover E n (w\<lparr>w_tick := Suc (w_tick w)\<rparr>) = (Ret (url, host), w')"
    using assms(2,3) by (simp add: GetServerApiUrl_eq)
  obtain ttl out calls where dd: "discovered E n (w\<lparr>w_tick := Suc (w_tick w)\<rparr>) (url, host) ttl out calls w'"
    using discover_spec [OF d] by blast
  obtain e calls where e: "w_urls w' = w_urls w @ [e]" "ue_key e = n" "ue_value e = \<lparr>cs_url = url, cs_hostname = host\<rparr>"
      "5 * Minute \<le> ue_ttl e"
    using discovery_lifetime_aux [OF d] by auto
  obtain t where t: "w_tick w' = Suc t" "w_tick w < t" "ue_at e = env_now E t"
    using dd e(1) by (auto simp: discovered_def)
  have "env_now E (w_tick v) \<le> ue_at e + ue_ttl e" using assms(6) t e(4) by force
  moreover have "last_set (w_urls v) n = Some e"
  proof -
    have "find (\<lambda>e. ue_key e = n) (rev others @ e # rest) = Some e" for rest
      using assms(5) e(2) by (induction others rule: rev_induct) auto
    then show ?thesis using assms(4) e(1) by (simp add: last_set_def)
  qed
  ultimately have "env_cache_get E (w_urls v) n (env_now E (w_tick v)) = Some \<lparr>cs_url = url, cs_hostname = host\<rparr>"
    using assms(1) e(3) unfolding go_cache_contract_def by auto
  then show ?thesis by (simp add: GetServerApiUrl_eq)
qed

theorem discovery_cached_witness:
  "\<exists>w'. GetServerApiUrl demo_env ''s'' demo_world = (Ret (''https://s:8448'', ''s''), w') \<and>
     GetServerApiUrl demo_env ''s'' w' = (Ret (''https://s:8448'', ''s''),
       w'\<lparr>w_tick := Suc (w_tick w'), w_discovery := w_discovery w' @ [DiscoveryCached]\<rparr>)"
proof -
  let ?v = "demo_world\<lparr>w_tick := 1\<rparr>"
  have miss: "env_cache_get demo_env (w_urls demo_world) ''s'' (env_now demo_env (w_tick demo_world)) = None"
    by (simp add: demo_env_def demo_world_def list_cache_get_def last_set_def)
  define w' where "w' = snd (discover demo_env ''s'' ?v)"
  have g: "GetServerApiUrl demo_env ''s'' demo_world = (Ret (''https://s:8448'', ''s''), w')"
    using miss demo_discover [of ?v] by (simp add: GetServerApiUrl_eq w'_def) (simp add: demo_world_def)
  have "w_tick w' = 5"
    by (simp add: w'_def discover_def demo_split demo_env_def probeWellKnown_def classifyWellKnown_def demo_404_def act_bind_def
      without_delegation_def lookupSrv_def https_url_def Let_def)
  then have "\<forall>t. w_tick demo_world < t \<and> t < w_tick w' \<longrightarrow> env_now demo_env (w_tick w') \<le> env_now demo_env t + 5 * Minute"
    by (simp add: demo_env_def)
  with discovery_cached [OF list_cache_contract miss g, of w' "[]"] g show ?thesis
    by (simp add: demo_env_def)
qed

text \<open>
  No request is sent under another host's certificate. A federated request goes out with
  the host it names as the expected TLS server name, the pool of clients keeps this for every
  later request, and a pooled client is never replaced.
\<close>

theorem federated_request_host:
  assumes "clients_ok w" and "FederatedGet E url h w = (r, w')" and "env_is_URL E url"
  shows "w_calls w' = w_calls w @ [FederatedCall url h h] \<and> r = env_http E (w_tick w) (FederatedCall url h h) \<and>
    clients_ok w' \<and> (\<forall>k c. map_of (w_clients w) k = Some c \<longrightarrow> map_of (w_clients w') k = Some c) \<and>
    w_db w' = w_db w \<and> w_urls w' = w_urls w"
  using FederatedGet_eq [OF assms(1,3), of h] assms(2) by (auto simp: clients_ok_def)

theorem federated_request_host_witness:
  "\<exists>r w'. FederatedGet demo_env ''https://s:8448/x'' ''s'' demo_world = (r, w') \<and>
     w_calls w' = [FederatedCall ''https://s:8448/x'' ''s'' ''s'']"
proof -
  obtain r w' where g: "FederatedGet demo_env ''https://s:8448/x'' ''s'' demo_world = (r, w')" by force
  have "clients_ok demo_world" by (simp add: clients_ok_def demo_world_def)
  from federated_request_host [OF this g] g show ?thesis by (simp add: demo_world_def demo_env_def)
qed
end
