(* ===== verification/KeyStore.thy ===== *)
theory KeyStore
  imports Discovery
begin

text \<open>
  Storing and loading the keys of a remote server (\<open>keys/notary.go\<close>): \<open>loadHeld\<close>,
  \<open>packageCachedKeysFor\<close>, \<open>InvalidateHeld\<close>, \<open>storeRemoteKeys\<close> and \<open>grabPublicKeys\<close>. Each of
  the first four runs under the lock of its server, so it is one action on the database.
\<close>

definition packageCachedKeysFor :: "RemoteServer \<Rightarrow> CachedRemoteKeys dbact" where
  "packageCachedKeysFor server =
     act_bind (GetAllRemoteServerKeys (rs_ServerName server)) (\<lambda>ks.
     act_bind (GetAllRemoteServerSignatures (rs_ServerName server)) (\<lambda>sigs.
     act_ret \<lparr>ck_RemoteServer = server, ck_Signatures = sigs, ck_Keys = ks\<rparr>))"

definition loadHeld :: "ServerName \<Rightarrow> (RemoteServer option \<times> CachedRemoteKeys option) dbact" where
  "loadHeld serverName =
     act_bind (GetRemoteServerMetadata serverName) (\<lambda>s.
       (case s of
          None \<Rightarrow> act_ret (None, None)
        | Some s \<Rightarrow> act_bind (packageCachedKeysFor s) (\<lambda>held. act_ret (Some s, Some held))))"

definition InvalidateHeld :: "ServerName \<Rightarrow> unit dbact" where
  "InvalidateHeld serverName = InvalidateRemoteServer serverName"

definition verify_key_of :: "ServerName \<Rightarrow> KeyID \<times> VerifyKey \<Rightarrow> RemoteKey" where
  "verify_key_of n = (\<lambda>(keyId, key). \<lparr>rk_ServerName = n, rk_ID = keyId, rk_PublicKey = vk_Key key, rk_ExpiresTs = 0\<rparr>)"

definition old_key_of :: "ServerName \<Rightarrow> KeyID \<times> OldVerifyKey \<Rightarrow> RemoteKey" where
  "old_key_of n = (\<lambda>(keyId, key).
     \<lparr>rk_ServerName = n, rk_ID = keyId, rk_PublicKey = ov_Key key, rk_ExpiresTs = ov_ExpiredTs key\<rparr>)"

definition signature_of :: "ServerName \<Rightarrow> KeyID \<times> string \<Rightarrow> RemoteSignature" where
  "signature_of n = (\<lambda>(keyId, s). \<lparr>sg_ServerName = n, sg_KeyID = keyId, sg_Signature = s\<rparr>)"

definition add_key :: "RemoteKey \<Rightarrow> unit dbact" where
  "add_key k = AddRemoteServerKey (rk_ServerName k) (rk_ID k) (rk_PublicKey k) (rk_ExpiresTs k)"

definition add_signature :: "RemoteSignature \<Rightarrow> unit dbact" where
  "add_signature s = AddRemoteServerSignature (sg_ServerName s) (sg_KeyID s) (sg_Signature s)"

text \<open>The answer that \<open>storeRemoteKeys\<close> builds, and the statements that write it.\<close>

definition stored_keys :: "ServerKeyResultUnsigned \<Rightarrow> RemoteKey list" where
  "stored_keys u =
     map (verify_key_of (sku_ServerName u)) (nil_entries (sku_VerifyKeys u)) @
     map (old_key_of (sku_ServerName u)) (nil_entries (sku_OldVerifyKeys u))"

definition stored_result :: "int \<Rightarrow> ServerKeyResultUnsigned \<Rightarrow> Signatures \<Rightarrow> AdditionalJSON \<Rightarrow> string \<Rightarrow> CachedRemoteKeys" where
  "stored_result now u sigs additionalJson obtainedViaNotary =
     \<lparr>ck_RemoteServer = \<lparr>rs_ServerName = sku_ServerName u, rs_UpdatedTs = now, rs_ValidUntilTs = sku_ValidUntilTs u,
        rs_NonStandardJSON = additionalJson, rs_ObtainedViaNotary = obtainedViaNotary,
        rs_OriginFailures = 0, rs_NextOriginAttemptTs = 0\<rparr>,
      ck_Signatures = concat (map (\<lambda>(_, sig). map (signature_of (sku_ServerName u)) (nil_entries sig)) (nil_entries sigs)),
      ck_Keys = stored_keys u\<rparr>"

definition write_at :: "int \<Rightarrow> ServerKeyResultUnsigned \<Rightarrow> Signatures \<Rightarrow> AdditionalJSON \<Rightarrow> string \<Rightarrow> CachedRemoteKeys dbact" where
  "write_at now u sigs additionalJson obtainedViaNotary =
     (let n = sku_ServerName u in
      act_bind (UpsertRemoteServer n now (sku_ValidUntilTs u) additionalJson obtainedViaNotary) (\<lambda>_.
      act_bind (DeleteRemoteServerKeys n) (\<lambda>_.
      act_bind (DeleteRemoteServerSignatures n) (\<lambda>_.
      act_bind (if obtainedViaNotary = [] then act_bind (act_try (ResetOriginProbe n)) (\<lambda>_. act_ret ()) else act_ret ()) (\<lambda>_.
      act_bind (act_iter (\<lambda>k. add_key (verify_key_of n k)) (nil_entries (sku_VerifyKeys u))) (\<lambda>_.
      act_bind (act_iter (\<lambda>k. add_key (old_key_of n k)) (nil_entries (sku_OldVerifyKeys u))) (\<lambda>_.
      act_bind (act_iter (\<lambda>(_, sig). act_iter (\<lambda>s. add_signature (signature_of n s)) (nil_entries sig)) (nil_entries sigs)) (\<lambda>_.
      act_ret (stored_result now u sigs additionalJson obtainedViaNotary)))))))))"

text \<open>
  \<open>storeRemoteKeys\<close> after it has read the clock: the upgrade rule, then the writes. An error
  of the metadata query counts as there being no record.
\<close>

definition store_at :: "int \<Rightarrow> ServerKeyResultUnsigned \<Rightarrow> Signatures \<Rightarrow> AdditionalJSON \<Rightarrow> string \<Rightarrow> CachedRemoteKeys dbact" where
  "store_at now u sigs additionalJson obtainedViaNotary =
     act_bind (act_try (GetRemoteServerMetadata (sku_ServerName u))) (\<lambda>existing.
       (case existing of
          Ret (Some ex) \<Rightarrow>
            if obtainedViaNotary \<noteq> [] \<and> sku_ValidUntilTs u \<le> rs_ValidUntilTs ex
            then packageCachedKeysFor ex
            else write_at now u sigs additionalJson obtainedViaNotary
        | _ \<Rightarrow> write_at now u sigs additionalJson obtainedViaNotary))"

definition storeRemoteKeys :: "env \<Rightarrow> ServerKeyResult \<Rightarrow> AdditionalJSON \<Rightarrow> string \<Rightarrow> CachedRemoteKeys io" where
  "storeRemoteKeys E keyInfo additionalJson obtainedViaNotary =
     act_bind (NowMillis E) (\<lambda>now.
       (case skr_Unsigned keyInfo of
          None \<Rightarrow> act_pure (Panic ''nil pointer dereference'')
        | Some u \<Rightarrow> lift_db (store_at now u (skr_Signatures keyInfo) additionalJson obtainedViaNotary)))"

fun decode_keys :: "(KeyID \<times> VerifyKey) list \<Rightarrow> string gomap \<Rightarrow> string gomap go" where
  "decode_keys [] acc = Ret acc"
| "decode_keys ((keyId, encodedKey) # ks) acc =
     go_bind (DecodeUnpaddedBase64String (vk_Key encodedKey)) (\<lambda>b. decode_keys ks (AList.update keyId b acc))"

definition grabPublicKeys :: "ServerKeyResult \<Rightarrow> (string gomap) gomap go" where
  "grabPublicKeys keyInfo =
     (case skr_Unsigned keyInfo of
        None \<Rightarrow> Panic ''nil pointer dereference''
      | Some u \<Rightarrow> go_bind (decode_keys (nil_entries (sku_VerifyKeys u)) []) (\<lambda>ks. Ret [(sku_ServerName u, ks)]))"

subsection \<open>Reads leave the tables alone\<close>

definition same_tables :: "db \<Rightarrow> db \<Rightarrow> bool" where
  "same_tables d e \<longleftrightarrow> self_keys e = self_keys d \<and> remote_servers e = remote_servers d \<and>
     remote_keys e = remote_keys d \<and> remote_signatures e = remote_signatures d \<and> db_fault e = db_fault d \<and>
     db_tick d \<le> db_tick e"

lemma same_tables_refl [simp]: "same_tables d d" "same_tables d (tick d)"
  by (simp_all add: same_tables_def)

lemma same_tables_trans: "same_tables d e \<Longrightarrow> same_tables e f \<Longrightarrow> same_tables d f"
  by (auto simp: same_tables_def)

lemma same_tables_ok: "same_tables d e \<Longrightarrow> db_ok e = db_ok d"
  by (simp add: same_tables_def db_ok_def known_server_def)

lemma same_tables_sel: "same_tables d e \<Longrightarrow> selectRemoteKeys n e = selectRemoteKeys n d \<and>
    selectRemoteSignatures n e = selectRemoteSignatures n d \<and> known_server n e = known_server n d"
  by (simp add: same_tables_def selectRemoteKeys_def selectRemoteSignatures_def known_server_def)

lemma same_tables_healthy: "same_tables d e \<Longrightarrow> db_healthy d \<Longrightarrow> db_healthy e"
  by (simp add: same_tables_def db_healthy_def)

lemma rows_unchecked_snd [simp]: "snd (rows_unchecked (query_stmt ps f) g d) = tick d"
  using query_snd(1) [of ps f d]
  by (cases "query_stmt ps f d"; cases "fst (query_stmt ps f d)")
    (auto simp: rows_unchecked_def act_bind_def split: prod.splits)

lemma same_tables_bind:
  "same_tables d (snd (m d)) \<Longrightarrow> (\<And>x e. same_tables e (snd (f x e))) \<Longrightarrow> same_tables d (snd (act_bind m f d))"
  by (rule act_bind_keeps [where P = "same_tables d"]) (auto intro: same_tables_trans)

lemma packageCachedKeysFor_tables: "same_tables d (snd (packageCachedKeysFor s d))"
  unfolding packageCachedKeysFor_def
  by (intro same_tables_bind) (simp_all add: GetAllRemoteServerKeys_def GetAllRemoteServerSignatures_def)

lemma loadHeld_tables: "same_tables d (snd (loadHeld n d))"
  unfolding loadHeld_def
  by (intro same_tables_bind) (auto intro!: same_tables_bind packageCachedKeysFor_tables split: option.split)

lemma rows_unchecked_no_Panic [simp]: "rows_unchecked (query_stmt ps f) g d \<noteq> (Panic p, d')"
  by (auto simp: rows_unchecked_def act_bind_eq_Panic_iff split: prod.splits)

lemma packageCachedKeysFor_no_Panic [simp]: "packageCachedKeysFor s d \<noteq> (Panic p, d')"
  by (auto simp: packageCachedKeysFor_def act_bind_eq_Panic_iff GetAllRemoteServerKeys_def GetAllRemoteServerSignatures_def)

lemma loadHeld_no_Panic [simp]: "loadHeld n d \<noteq> (Panic p, d')"
  by (auto simp: loadHeld_def act_bind_eq_Panic_iff split: option.splits)

subsection \<open>What a load returns\<close>

text \<open>The held keys of a server, as the tables have them.\<close>

definition key_of_row :: "key_row \<Rightarrow> RemoteKey" where
  "key_of_row r = \<lparr>rk_ServerName = kr_server_name r, rk_ID = kr_key_id r, rk_PublicKey = kr_public_key_b64 r,
     rk_ExpiresTs = kr_expires_ts r\<rparr>"

definition sig_of_row :: "sig_row \<Rightarrow> RemoteSignature" where
  "sig_of_row r = \<lparr>sg_ServerName = gr_server_name r, sg_KeyID = gr_key_id r, sg_Signature = gr_signature_b64 r\<rparr>"

definition held_in :: "db \<Rightarrow> RemoteServer \<Rightarrow> CachedRemoteKeys" where
  "held_in d s = \<lparr>ck_RemoteServer = s, ck_Signatures = map sig_of_row (selectRemoteSignatures (rs_ServerName s) d),
     ck_Keys = map key_of_row (selectRemoteKeys (rs_ServerName s) d)\<rparr>"

lemma db_healthy_tick [simp]: "db_healthy d \<Longrightarrow> db_healthy (tick d)"
  by (simp add: db_healthy_def)

lemma query_stmt_healthy: "db_healthy d \<Longrightarrow> list_all pg_text ps \<Longrightarrow> query_stmt ps f d = (Ret (f (tick d), False), tick d)"
  by (simp add: query_stmt_Ret db_healthy_def)

lemma packageCachedKeysFor_healthy:
  assumes "db_healthy d" "pg_text (rs_ServerName s)"
  shows "packageCachedKeysFor s d = (Ret (held_in d s), tick (tick d))"
  using assms
  by (simp add: packageCachedKeysFor_def act_bind_def GetAllRemoteServerKeys_def GetAllRemoteServerSignatures_def
      rows_unchecked_def query_stmt_healthy held_in_def selectRemoteKeys_def selectRemoteSignatures_def key_of_row_def sig_of_row_def)

lemma GetRemoteServerMetadata_healthy:
  assumes "db_healthy d" "pg_text n" "db_ok d"
  shows "\<exists>s. GetRemoteServerMetadata n d = (Ret s, tick d) \<and>
    (case map_of (remote_servers d) n of None \<Rightarrow> s = None
     | Some r \<Rightarrow> \<exists>addl. unmarshal_map (sr_nonstandard_json r) = Ret addl \<and> s = Some (server_of_row n r addl))"
proof (cases "map_of (remote_servers d) n")
  case None
  then show ?thesis using assms db_okD db_healthy_up GetRemoteServerMetadata_Ret [of d n None "tick d"] by auto
next
  case (Some r)
  then obtain addl where "unmarshal_map (sr_nonstandard_json r) = Ret addl"
    using server_row_lookup [OF assms(3)] unfolding server_row_ok_def by blast
  then show ?thesis
    using Some assms db_okD db_healthy_up GetRemoteServerMetadata_Ret [of d n "Some (server_of_row n r addl)" "tick d"] by auto
qed

lemma loadHeld_healthy:
  assumes "db_healthy d" "pg_text n" "db_ok d"
  shows "case map_of (remote_servers d) n of
      None \<Rightarrow> loadHeld n d = (Ret (None, None), tick d)
    | Some r \<Rightarrow> \<exists>addl. unmarshal_map (sr_nonstandard_json r) = Ret addl \<and>
        loadHeld n d = (Ret (Some (server_of_row n r addl), Some (held_in d (server_of_row n r addl))), tick (tick (tick d)))"
proof (cases "map_of (remote_servers d) n")
  case None
  then show ?thesis using GetRemoteServerMetadata_healthy [OF assms] by (auto simp: loadHeld_def act_bind_def)
next
  case (Some r)
  then obtain addl where a: "unmarshal_map (sr_nonstandard_json r) = Ret addl"
      "GetRemoteServerMetadata n d = (Ret (Some (server_of_row n r addl)), tick d)"
    using GetRemoteServerMetadata_healthy [OF assms] by auto
  have "rs_ServerName (server_of_row n r addl) = n" by (simp add: server_of_row_def)
  then have "packageCachedKeysFor (server_of_row n r addl) (tick d) =
      (Ret (held_in d (server_of_row n r addl)), tick (tick (tick d)))"
    using packageCachedKeysFor_healthy [of "tick d" "server_of_row n r addl"] assms
    by (simp add: held_in_def selectRemoteKeys_def selectRemoteSignatures_def)
  then show ?thesis using Some a by (simp add: loadHeld_def act_bind_def)
qed

subsection \<open>Storing as one replacement\<close>

lemma act_bind_assoc: "act_bind (act_bind m f) g = act_bind m (\<lambda>x. act_bind (f x) g)"
  by (rule ext) (simp add: act_bind_def split: prod.split go.split)

lemma act_bind_ret [simp]: "act_bind (act_ret x) f = f x"
  by (rule ext) (simp add: act_bind_def)

lemma act_iter_map: "act_iter f (map g xs) = act_iter (\<lambda>x. f (g x)) xs"
  by (induction xs) simp_all

lemma act_iter_append: "act_iter f (xs @ ys) = act_bind (act_iter f xs) (\<lambda>_. act_iter f ys)"
  by (induction xs) (simp_all add: act_bind_assoc del: act_ret_eq)

lemma act_iter_concat: "act_iter f (concat xss) = act_iter (act_iter f) xss"
  by (induction xss) (simp_all add: act_iter_append)

definition row_of_key :: "RemoteKey \<Rightarrow> key_row" where
  "row_of_key k = \<lparr>kr_server_name = rk_ServerName k, kr_key_id = rk_ID k, kr_public_key_b64 = rk_PublicKey k,
     kr_expires_ts = rk_ExpiresTs k\<rparr>"

definition row_of_sig :: "RemoteSignature \<Rightarrow> sig_row" where
  "row_of_sig s = \<lparr>gr_server_name = sg_ServerName s, gr_key_id = sg_KeyID s, gr_signature_b64 = sg_Signature s\<rparr>"

lemma key_of_row_of_key [simp]: "key_of_row (row_of_key k) = k" "kr_server_name (row_of_key k) = rk_ServerName k"
  "kr_key_id (row_of_key k) = rk_ID k" "kr_public_key_b64 (row_of_key k) = rk_PublicKey k"
  by (simp_all add: key_of_row_def row_of_key_def)

lemma sig_of_row_of_sig [simp]: "sig_of_row (row_of_sig s) = s" "gr_server_name (row_of_sig s) = sg_ServerName s"
  "gr_key_id (row_of_sig s) = sg_KeyID s" "gr_signature_b64 (row_of_sig s) = sg_Signature s"
  by (simp_all add: sig_of_row_def row_of_sig_def)

lemma add_key_row_of: "add_key k = add_key_row (row_of_key k)"
  by (simp add: add_key_def add_key_row_def) (simp add: row_of_key_def)

lemma add_signature_row_of: "add_signature s = add_sig_row (row_of_sig s)"
  by (simp add: add_signature_def add_sig_row_def)

definition stored_sigs :: "ServerName \<Rightarrow> Signatures \<Rightarrow> RemoteSignature list" where
  "stored_sigs n sigs = concat (map (\<lambda>(_, sig). map (signature_of n) (nil_entries sig)) (nil_entries sigs))"

lemma ck_stored_result [simp]:
  "ck_Keys (stored_result now u sigs addl notary) = stored_keys u"
  "ck_Signatures (stored_result now u sigs addl notary) = stored_sigs (sku_ServerName u) sigs"
  "rs_ServerName (ck_RemoteServer (stored_result now u sigs addl notary)) = sku_ServerName u"
  "ck_ValidUntilTs (stored_result now u sigs addl notary) = sku_ValidUntilTs u"
  by (simp_all add: stored_result_def stored_sigs_def)

definition clear_probe :: "ServerName \<Rightarrow> string \<Rightarrow> unit dbact" where
  "clear_probe n notary = (if notary = [] then act_bind (act_try (ResetOriginProbe n)) (\<lambda>_. act_ret ()) else act_ret ())"

lemma write_at_eq:
  "write_at now u sigs addl notary = (let n = sku_ServerName u in
     act_bind (UpsertRemoteServer n now (sku_ValidUntilTs u) addl notary) (\<lambda>_.
     act_bind (DeleteRemoteServerKeys n) (\<lambda>_.
     act_bind (DeleteRemoteServerSignatures n) (\<lambda>_.
     act_bind (clear_probe n notary) (\<lambda>_.
     act_bind (act_iter add_key_row (map row_of_key (stored_keys u))) (\<lambda>_.
     act_bind (act_iter add_sig_row (map row_of_sig (stored_sigs n sigs))) (\<lambda>_.
     act_ret (stored_result now u sigs addl notary))))))))"
proof -
  have keys: "act_iter add_key_row (map row_of_key (stored_keys u)) =
     act_bind (act_iter (\<lambda>k. add_key (verify_key_of (sku_ServerName u) k)) (nil_entries (sku_VerifyKeys u))) (\<lambda>_.
       act_iter (\<lambda>k. add_key (old_key_of (sku_ServerName u) k)) (nil_entries (sku_OldVerifyKeys u)))"
    by (simp add: stored_keys_def act_iter_append act_iter_map add_key_row_of)
  have sigs: "act_iter add_sig_row (map row_of_sig (stored_sigs (sku_ServerName u) sigs)) =
     act_iter (\<lambda>(_, sig). act_iter (\<lambda>s. add_signature (signature_of (sku_ServerName u) s)) (nil_entries sig)) (nil_entries sigs)"
    by (simp add: stored_sigs_def act_iter_map act_iter_concat add_signature_row_of split_def)
  show ?thesis
    unfolding write_at_def clear_probe_def Let_def keys sigs by (simp add: act_bind_assoc)
qed

lemma stored_keys_owner: "k \<in> set (stored_keys u) \<Longrightarrow> rk_ServerName k = sku_ServerName u"
  by (auto simp: stored_keys_def verify_key_of_def old_key_of_def)

lemma stored_sigs_owner: "s \<in> set (stored_sigs n sigs) \<Longrightarrow> sg_ServerName s = n"
  by (auto simp: stored_sigs_def signature_of_def)

subsection \<open>Storing keeps the integrity, and touches one server\<close>

lemma act_iter_db_ok:
  assumes "db_ok d" "\<And>x d. db_ok d \<Longrightarrow> db_ok (snd (f x d))"
  shows "db_ok (snd (act_iter f xs d))"
  by (rule act_iter_keeps) (use assms in auto)

lemma add_rows_ok: "db_ok d \<Longrightarrow> db_ok (snd (add_key_row r d))" "db_ok d \<Longrightarrow> db_ok (snd (add_sig_row s d))"
  unfolding add_key_row_def add_sig_row_def by (auto intro: writes_ok)

lemma clear_probe_ok: "db_ok d \<Longrightarrow> db_ok (snd (clear_probe n notary d))"
  unfolding clear_probe_def by (auto intro!: act_bind_keeps [where P = db_ok] writes_ok)

lemma write_at_ok:
  assumes "db_ok d" "go_json (JObj addl)"
  shows "db_ok (snd (write_at now u sigs addl notary d))"
  unfolding write_at_eq Let_def using assms
  by (intro act_bind_keeps [where P = db_ok] writes_ok clear_probe_ok act_iter_db_ok add_rows_ok) simp_all

lemma store_at_ok:
  assumes "db_ok d" "go_json (JObj addl)"
  shows "db_ok (snd (store_at now u sigs addl notary d))"
  unfolding store_at_def
proof (rule act_bind_keeps [where P = db_ok])
  show "db_ok (snd (act_try (GetRemoteServerMetadata (sku_ServerName u)) d))" using assms by simp
next
  fix ex d' assume "db_ok d'"
  then show "db_ok (snd ((case ex of
          Ret (Some ex) \<Rightarrow>
            if notary \<noteq> [] \<and> sku_ValidUntilTs u \<le> rs_ValidUntilTs ex
            then packageCachedKeysFor ex else write_at now u sigs addl notary
        | _ \<Rightarrow> write_at now u sigs addl notary) d'))"
    using write_at_ok [OF _ assms(2)] same_tables_ok [OF packageCachedKeysFor_tables [of d']]
    by (auto split: go.split option.split)
qed

definition others_same :: "ServerName \<Rightarrow> db \<Rightarrow> db \<Rightarrow> bool" where
  "others_same n d e \<longleftrightarrow> self_keys e = self_keys d \<and> db_fault e = db_fault d \<and>
     (\<forall>m. m \<noteq> n \<longrightarrow> map_of (remote_servers e) m = map_of (remote_servers d) m \<and>
        selectRemoteKeys m e = selectRemoteKeys m d \<and> selectRemoteSignatures m e = selectRemoteSignatures m d)"

lemma others_same_refl [simp]: "others_same n d d" "others_same n d (tick d)"
  by (simp_all add: others_same_def selectRemoteKeys_def selectRemoteSignatures_def)

lemma others_same_trans: "others_same n d e \<Longrightarrow> others_same n e f \<Longrightarrow> others_same n d f"
  by (simp add: others_same_def)

lemma same_tables_others: "same_tables d e \<Longrightarrow> others_same n d e"
  by (simp add: same_tables_def others_same_def selectRemoteKeys_def selectRemoteSignatures_def)

lemma others_same_bind:
  "others_same n d (snd (m d)) \<Longrightarrow> (\<And>x e. others_same n e (snd (f x e))) \<Longrightarrow> others_same n d (snd (act_bind m f d))"
  by (rule act_bind_keeps [where P = "others_same n d"]) (auto intro: others_same_trans)

lemma others_same_exec:
  assumes "\<And>e. f (tick d) = Some e \<Longrightarrow> others_same n (tick d) e"
  shows "others_same n d (snd (exec_stmt ps f d))"
  using exec_stmt_effect [of ps f d] assms others_same_trans [OF others_same_refl(2)] by fastforce

lemma others_same_set_server: "others_same n d (d\<lparr>remote_servers := AList.update n r (remote_servers d)\<rparr>)"
  by (simp add: others_same_def selectRemoteKeys_def selectRemoteSignatures_def)

lemma others_same_update_server: "others_same n d (update_server n f d)"
  by (simp add: others_same_def map_of_update_server selectRemoteKeys_def selectRemoteSignatures_def)

lemma server_statements_others_same:
  "upsertRemoteServer n u v j notary d = Some e \<Longrightarrow> others_same n d e"
  "noteOriginFailure n u' f t d = Some e \<Longrightarrow> others_same n d e"
  "resetOriginProbe n d = Some e \<Longrightarrow> others_same n d e"
  "invalidateRemoteServer n d = Some e \<Longrightarrow> others_same n d e"
  by (auto simp: upsertRemoteServer_def noteOriginFailure_def resetOriginProbe_def invalidateRemoteServer_def Let_def
      others_same_set_server others_same_update_server split: if_splits)

lemma row_statements_others_same:
  "deleteRemoteKeys n d = Some e \<Longrightarrow> others_same n d e"
  "deleteRemoteSignatures n d = Some e \<Longrightarrow> others_same n d e"
  "insertRemoteKey k d = Some e \<Longrightarrow> kr_server_name k = n \<Longrightarrow> others_same n d e"
  "insertRemoteSignature s d = Some e \<Longrightarrow> gr_server_name s = n \<Longrightarrow> others_same n d e"
  by (auto simp: others_same_def deleteRemoteKeys_def deleteRemoteSignatures_def insertRemoteKey_def insertRemoteSignature_def
      selectRemoteKeys_def selectRemoteSignatures_def split: if_splits intro: filter_cong)

lemma writes_others_same:
  "others_same n d (snd (UpsertRemoteServer n u v addl notary d))"
  "others_same n d (snd (NoteOriginFailure n u f t d))"
  "others_same n d (snd (ResetOriginProbe n d))"
  "others_same n d (snd (InvalidateRemoteServer n d))"
  "others_same n d (snd (DeleteRemoteServerKeys n d))"
  "others_same n d (snd (DeleteRemoteServerSignatures n d))"
  unfolding UpsertRemoteServer_def NoteOriginFailure_def ResetOriginProbe_def InvalidateRemoteServer_def
    DeleteRemoteServerKeys_def DeleteRemoteServerSignatures_def Let_def
  by (rule others_same_exec; erule server_statements_others_same row_statements_others_same)+

lemma add_rows_others_same:
  "kr_server_name k = n \<Longrightarrow> others_same n d (snd (add_key_row k d))"
  "gr_server_name s = n \<Longrightarrow> others_same n d (snd (add_sig_row s d))"
  unfolding add_key_row add_sig_row
  by (rule others_same_exec; erule row_statements_others_same; assumption)+

lemma write_at_others_same: "others_same (sku_ServerName u) d (snd (write_at now u sigs addl notary d))"
proof -
  have reset: "others_same n d (snd (clear_probe n notary d))" for n d
    unfolding clear_probe_def
    by (auto intro!: act_bind_keeps [where P = "others_same n d"] writes_others_same(3))
  have iter: "others_same n d (snd (act_iter f xs d))"
    if "\<And>x d. x \<in> set xs \<Longrightarrow> others_same n d (snd (f x d))" for n d and f :: "'x \<Rightarrow> unit dbact" and xs
    by (rule act_iter_keeps) (use that in \<open>auto intro: others_same_trans\<close>)
  show ?thesis
    unfolding write_at_eq Let_def
    by (intro others_same_bind writes_others_same reset iter add_rows_others_same)
      (auto dest: stored_keys_owner stored_sigs_owner)
qed

lemma store_at_others_same: "others_same (sku_ServerName u) d (snd (store_at now u sigs addl notary d))"
  unfolding store_at_def
  by (rule others_same_bind)
    (auto intro: write_at_others_same same_tables_others packageCachedKeysFor_tables split: go.split option.split)

lemma InvalidateHeld_keeps: "others_same n d (snd (InvalidateHeld n d))" "db_ok d \<Longrightarrow> db_ok (snd (InvalidateHeld n d))"
  unfolding InvalidateHeld_def by (rule writes_others_same(4)) (rule writes_ok)

subsection \<open>Storing into a database that works\<close>

definition key_info_fits :: "ServerKeyResultUnsigned \<Rightarrow> Signatures \<Rightarrow> string \<Rightarrow> bool" where
  "key_info_fits u sigs notary \<longleftrightarrow> varchar_ok (sku_ServerName u) \<and> (notary = [] \<or> varchar_ok notary) \<and>
     list_all key_row_fits (map row_of_key (stored_keys u)) \<and> distinct (map rk_ID (stored_keys u)) \<and>
     list_all sig_row_fits (map row_of_sig (stored_sigs (sku_ServerName u) sigs)) \<and>
     distinct (map sg_KeyID (stored_sigs (sku_ServerName u) sigs))"

definition set_server :: "ServerName \<Rightarrow> server_row \<Rightarrow> db \<Rightarrow> db" where
  "set_server n r d = d\<lparr>remote_servers := AList.update n r (remote_servers d)\<rparr>"

lemma set_server_simps [simp]:
  "remote_keys (set_server n r d) = remote_keys d" "remote_signatures (set_server n r d) = remote_signatures d"
  "map_of (remote_servers (set_server n r d)) = (map_of (remote_servers d))(n \<mapsto> r)"
  "db_healthy (set_server n r d) = db_healthy d"
  "known_server m (set_server n r d) \<longleftrightarrow> m = n \<or> known_server m d"
  by (simp_all add: set_server_def db_healthy_def known_server_update)

definition written_row :: "int \<Rightarrow> int \<Rightarrow> AdditionalJSON \<Rightarrow> string \<Rightarrow> server_row option \<Rightarrow> server_row" where
  "written_row now v addl notary old =
     \<lparr>sr_updated_ts = now, sr_valid_until_ts = v, sr_nonstandard_json = json_marshal (JObj addl),
      sr_obtained_via_notary = (if notary = [] then None else Some notary),
      sr_origin_failures = (case old of None \<Rightarrow> 0 | Some r \<Rightarrow> sr_origin_failures r),
      sr_next_origin_attempt_ts = (case old of None \<Rightarrow> 0 | Some r \<Rightarrow> sr_next_origin_attempt_ts r)\<rparr>"

lemma pg_text_Nil [simp]: "pg_text []"
  by (simp add: pg_text_def utf8_ok_ascii)

lemma UpsertRemoteServer_healthy:
  assumes "db_healthy d" "varchar_ok n" "notary = [] \<or> varchar_ok notary"
  shows "UpsertRemoteServer n now v addl notary d =
    (Ret (), set_server n (written_row now v addl notary (map_of (remote_servers d) n)) (tick d))"
proof -
  have "x\<lparr>sr_updated_ts := now, sr_valid_until_ts := v, sr_nonstandard_json := json_marshal (JObj addl),
      sr_obtained_via_notary := (if notary = [] then None else Some notary)\<rparr> = written_row now v addl notary (Some x)" for x
    by (cases x) (simp add: written_row_def)
  then have "upsertRemoteServer n now v (json_marshal (JObj addl)) (if notary = [] then None else Some notary) (tick d) =
      Some (set_server n (written_row now v addl notary (map_of (remote_servers d) n)) (tick d))"
    using assms(2,3) by (auto simp: upsertRemoteServer_def set_server_def written_row_def [of _ _ _ _ None] split: option.split)
  then show ?thesis
    using assms exec_stmt_up [OF db_healthy_up [OF assms(1)]]
    unfolding UpsertRemoteServer_def Let_def
    by (cases "notary = []") (auto simp: varchar_ok_text)
qed

lemma clear_probe_healthy:
  assumes "db_healthy d" "pg_text n"
  shows "clear_probe n notary d =
    (Ret (), if notary = [] then update_server n (\<lambda>r. r\<lparr>sr_origin_failures := 0, sr_next_origin_attempt_ts := 0\<rparr>) (tick d) else d)"
  using exec_stmt_up [OF db_healthy_up [OF assms(1)], of "[n]" "resetOriginProbe n"] assms(2)
  by (simp add: clear_probe_def ResetOriginProbe_def resetOriginProbe_def act_bind_def act_try_def)

lemma deletes_healthy:
  assumes "db_healthy d" "pg_text n"
  shows "DeleteRemoteServerKeys n d = (Ret (), (tick d)\<lparr>remote_keys := filter (\<lambda>r. kr_server_name r \<noteq> n) (remote_keys d)\<rparr>)"
    and "DeleteRemoteServerSignatures n d =
      (Ret (), (tick d)\<lparr>remote_signatures := filter (\<lambda>r. gr_server_name r \<noteq> n) (remote_signatures d)\<rparr>)"
  using exec_stmt_up [OF db_healthy_up [OF assms(1)], of "[n]"] assms(2)
  by (simp_all add: DeleteRemoteServerKeys_def DeleteRemoteServerSignatures_def deleteRemoteKeys_def deleteRemoteSignatures_def)

lemma db_healthy_update [simp]:
  "db_healthy (d\<lparr>remote_keys := ks\<rparr>) = db_healthy d" "db_healthy (d\<lparr>remote_signatures := ss\<rparr>) = db_healthy d"
  "db_healthy (update_server n f d) = db_healthy d"
  by (simp_all add: db_healthy_def)

lemma known_server_update_server [simp]: "known_server m (update_server n f d) = known_server m d"
  unfolding known_server_def update_server_frame(6) ..

lemma inserted_rows:
  assumes "db_healthy d" "key_info_fits u sigs notary" "n = sku_ServerName u" "known_server n d"
    and "selectRemoteKeys n d = []" "selectRemoteSignatures n d = []"
  shows "\<exists>d1 d2. act_iter add_key_row (map row_of_key (stored_keys u)) d = (Ret (), d1) \<and>
    act_iter add_sig_row (map row_of_sig (stored_sigs n sigs)) d1 = (Ret (), d2) \<and> db_healthy d2 \<and>
    remote_servers d2 = remote_servers d \<and> selectRemoteKeys n d2 = map row_of_key (stored_keys u) \<and>
    selectRemoteSignatures n d2 = map row_of_sig (stored_sigs n sigs)"
proof -
  let ?ks = "map row_of_key (stored_keys u)" and ?ss = "map row_of_sig (stored_sigs n sigs)"
  note f = assms(2) [unfolded key_info_fits_def, folded assms(3)]
  have own: "\<forall>r \<in> set ?ks. kr_server_name r = n" "\<forall>r \<in> set ?ss. gr_server_name r = n"
    using assms(3) by (auto dest: stored_keys_owner stored_sigs_owner)
  have dist: "distinct (map kr_key_id ?ks)" "distinct (map gr_key_id ?ss)" using f by (simp_all add: comp_def)
  obtain d1 where d1: "act_iter add_key_row ?ks d = (Ret (), d1)" "db_healthy d1" "known_server n d1"
    using key_rows.inserts_total [OF assms(1,4), of ?ks] f own dist assms(5) by auto
  have fr1: "remote_servers d1 = remote_servers d" "remote_signatures d1 = remote_signatures d"
    using key_rows.inserts_frame [of ?ks d] d1(1) by simp_all
  have s1: "selectRemoteSignatures n d1 = []" using fr1 assms(6) by (simp add: selectRemoteSignatures_def)
  obtain d2 where d2: "act_iter add_sig_row ?ss d1 = (Ret (), d2)" "db_healthy d2"
    using sig_rows.inserts_total [OF d1(2,3), of ?ss] f own dist s1 by auto
  have fr2: "remote_servers d2 = remote_servers d1" "remote_keys d2 = remote_keys d1"
    using sig_rows.inserts_frame [of ?ss d1] d2(1) by simp_all
  have "selectRemoteKeys n d1 = ?ks" using key_rows.inserts_Ret [OF d1(1), of n] assms(5) own by (simp add: filter_True)
  moreover have "selectRemoteSignatures n d2 = ?ss" using sig_rows.inserts_Ret [OF d2(1), of n] s1 own by (simp add: filter_True)
  ultimately show ?thesis using d1(1) d2 fr1 fr2 by (auto simp: selectRemoteKeys_def)
qed

lemma write_at_healthy:
  assumes "db_healthy d" "key_info_fits u sigs notary" "n = sku_ServerName u"
  shows "\<exists>d' r. write_at now u sigs addl notary d = (Ret (stored_result now u sigs addl notary), d') \<and> db_healthy d' \<and>
    map_of (remote_servers d') n = Some r \<and>
    r = (let w = written_row now (sku_ValidUntilTs u) addl notary (map_of (remote_servers d) n) in
         if notary = [] then w\<lparr>sr_origin_failures := 0, sr_next_origin_attempt_ts := 0\<rparr> else w) \<and>
    selectRemoteKeys n d' = map row_of_key (stored_keys u) \<and>
    selectRemoteSignatures n d' = map row_of_sig (stored_sigs n sigs)"
proof -
  have fits: "varchar_ok n" "notary = [] \<or> varchar_ok notary" using assms(2,3) by (simp_all add: key_info_fits_def)
  have pg: "pg_text n" using fits(1) by (rule varchar_ok_text)
  define w where "w = written_row now (sku_ValidUntilTs u) addl notary (map_of (remote_servers d) n)"
  define d1 where "d1 = set_server n w (tick d)"
  define d2 where "d2 = (tick d1)\<lparr>remote_keys := filter (\<lambda>r. kr_server_name r \<noteq> n) (remote_keys d1)\<rparr>"
  define d3 where "d3 = (tick d2)\<lparr>remote_signatures := filter (\<lambda>r. gr_server_name r \<noteq> n) (remote_signatures d2)\<rparr>"
  define d4 where "d4 = (if notary = [] then update_server n (\<lambda>r. r\<lparr>sr_origin_failures := 0, sr_next_origin_attempt_ts := 0\<rparr>) (tick d3) else d3)"
  have h1: "db_healthy d1" unfolding d1_def using assms(1) by simp
  have h2: "db_healthy d2" unfolding d2_def using h1 by simp
  have h3: "db_healthy d3" unfolding d3_def using h2 by simp
  have h4: "db_healthy d4" unfolding d4_def using h3 by simp
  have run: "UpsertRemoteServer n now (sku_ValidUntilTs u) addl notary d = (Ret (), d1)"
    "DeleteRemoteServerKeys n d1 = (Ret (), d2)" "DeleteRemoteServerSignatures n d2 = (Ret (), d3)"
    "clear_probe n notary d3 = (Ret (), d4)"
    using UpsertRemoteServer_healthy [OF assms(1) fits] deletes_healthy(1) [OF h1 pg] deletes_healthy(2) [OF h2 pg]
      clear_probe_healthy [OF h3 pg, of notary]
    by (simp_all add: d1_def w_def d2_def d3_def d4_def)
  have k: "known_server n d4" by (simp add: d4_def d3_def d2_def d1_def)
  have e: "selectRemoteKeys n d4 = []" "selectRemoteSignatures n d4 = []"
    by (simp_all add: d4_def d3_def d2_def selectRemoteKeys_def selectRemoteSignatures_def filter_empty_conv)
  have r: "map_of (remote_servers d4) n = Some (if notary = [] then w\<lparr>sr_origin_failures := 0, sr_next_origin_attempt_ts := 0\<rparr> else w)"
    by (simp add: d4_def d3_def d2_def d1_def map_of_update_server)
  obtain d5 d6 where ins: "act_iter add_key_row (map row_of_key (stored_keys u)) d4 = (Ret (), d5)"
    "act_iter add_sig_row (map row_of_sig (stored_sigs n sigs)) d5 = (Ret (), d6)" "db_healthy d6"
    "remote_servers d6 = remote_servers d4" "selectRemoteKeys n d6 = map row_of_key (stored_keys u)"
    "selectRemoteSignatures n d6 = map row_of_sig (stored_sigs n sigs)"
    using inserted_rows [OF h4 assms(2,3) k e] by blast
  have "write_at now u sigs addl notary d = (Ret (stored_result now u sigs addl notary), d6)"
    unfolding write_at_eq assms(3) [symmetric] Let_def by (simp add: act_bind_app(1) run ins)
  then show ?thesis using ins r by (auto simp: w_def Let_def)
qed

subsection \<open>The reservoir\<close>

text \<open>
  What the database promises to keep of a server, without its tables: until when the keys are
  valid, from whom they come, the keys and the signatures. Storing is one update of this map,
  which a notary's copy is refused unless it is strictly newer.
\<close>

record holding =
  h_valid :: Timestamp
  h_via :: string
  h_keys :: "RemoteKey list"
  h_sigs :: "RemoteSignature list"

definition via_of :: "server_row \<Rightarrow> string" where
  "via_of r = (case sr_obtained_via_notary r of None \<Rightarrow> [] | Some v \<Rightarrow> v)"

definition reservoir :: "db \<Rightarrow> ServerName \<Rightarrow> holding option" where
  "reservoir d n = map_option (\<lambda>r. \<lparr>h_valid = sr_valid_until_ts r, h_via = via_of r,
     h_keys = map key_of_row (selectRemoteKeys n d), h_sigs = map sig_of_row (selectRemoteSignatures n d)\<rparr>)
     (map_of (remote_servers d) n)"

definition offer :: "ServerKeyResultUnsigned \<Rightarrow> Signatures \<Rightarrow> string \<Rightarrow> holding" where
  "offer u sigs notary = \<lparr>h_valid = sku_ValidUntilTs u, h_via = notary, h_keys = stored_keys u,
     h_sigs = stored_sigs (sku_ServerName u) sigs\<rparr>"

definition reservoir_store ::
  "ServerKeyResultUnsigned \<Rightarrow> Signatures \<Rightarrow> string \<Rightarrow> (ServerName \<Rightarrow> holding option) \<Rightarrow> ServerName \<Rightarrow> holding option" where
  "reservoir_store u sigs notary R =
     (case R (sku_ServerName u) of
        Some h \<Rightarrow> if notary \<noteq> [] \<and> sku_ValidUntilTs u \<le> h_valid h then R else R(sku_ServerName u \<mapsto> offer u sigs notary)
      | None \<Rightarrow> R(sku_ServerName u \<mapsto> offer u sigs notary))"

lemma reservoir_others: "others_same n d e \<Longrightarrow> m \<noteq> n \<Longrightarrow> reservoir e m = reservoir d m"
  by (simp add: others_same_def reservoir_def)

lemma reservoir_same: "same_tables d e \<Longrightarrow> reservoir e = reservoir d"
  by (rule ext) (simp add: same_tables_def reservoir_def selectRemoteKeys_def selectRemoteSignatures_def)

lemma map_rows_id [simp]: "map key_of_row (map row_of_key ks) = ks" "map sig_of_row (map row_of_sig ss) = ss"
  by (simp_all add: comp_def)

definition answer_of :: "CachedRemoteKeys \<Rightarrow> holding" where
  "answer_of c = \<lparr>h_valid = ck_ValidUntilTs c, h_via = rs_ObtainedViaNotary (ck_RemoteServer c),
     h_keys = ck_Keys c, h_sigs = ck_Signatures c\<rparr>"

lemma write_at_refines:
  assumes "db_healthy d" "key_info_fits u sigs notary"
  shows "\<exists>c d'. write_at now u sigs addl notary d = (Ret c, d') \<and> db_healthy d' \<and> answer_of c = offer u sigs notary \<and>
    reservoir d' = (reservoir d)(sku_ServerName u \<mapsto> offer u sigs notary)"
proof -
  let ?n = "sku_ServerName u"
  obtain d' r where w: "write_at now u sigs addl notary d = (Ret (stored_result now u sigs addl notary), d')" "db_healthy d'"
    "map_of (remote_servers d') ?n = Some r"
    "r = (let w = written_row now (sku_ValidUntilTs u) addl notary (map_of (remote_servers d) ?n) in
         if notary = [] then w\<lparr>sr_origin_failures := 0, sr_next_origin_attempt_ts := 0\<rparr> else w)"
    "selectRemoteKeys ?n d' = map row_of_key (stored_keys u)"
    "selectRemoteSignatures ?n d' = map row_of_sig (stored_sigs ?n sigs)"
    using write_at_healthy [OF assms refl] by blast
  have "sr_valid_until_ts r = sku_ValidUntilTs u \<and> via_of r = notary"
    unfolding w(4) by (simp add: Let_def written_row_def via_of_def)
  then have "reservoir d' ?n = Some (offer u sigs notary)"
    using w(3,5,6) by (simp add: reservoir_def offer_def del: map_map)
  moreover have "reservoir d' m = reservoir d m" if "m \<noteq> ?n" for m
    using reservoir_others [OF write_at_others_same [of u d now sigs addl notary] that] w(1) by simp
  ultimately have "reservoir d' = (reservoir d)(?n \<mapsto> offer u sigs notary)" by auto
  moreover have "answer_of (stored_result now u sigs addl notary) = offer u sigs notary"
    by (simp add: answer_of_def offer_def) (simp add: stored_result_def)
  ultimately show ?thesis using w(1,2) by blast
qed

lemma answer_of_held: "map_of (remote_servers d) n = Some r \<Longrightarrow> reservoir d n = Some (answer_of (held_in d (server_of_row n r addl)))"
  by (simp add: reservoir_def answer_of_def held_in_def server_of_row_def via_of_def)

lemma store_at_refines:
  assumes "db_healthy d" "db_ok d" "key_info_fits u sigs notary"
  shows "\<exists>c d'. store_at now u sigs addl notary d = (Ret c, d') \<and> db_healthy d' \<and>
    reservoir d' = reservoir_store u sigs notary (reservoir d) \<and> reservoir d' (sku_ServerName u) = Some (answer_of c)"
proof -
  let ?n = "sku_ServerName u"
  have pg: "pg_text ?n" using assms(3) by (simp add: key_info_fits_def varchar_ok_text)
  have same: "reservoir (tick d) = reservoir d" by (rule reservoir_same) simp
  obtain s where s: "GetRemoteServerMetadata ?n d = (Ret s, tick d)"
    and row: "case map_of (remote_servers d) ?n of None \<Rightarrow> s = None
     | Some r \<Rightarrow> \<exists>addl. unmarshal_map (sr_nonstandard_json r) = Ret addl \<and> s = Some (server_of_row ?n r addl)"
    using GetRemoteServerMetadata_healthy [OF assms(1) pg assms(2)] by blast
  have tried: "act_try (GetRemoteServerMetadata ?n) d = (Ret (Ret s), tick d)" using s by (simp add: act_try_def)
  obtain c d' where w: "write_at now u sigs addl notary (tick d) = (Ret c, d')" "db_healthy d'" "answer_of c = offer u sigs notary"
    "reservoir d' = (reservoir d)(?n \<mapsto> offer u sigs notary)"
    using write_at_refines [OF db_healthy_tick [OF assms(1)] assms(3), of now addl] same by auto
  show ?thesis
  proof (cases "map_of (remote_servers d) ?n")
    case None
    then have "store_at now u sigs addl notary d = (Ret c, d')" using row tried w(1) by (simp add: store_at_def act_bind_def)
    moreover have "reservoir_store u sigs notary (reservoir d) = (reservoir d)(?n \<mapsto> offer u sigs notary)"
      using None by (simp add: reservoir_store_def reservoir_def)
    ultimately show ?thesis using w by auto
  next
    case (Some r)
    then obtain addl' where a: "s = Some (server_of_row ?n r addl')" using row by auto
    have v: "rs_ValidUntilTs (server_of_row ?n r addl') = sr_valid_until_ts r"
      "rs_ServerName (server_of_row ?n r addl') = ?n" by (simp_all add: server_of_row_def)
    have store: "store_at now u sigs addl notary d =
        (if notary \<noteq> [] \<and> sku_ValidUntilTs u \<le> sr_valid_until_ts r
         then packageCachedKeysFor (server_of_row ?n r addl') (tick d) else (Ret c, d'))"
      using tried w(1) v(1) unfolding a by (cases "notary = []") (simp_all add: store_at_def act_bind_def)
    have abs: "reservoir_store u sigs notary (reservoir d) = (if notary \<noteq> [] \<and> sku_ValidUntilTs u \<le> sr_valid_until_ts r
        then reservoir d else (reservoir d)(?n \<mapsto> offer u sigs notary))"
      using Some by (simp add: reservoir_store_def reservoir_def)
    have "packageCachedKeysFor (server_of_row ?n r addl') (tick d) = (Ret (held_in (tick d) (server_of_row ?n r addl')), tick (tick (tick d)))"
      using packageCachedKeysFor_healthy [OF db_healthy_tick [OF assms(1)]] pg v(2) by simp
    moreover have "reservoir (tick d) ?n = Some (answer_of (held_in (tick d) (server_of_row ?n r addl')))"
      using Some by (intro answer_of_held) simp
    moreover have "reservoir (tick (tick (tick d))) = reservoir d"
      using reservoir_same [of d "tick (tick (tick d))"] by (simp add: same_tables_def)
    ultimately show ?thesis using store abs w same assms(1) by (auto simp: db_healthy_def)
  qed
qed

subsection \<open>When storing goes wrong\<close>

text \<open>An id used by two keys is refused by the table, after the old rows are gone.\<close>

lemma duplicate_id_fails:
  assumes "\<not> distinct (map rk_ID (stored_keys u))"
  shows "fst (write_at now u sigs addl notary d) \<noteq> Ret c"
proof
  assume "fst (write_at now u sigs addl notary d) = Ret c"
  then have "write_at now u sigs addl notary d = (Ret c, snd (write_at now u sigs addl notary d))" by (metis prod.collapse)
  then obtain d1 d2 where "act_iter add_key_row (map row_of_key (stored_keys u)) d1 = (Ret (), d2)"
    unfolding write_at_eq Let_def by (auto simp: act_bind_eq_Ret_iff)
  from key_rows.inserts_distinct [OF this, of "sku_ServerName u"] assms
  show False by (auto simp: comp_def dest: stored_keys_owner)
qed

lemma store_at_not_newer:
  assumes "db_ok d" "db_up d" "pg_text n" "map_of (remote_servers d) n = Some r" "n = sku_ServerName u"
    and "notary \<noteq> []" "sku_ValidUntilTs u \<le> sr_valid_until_ts r"
  shows "same_tables d (snd (store_at now u sigs addl notary d))"
proof -
  obtain addl' where "unmarshal_map (sr_nonstandard_json r) = Ret addl'"
    using server_row_lookup [OF assms(1,4)] unfolding server_row_ok_def by blast
  then have "GetRemoteServerMetadata n d = (Ret (Some (server_of_row n r addl')), tick d)"
    using assms(2-4) GetRemoteServerMetadata_Ret [OF db_okD [OF assms(1)]] by auto
  then have "store_at now u sigs addl notary d = packageCachedKeysFor (server_of_row n r addl') (tick d)"
    using assms(5-7) by (simp add: store_at_def act_bind_def act_try_def server_of_row_def)
  then show ?thesis using same_tables_trans [OF same_tables_refl(2) packageCachedKeysFor_tables] by metis
qed

subsection \<open>Properties\<close>

text \<open>
  C6: storing refines the reservoir. When the database answers and the rows fit their columns,
  \<open>storeRemoteKeys\<close> succeeds, and what the database then promises to hold is the abstract update:
  the offer replaces what was held, unless it comes from a notary and is valid no longer than
  what is held. The answer returned is the one now held, and the integrity of the tables stays.
\<close>

theorem store_refines_reservoir:
  assumes "db_healthy d" and "db_ok d" and "key_info_fits u sigs notary" and "go_json (JObj addl)"
  shows "\<exists>c d'. store_at now u sigs addl notary d = (Ret c, d') \<and> db_healthy d' \<and> db_ok d' \<and>
    reservoir d' = reservoir_store u sigs notary (reservoir d) \<and>
    reservoir d' (sku_ServerName u) = Some \<lparr>h_valid = ck_ValidUntilTs c, h_via = rs_ObtainedViaNotary (ck_RemoteServer c),
      h_keys = ck_Keys c, h_sigs = ck_Signatures c\<rparr>"
proof -
  obtain c d' where s: "store_at now u sigs addl notary d = (Ret c, d')" "db_healthy d'"
    "reservoir d' = reservoir_store u sigs notary (reservoir d)" "reservoir d' (sku_ServerName u) = Some (answer_of c)"
    using store_at_refines [OF assms(1-3)] by blast
  moreover have "db_ok d'" using store_at_ok [OF assms(2,4), of now u sigs notary] s(1) by simp
  ultimately show ?thesis by (auto simp: answer_of_def)
qed

definition demo_unsigned :: ServerKeyResultUnsigned where
  "demo_unsigned = \<lparr>sku_ServerName = ''s'', sku_ValidUntilTs = 500, sku_VerifyKeys = Some [(''k'', \<lparr>vk_Key = ''AA''\<rparr>)],
     sku_OldVerifyKeys = Some [(''o'', \<lparr>ov_Key = ''BB'', ov_ExpiredTs = 7\<rparr>)]\<rparr>"

definition demo_signatures :: Signatures where
  "demo_signatures = Some [(''s'', Some [(''k'', ''CC'')])]"

lemma demo_fits: "key_info_fits demo_unsigned demo_signatures ''notary''"
  by code_simp

lemma demo_stored: "stored_keys demo_unsigned = [\<lparr>rk_ServerName = ''s'', rk_ID = ''k'', rk_PublicKey = ''AA'', rk_ExpiresTs = 0\<rparr>,
    \<lparr>rk_ServerName = ''s'', rk_ID = ''o'', rk_PublicKey = ''BB'', rk_ExpiresTs = 7\<rparr>]"
  by code_simp

lemma demo_unsigned_simps [simp]: "sku_ServerName demo_unsigned = ''s''" "sku_ValidUntilTs demo_unsigned = 500"
  by (simp_all add: demo_unsigned_def)

lemma reservoir_empty [simp]: "reservoir (empty_db fault) = Map.empty"
  by (rule ext) (simp add: reservoir_def empty_db_def)

lemma empty_db_healthy: "db_healthy (empty_db (\<lambda>_. Works))"
  by (simp add: db_healthy_def empty_db_def)

theorem store_refines_reservoir_witness:
  "\<exists>c d'. store_at 100 demo_unsigned demo_signatures [] ''notary'' (empty_db (\<lambda>_. Works)) = (Ret c, d') \<and>
     map_option h_valid (reservoir d' ''s'') = Some 500 \<and> length (ck_Keys c) = 2"
proof -
  obtain c d' where s: "store_at 100 demo_unsigned demo_signatures [] ''notary'' (empty_db (\<lambda>_. Works)) = (Ret c, d')"
    "reservoir d' = reservoir_store demo_unsigned demo_signatures ''notary'' (reservoir (empty_db (\<lambda>_. Works)))"
    "reservoir d' (sku_ServerName demo_unsigned) = Some \<lparr>h_valid = ck_ValidUntilTs c,
      h_via = rs_ObtainedViaNotary (ck_RemoteServer c), h_keys = ck_Keys c, h_sigs = ck_Signatures c\<rparr>"
    using store_refines_reservoir [OF empty_db_healthy empty_db_ok demo_fits go_json_empty, of 100] by blast
  then have "reservoir d' ''s'' = Some (offer demo_unsigned demo_signatures ''notary'')" by (simp add: reservoir_store_def)
  then have "map_option h_valid (reservoir d' ''s'') = Some 500" "stored_keys demo_unsigned = ck_Keys c"
    using s(3) by (simp_all add: offer_def)
  then show ?thesis using s(1) demo_stored by (metis One_nat_def Suc_1 length_Cons list.size(3))
qed

text \<open>
  What is stored can be read. A copy that was accepted into a working database is what the
  next \<open>loadHeld\<close> of the server returns: the same keys with the same expiry, the same
  signatures, the same validity and the same provenance.
\<close>

theorem store_then_load:
  assumes "db_healthy d" and "db_ok d" and "key_info_fits u sigs notary" and "go_json (JObj addl)"
    and "store_at now u sigs addl notary d = (Ret c, d')"
  shows "\<exists>s held e. loadHeld (sku_ServerName u) d' = (Ret (Some s, Some held), e) \<and> ck_RemoteServer held = s \<and>
    rs_ServerName s = sku_ServerName u \<and> rs_ValidUntilTs s = ck_ValidUntilTs c \<and>
    rs_ObtainedViaNotary s = rs_ObtainedViaNotary (ck_RemoteServer c) \<and>
    ck_Keys held = ck_Keys c \<and> ck_Signatures held = ck_Signatures c"
proof -
  let ?n = "sku_ServerName u"
  have d': "db_healthy d'" "reservoir d' ?n = Some (answer_of c)"
    using store_at_refines [OF assms(1-3), of now addl] assms(5) by auto
  have ok: "db_ok d'" using store_at_ok [OF assms(2,4), of now u sigs notary] assms(5) by simp
  have pg: "pg_text ?n" using assms(3) by (simp add: key_info_fits_def varchar_ok_text)
  obtain r where r: "map_of (remote_servers d') ?n = Some r" using d'(2) by (auto simp: reservoir_def)
  then obtain addl' where l: "loadHeld ?n d' =
      (Ret (Some (server_of_row ?n r addl'), Some (held_in d' (server_of_row ?n r addl'))), tick (tick (tick d')))"
    using loadHeld_healthy [OF d'(1) pg ok] by auto
  have "answer_of (held_in d' (server_of_row ?n r addl')) = answer_of c"
    using answer_of_held [OF r, of addl'] d'(2) by simp
  then show ?thesis using l by (auto simp: answer_of_def held_in_def server_of_row_def)
qed

lemma demo_written: "\<exists>c d'. store_at 100 demo_unsigned demo_signatures [] ''notary'' (empty_db (\<lambda>_. Works)) = (Ret c, d') \<and> answer_of c = offer demo_unsigned demo_signatures ''notary''"
  using store_at_refines [OF empty_db_healthy empty_db_ok demo_fits, of 100 "[]"]
  by (auto simp: reservoir_store_def)

theorem store_then_load_witness:
  "\<exists>d' s held e. loadHeld ''s'' d' = (Ret (Some s, Some held), e) \<and> rs_ValidUntilTs s = 500 \<and>
     map rk_ID (ck_Keys held) = [''k'', ''o'']"
proof -
  obtain c d' where s: "store_at 100 demo_unsigned demo_signatures [] ''notary'' (empty_db (\<lambda>_. Works)) = (Ret c, d')"
    "answer_of c = offer demo_unsigned demo_signatures ''notary''" using demo_written by blast
  then have "ck_Keys c = stored_keys demo_unsigned" "ck_ValidUntilTs c = 500"
    by (simp_all add: answer_of_def offer_def)
  then show ?thesis
    using store_then_load [OF empty_db_healthy empty_db_ok demo_fits go_json_empty s(1)] demo_stored
    by fastforce
qed

text \<open>
  C7: the reservoir never loses keys to a notary. A notary's copy that is valid no longer than
  the stored record changes nothing, whatever happens to the later statements, as long as the
  query for that record is answered.
\<close>

theorem notary_never_replaces_newer:
  assumes "db_ok d" and "db_fault d (db_tick d) = Works" and "pg_text (sku_ServerName u)"
    and "map_of (remote_servers d) (sku_ServerName u) = Some r"
    and "notary \<noteq> []" and "sku_ValidUntilTs u \<le> sr_valid_until_ts r"
    and "store_at now u sigs addl notary d = (res, d')"
  shows "remote_servers d' = remote_servers d \<and> remote_keys d' = remote_keys d \<and>
    remote_signatures d' = remote_signatures d \<and> reservoir d' = reservoir d"
  using store_at_not_newer [OF assms(1) _ assms(3,4) refl assms(5,6), of now sigs addl] assms(2,7)
    reservoir_same [of d d']
  by (simp add: db_up_def same_tables_def)

definition demo_held_db :: "(nat \<Rightarrow> fault) \<Rightarrow> db" where
  "demo_held_db fault = (empty_db fault)\<lparr>remote_servers := [(''s'', (demo_row 0)\<lparr>sr_valid_until_ts := 900\<rparr>)],
     remote_keys := [\<lparr>kr_server_name = ''s'', kr_key_id = ''k'', kr_public_key_b64 = ''AA'', kr_expires_ts = 0\<rparr>]\<rparr>"

lemma demo_held_ok: "db_ok (demo_held_db fault)"
  by (simp add: db_ok_def demo_held_db_def empty_db_def wf_gomap_def server_row_ok_def demo_row_def unmarshal_empty int4_ok_def known_server_def)

theorem notary_never_replaces_newer_witness:
  "remote_keys (snd (store_at 100 demo_unsigned demo_signatures [] ''notary'' (demo_held_db (\<lambda>t. if t = 0 then Works else Lost)))) =
   [\<lparr>kr_server_name = ''s'', kr_key_id = ''k'', kr_public_key_b64 = ''AA'', kr_expires_ts = 0\<rparr>]"
proof -
  let ?d = "demo_held_db (\<lambda>t. if t = 0 then Works else Lost)"
  have "db_fault ?d (db_tick ?d) = Works" "pg_text (sku_ServerName demo_unsigned)"
    "map_of (remote_servers ?d) (sku_ServerName demo_unsigned) = Some ((demo_row 0)\<lparr>sr_valid_until_ts := 900\<rparr>)"
    "sku_ValidUntilTs demo_unsigned \<le> sr_valid_until_ts ((demo_row 0)\<lparr>sr_valid_until_ts := 900\<rparr>)"
    by (simp_all add: demo_held_db_def empty_db_def demo_unsigned_def pg_text_def utf8_ok_ascii)
  from notary_never_replaces_newer [OF demo_held_ok this(1-3) _ this(4), of "''notary''" 100 demo_signatures "[]"
      "fst (store_at 100 demo_unsigned demo_signatures [] ''notary'' ?d)" "snd (store_at 100 demo_unsigned demo_signatures [] ''notary'' ?d)"]
  show ?thesis by (simp add: demo_held_db_def)
qed

text \<open>
  Storing the keys of one server touches no other. On every outcome, with statements that
  are lost or cut anywhere, the records, keys and signatures of the other servers, and the
  server's own keys, stay as they were, and the integrity of the tables stays.
\<close>

theorem store_touches_one_server:
  assumes "store_at now u sigs addl notary d = (res, d')" and "m \<noteq> sku_ServerName u"
  shows "reservoir d' m = reservoir d m \<and> map_of (remote_servers d') m = map_of (remote_servers d) m \<and>
    self_keys d' = self_keys d \<and> (db_ok d \<and> go_json (JObj addl) \<longrightarrow> db_ok d')"
  using store_at_others_same [of u d now sigs addl notary] store_at_ok [of d addl now u sigs notary] assms
    reservoir_others [OF _ assms(2), of d d']
  by (auto simp: others_same_def)

theorem store_touches_one_server_witness:
  "remote_keys (snd (store_at 100 (demo_unsigned\<lparr>sku_ServerName := ''t''\<rparr>) demo_signatures [] [] (demo_held_db (\<lambda>_. Cut 0)))) \<noteq> [] \<and>
   reservoir (snd (store_at 100 (demo_unsigned\<lparr>sku_ServerName := ''t''\<rparr>) demo_signatures [] [] (demo_held_db (\<lambda>_. Cut 0)))) ''s'' =
     reservoir (demo_held_db (\<lambda>_. Cut 0)) ''s''"
proof -
  let ?u = "demo_unsigned\<lparr>sku_ServerName := ''t''\<rparr>"
  let ?r = "store_at 100 ?u demo_signatures [] [] (demo_held_db (\<lambda>_. Cut 0))"
  have same: "reservoir (snd ?r) ''s'' = reservoir (demo_held_db (\<lambda>_. Cut 0)) ''s''"
    using store_touches_one_server [of 100 ?u demo_signatures "[]" "[]" "demo_held_db (\<lambda>_. Cut 0)" "fst ?r" "snd ?r" "''s''"] by simp
  moreover have "reservoir (demo_held_db (\<lambda>_. Cut 0)) ''s'' = Some \<lparr>h_valid = 900, h_via = [],
      h_keys = [\<lparr>rk_ServerName = ''s'', rk_ID = ''k'', rk_PublicKey = ''AA'', rk_ExpiresTs = 0\<rparr>], h_sigs = []\<rparr>"
    by (simp add: reservoir_def demo_held_db_def empty_db_def demo_row_def via_of_def selectRemoteKeys_def
        selectRemoteSignatures_def key_of_row_def)
  ultimately have "selectRemoteKeys ''s'' (snd ?r) \<noteq> []" by (auto simp: reservoir_def)
  then show ?thesis using same by (auto simp: selectRemoteKeys_def)
qed

lemma duplicate_id_loses:
  assumes "db_healthy d" "varchar_ok (sku_ServerName u)" "\<not> distinct (map rk_ID (stored_keys u))"
  shows "fst (write_at now u sigs addl [] d) \<noteq> Ret c \<and>
    selectRemoteSignatures (sku_ServerName u) (snd (write_at now u sigs addl [] d)) = []"
proof
  let ?n = "sku_ServerName u"
  show "fst (write_at now u sigs addl [] d) \<noteq> Ret c" by (rule duplicate_id_fails [OF assms(3)])
  define d1 where "d1 = set_server ?n (written_row now (sku_ValidUntilTs u) addl [] (map_of (remote_servers d) ?n)) (tick d)"
  have u: "UpsertRemoteServer ?n now (sku_ValidUntilTs u) addl [] d = (Ret (), d1)"
    using UpsertRemoteServer_healthy [OF assms(1,2)] by (simp add: d1_def)
  have h1: "db_healthy d1" unfolding d1_def using assms(1) by simp
  have pg: "pg_text ?n" using assms(2) by (rule varchar_ok_text)
  define d2 where "d2 = (tick d1)\<lparr>remote_keys := filter (\<lambda>r. kr_server_name r \<noteq> ?n) (remote_keys d1)\<rparr>"
  have h2: "db_healthy d2" unfolding d2_def using h1 by simp
  define d3 where "d3 = (tick d2)\<lparr>remote_signatures := filter (\<lambda>r. gr_server_name r \<noteq> ?n) (remote_signatures d2)\<rparr>"
  have h3: "db_healthy d3" unfolding d3_def using h2 by simp
  obtain d4 where d4: "clear_probe ?n [] d3 = (Ret (), d4)" "remote_signatures d4 = remote_signatures d3"
    using clear_probe_healthy [OF h3 pg, of "[]"] by simp
  let ?ins = "act_iter add_key_row (map row_of_key (stored_keys u)) d4"
  have "fst ?ins \<noteq> Ret ()"
    using key_rows.inserts_distinct [of "map row_of_key (stored_keys u)" d4 "snd ?ins" ?n] assms(3)
    by (cases ?ins) (auto simp: comp_def dest: stored_keys_owner)
  then have "snd (write_at now u sigs addl [] d) = snd ?ins"
    unfolding write_at_eq Let_def
    using u deletes_healthy(1) [OF h1 pg, folded d2_def] deletes_healthy(2) [OF h2 pg, folded d3_def] d4(1)
    by (simp add: act_bind_app(1)) (auto simp: act_bind_def split: prod.split go.split)
  moreover have "remote_signatures (snd ?ins) = remote_signatures d4"
    using key_rows.inserts_frame [of "map row_of_key (stored_keys u)" d4] by simp
  ultimately show "selectRemoteSignatures ?n (snd (write_at now u sigs addl [] d)) = []"
    using d4(2) by (simp add: selectRemoteSignatures_def d3_def filter_empty_conv)
qed

lemma metadata_error_skips_rule:
  assumes "db_fault d (db_tick d) = Lost" "db_healthy (tick d)" "key_info_fits u sigs notary"
  shows "\<exists>c d'. store_at now u sigs addl notary d = (Ret c, d') \<and>
    reservoir d' (sku_ServerName u) = Some (offer u sigs notary)"
proof -
  have "query_row [sku_ServerName u] (selectRemoteServer (sku_ServerName u)) d = (Fail (Err ''database connection''), tick d)"
    using assms(1) by (simp add: query_row_def run_stmt_def Let_def)
  then have "GetRemoteServerMetadata (sku_ServerName u) d = (Fail (Err ''database connection''), tick d)"
    by (simp add: GetRemoteServerMetadata_def act_bind_def)
  then have "store_at now u sigs addl notary d = write_at now u sigs addl notary (tick d)"
    by (simp add: store_at_def act_bind_def act_try_def)
  then show ?thesis using write_at_refines [OF assms(2,3), of now addl] by auto
qed

text \<open>
  C20: the failures of a store. A copy that uses one key id twice, as a current and as an old
  key, is refused, but only after the rows of the server are gone: its signatures are lost. And
  when the query for the stored record fails, the upgrade rule is skipped: any notary's copy
  that fits replaces the record, however much older it is.
\<close>

theorem store_failures:
  "(db_healthy d \<and> varchar_ok (sku_ServerName u) \<and> \<not> distinct (map rk_ID (stored_keys u)) \<longrightarrow>
     (\<forall>c. fst (write_at now u sigs addl [] d) \<noteq> Ret c) \<and>
     selectRemoteSignatures (sku_ServerName u) (snd (write_at now u sigs addl [] d)) = []) \<and>
   (db_fault e (db_tick e) = Lost \<and> db_healthy (tick e) \<and> key_info_fits u sigs notary \<longrightarrow>
     (\<exists>c d'. store_at now u sigs addl notary e = (Ret c, d') \<and>
       map_option h_valid (reservoir d' (sku_ServerName u)) = Some (sku_ValidUntilTs u)))"
  using duplicate_id_loses [of d u now sigs addl] metadata_error_skips_rule [of e u sigs notary now addl]
  by (auto simp: offer_def)

theorem store_failures_witness:
  "\<exists>c d'. store_at 100 demo_unsigned demo_signatures [] ''notary'' (demo_held_db (\<lambda>t. if t = 0 then Lost else Works)) = (Ret c, d') \<and>
     map_option h_valid (reservoir (demo_held_db (\<lambda>t. if t = 0 then Lost else Works)) ''s'') = Some 900 \<and>
     map_option h_valid (reservoir d' ''s'') = Some 500"
proof -
  let ?e = "demo_held_db (\<lambda>t. if t = 0 then Lost else Works)"
  have "db_fault ?e (db_tick ?e) = Lost" "db_healthy (tick ?e)" by (simp_all add: demo_held_db_def empty_db_def db_healthy_def)
  then obtain c d' where "store_at 100 demo_unsigned demo_signatures [] ''notary'' ?e = (Ret c, d')"
      "map_option h_valid (reservoir d' (sku_ServerName demo_unsigned)) = Some (sku_ValidUntilTs demo_unsigned)"
    using store_failures [of ?e demo_unsigned 100 demo_signatures "[]" ?e "''notary''"] demo_fits by blast
  moreover have "map_option h_valid (reservoir ?e ''s'') = Some 900" by (simp add: reservoir_def demo_held_db_def empty_db_def)
  ultimately show ?thesis by (simp add: demo_unsigned_def)
qed
end
