(* ===== verification/Evolution.thy ===== *)
theory Evolution
  imports KeyStore
begin

text \<open>
  How actions move the state: a relation between the state before and after that every action
  of a program respects, with a fact about the value returned. The interface \<open>evolution\<close> asks of
  the relation only that it is a preorder, and its rules follow the combinators, so that a fact
  about a whole handler needs facts about its primitive actions only.
\<close>

subsection \<open>The interface\<close>

locale evolution =
  fixes R :: "'w \<Rightarrow> 'w \<Rightarrow> bool"
  assumes refl: "R w w" and trans: "R u v \<Longrightarrow> R v w \<Longrightarrow> R u w"
begin

definition moves :: "('w, 'a) act \<Rightarrow> ('a \<Rightarrow> bool) \<Rightarrow> bool" where
  "moves m Q \<longleftrightarrow> (\<forall>w. R w (snd (m w)) \<and> (\<forall>x. fst (m w) = Ret x \<longrightarrow> Q x))"

lemma movesI: "(\<And>w. R w (snd (m w))) \<Longrightarrow> (\<And>w x. fst (m w) = Ret x \<Longrightarrow> Q x) \<Longrightarrow> moves m Q"
  by (simp add: moves_def)

lemma moves_step: "moves m Q \<Longrightarrow> R w (snd (m w))"
  by (simp add: moves_def)

lemma moves_value: "moves m Q \<Longrightarrow> m w = (Ret x, w') \<Longrightarrow> Q x"
  by (metis moves_def fst_conv)

lemma moves_weaken: "moves m Q \<Longrightarrow> (\<And>x. Q x \<Longrightarrow> Q' x) \<Longrightarrow> moves m Q'"
  by (auto simp: moves_def)

lemma moves_ret: "Q x \<Longrightarrow> moves (act_ret x) Q"
  by (simp add: moves_def refl)

lemma moves_fail: "moves (act_fail e) Q"
  by (simp add: moves_def refl)

lemma moves_pure: "(\<And>x. r = Ret x \<Longrightarrow> Q x) \<Longrightarrow> moves (act_pure r) Q"
  by (simp add: moves_def refl)

lemma moves_bind:
  assumes m: "moves m Q" and f: "\<And>x. Q x \<Longrightarrow> moves (f x) S"
  shows "moves (act_bind m f) S"
proof (rule movesI)
  fix w
  show "R w (snd (act_bind m f w))"
  proof (rule act_bind_keeps [where P = "R w"])
    show "R w (snd (m w))" by (rule moves_step [OF m])
    show "R w (snd (f x w'))" if "m w = (Ret x, w')" "R w w'" for x w'
      by (rule trans [OF that(2) moves_step [OF f [OF moves_value [OF m that(1)]]]])
  qed
  fix x assume "fst (act_bind m f w) = Ret x"
  then obtain y w' where y: "m w = (Ret y, w')" "f y w' = (Ret x, snd (act_bind m f w))"
    by (metis act_bind_eq_Ret_iff prod.collapse)
  show "S x" by (rule moves_value [OF f [OF moves_value [OF m y(1)]] y(2)])
qed

lemma moves_try:
  assumes "moves m Q"
  shows "moves (act_try m) (\<lambda>r. (\<forall>p. r \<noteq> Panic p) \<and> (\<forall>x. r = Ret x \<longrightarrow> Q x))"
proof (rule movesI)
  show "R w (snd (act_try m w))" for w using moves_step [OF assms] by simp
  fix w r assume "fst (act_try m w) = Ret r"
  then have "m w = (r, snd (act_try m w)) \<and> (\<forall>p. r \<noteq> Panic p)"
    using act_try_eq_Ret_iff [of m w r "snd (act_try m w)"] by (simp add: prod_eq_iff)
  then show "(\<forall>p. r \<noteq> Panic p) \<and> (\<forall>x. r = Ret x \<longrightarrow> Q x)" by (auto intro: moves_value [OF assms])
qed

lemma moves_if: "(b \<Longrightarrow> moves m Q) \<Longrightarrow> (\<not> b \<Longrightarrow> moves m' Q) \<Longrightarrow> moves (if b then m else m') Q"
  by simp

lemmas moves_intros = moves_ret moves_fail moves_pure moves_bind moves_try moves_if

end

subsection \<open>The invariant of the world\<close>

text \<open>The clock shows times after 1970 that fit 64 bits of nanoseconds.\<close>

definition clock_ok :: "env \<Rightarrow> bool" where
  "clock_ok E \<longleftrightarrow> (\<forall>t. 0 \<le> env_now E t \<and> env_now E t < 2 ^ 63)"

definition world_ok :: "world \<Rightarrow> bool" where
  "world_ok w \<longleftrightarrow> db_ok (w_db w) \<and> walks_ok (w_walks w) \<and> clients_ok w"

definition keeps_ok :: "world \<Rightarrow> world \<Rightarrow> bool" where
  "keeps_ok w w' \<longleftrightarrow> (world_ok w \<longrightarrow> world_ok w')"

interpretation ok: evolution keeps_ok
  by unfold_locales (auto simp: keeps_ok_def)

lemma keeps_ok_frame: "w_db w' = w_db w \<Longrightarrow> w_walks w' = w_walks w \<Longrightarrow> w_clients w' = w_clients w \<Longrightarrow> keeps_ok w w'"
  by (simp add: keeps_ok_def world_ok_def clients_ok_def)

subsection \<open>A working database keeps working\<close>

definition later :: "db \<Rightarrow> db \<Rightarrow> bool" where
  "later d e \<longleftrightarrow> db_fault e = db_fault d \<and> db_tick d \<le> db_tick e"

interpretation later: evolution later
  by unfold_locales (auto simp: later_def)

lemma later_tick [simp]: "later d (tick d)"
  by (simp add: later_def)

lemma later_healthy: "later d e \<Longrightarrow> db_healthy d \<Longrightarrow> db_healthy e"
  by (simp add: later_def db_healthy_def)

lemma same_tables_later: "same_tables d e \<Longrightarrow> later d e"
  by (simp add: same_tables_def later_def)

lemma later_exec:
  assumes "\<And>e. f (tick d) = Some e \<Longrightarrow> later (tick d) e"
  shows "later d (snd (exec_stmt ps f d))"
  using exec_stmt_effect [of ps f d] assms later.trans [OF later_tick] by fastforce

lemma statements_later:
  "upsertRemoteServer n u v j notary d = Some e \<Longrightarrow> later d e"
  "noteOriginFailure n u' f t d = Some e \<Longrightarrow> later d e"
  "resetOriginProbe n d = Some e \<Longrightarrow> later d e"
  "invalidateRemoteServer n d = Some e \<Longrightarrow> later d e"
  "deleteRemoteKeys n d = Some e \<Longrightarrow> later d e"
  "deleteRemoteSignatures n d = Some e \<Longrightarrow> later d e"
  "insertRemoteKey k d = Some e \<Longrightarrow> later d e"
  "insertRemoteSignature s d = Some e \<Longrightarrow> later d e"
  "insertActiveSelfKey i pub priv d = Some e \<Longrightarrow> later d e"
  by (auto simp: later_def upsertRemoteServer_def noteOriginFailure_def resetOriginProbe_def invalidateRemoteServer_def
      deleteRemoteKeys_def deleteRemoteSignatures_def insertRemoteKey_def insertRemoteSignature_def insertActiveSelfKey_def
      Let_def split: if_splits)

lemma exec_later:
  "later.moves (UpsertRemoteServer n u v addl notary) (\<lambda>_. True)"
  "later.moves (NoteOriginFailure n u f t) (\<lambda>_. True)"
  "later.moves (ResetOriginProbe n) (\<lambda>_. True)"
  "later.moves (InvalidateRemoteServer n) (\<lambda>_. True)"
  "later.moves (DeleteRemoteServerKeys n) (\<lambda>_. True)"
  "later.moves (DeleteRemoteServerSignatures n) (\<lambda>_. True)"
  "later.moves (AddOwnActiveKey i pub priv) (\<lambda>_. True)"
  "later.moves (add_key_row k) (\<lambda>_. True)"
  "later.moves (add_sig_row s) (\<lambda>_. True)"
  unfolding UpsertRemoteServer_def NoteOriginFailure_def ResetOriginProbe_def InvalidateRemoteServer_def AddOwnActiveKey_def
    DeleteRemoteServerKeys_def DeleteRemoteServerSignatures_def add_key_row add_sig_row Let_def
  by (intro later.movesI later_exec TrueI; erule statements_later)+

lemma iter_later: "(\<And>x. later.moves (f x) (\<lambda>_. True)) \<Longrightarrow> later.moves (act_iter f xs) (\<lambda>_. True)"
  by (induction xs) (auto intro: later.moves_ret later.moves_bind)

lemma read_later:
  "later.moves (GetRemoteServerMetadata n) (\<lambda>_. True)"
  "later.moves (packageCachedKeysFor s) (\<lambda>_. True)"
  "later.moves (loadHeld n) (\<lambda>_. True)"
  by (auto intro!: later.movesI same_tables_later packageCachedKeysFor_tables loadHeld_tables)

lemma write_at_later: "later.moves (write_at now u sigs addl notary) (\<lambda>_. True)"
  unfolding write_at_eq clear_probe_def Let_def
  by (auto intro!: later.moves_bind [where Q = "\<lambda>_. True"] exec_later iter_later later.moves_ret later.moves_weaken [OF later.moves_try [OF exec_later(3)]])

lemma store_at_later: "later.moves (store_at now u sigs addl notary) (\<lambda>_. True)"
  unfolding store_at_def
  by (rule later.moves_bind [OF later.moves_try [OF read_later(1)]])
    (auto intro: write_at_later read_later split: go.split option.split)

lemma FederatedGet_db [simp]: "w_db (snd (FederatedGet E url h w)) = w_db w" "w_walks (snd (FederatedGet E url h w)) = w_walks w"
  by (auto simp: FederatedGet_def federatedClientFor_def act_bind_def Let_def split: option.split)

lemma FederatedGet_bad_URL: "\<not> env_is_URL E url \<Longrightarrow> FederatedGet E url h w = (Fail (Err ''cannot parse the URL''), w)"
  by (simp add: FederatedGet_def)

lemma GetServerApiUrl_db [simp]: "w_db (snd (GetServerApiUrl E n w)) = w_db w" "w_walks (snd (GetServerApiUrl E n w)) = w_walks w"
  using GetServerApiUrl_same_store [of w E n] by (simp_all add: same_store_def)

lemma discovered_clients: "discovered E n w res ttl out calls w' \<Longrightarrow> w_clients w' = w_clients w"
  by (auto simp: discovered_def)

lemma GetServerApiUrl_clients [simp]: "w_clients (snd (GetServerApiUrl E n w)) = w_clients w"
proof -
  have "w_clients (snd (discover E n v)) = w_clients v" for v
    using discover_spec [of E n v "fst (discover E n v)" "snd (discover E n v)"] discovered_clients by fastforce
  then show ?thesis by (simp add: GetServerApiUrl_eq split: option.split)
qed

lemma FederatedGet_own [simp]: "w_own (snd (FederatedGet E url h w)) = w_own w" "w_outcomes (snd (FederatedGet E url h w)) = w_outcomes w"
  "w_notary_fetches (snd (FederatedGet E url h w)) = w_notary_fetches w" "w_requests (snd (FederatedGet E url h w)) = w_requests w"
  "w_origin_fetches (snd (FederatedGet E url h w)) = w_origin_fetches w"
  by (auto simp: FederatedGet_def federatedClientFor_def act_bind_def Let_def split: option.split)

lemma schedule_self_keys:
  "self_keys (snd (NoteOriginFailure n t f a d)) = self_keys d" "self_keys (snd (InvalidateRemoteServer n d)) = self_keys d"
proof -
  have eff: "self_keys (snd (exec_stmt ps g d)) = self_keys d" if "\<And>e. g (tick d) = Some e \<Longrightarrow> self_keys e = self_keys d" for ps g
    using exec_stmt_effect [of ps g d] that by auto
  show "self_keys (snd (NoteOriginFailure n t f a d)) = self_keys d" unfolding NoteOriginFailure_def
    by (rule eff) (auto simp: noteOriginFailure_def Let_def split: if_splits)
  show "self_keys (snd (InvalidateRemoteServer n d)) = self_keys d" unfolding InvalidateRemoteServer_def
    by (rule eff) (auto simp: invalidateRemoteServer_def)
qed

lemma store_at_self_keys: "self_keys (snd (store_at t u sigs addl notary d)) = self_keys d"
  using store_at_others_same [of u d t sigs addl notary] by (simp add: others_same_def)

subsection \<open>What serving does to the world\<close>

text \<open>
  The contract of a fetch: a relation that ignores the clock, the discovery cache, and the records
  of calls and discoveries, and that every other kind of primitive step of a fetch respects: a
  request through the pool of clients, a statement that only reads, and a store. \<open>time_ok\<close> is what
  is known of the time that the clock shows.
\<close>

locale fetching = evolution R for R :: "world \<Rightarrow> world \<Rightarrow> bool" +
  fixes E :: env and time_ok :: "int \<Rightarrow> bool"
  assumes clock: "time_ok (go_div (env_now E i) 1000000)"
    and quiet: "w_db w' = w_db w \<Longrightarrow> w_walks w' = w_walks w \<Longrightarrow> w_clients w' = w_clients w \<Longrightarrow> w_own w' = w_own w \<Longrightarrow>
      w_outcomes w' = w_outcomes w \<Longrightarrow> w_origin_fetches w' = w_origin_fetches w \<Longrightarrow>
      w_notary_fetches w' = w_notary_fetches w \<Longrightarrow> w_requests w' = w_requests w \<Longrightarrow> R w w'"
    and client: "R w (snd (FederatedGet E url h w))"
    and reading: "same_tables (w_db w) d \<Longrightarrow> R w (w\<lparr>w_db := d\<rparr>)"
    and storing: "go_json (JObj addl) \<Longrightarrow> R w (w\<lparr>w_db := snd (store_at t u sigs addl notary (w_db w))\<rparr>)"
begin

lemma moves_now: "moves (NowMillis E) time_ok"
  by (rule movesI) (auto simp: NowMillis_def clock intro: quiet)

lemma moves_clock: "moves (time_Now E) (\<lambda>_. True)" "moves (time_Since E start) (\<lambda>_. True)"
  by (auto intro!: movesI quiet)

lemma moves_discovery: "moves (GetServerApiUrl E n) (\<lambda>_. True)"
  by (rule movesI) (use GetServerApiUrl_same_store [of _ E n] in \<open>simp_all add: same_store_def quiet\<close>)

lemma moves_get: "moves (FederatedGet E url h) (\<lambda>_. True)"
  by (rule movesI) (simp_all add: client)

lemma moves_read: "(\<And>d. same_tables d (snd (m d))) \<Longrightarrow> moves (lift_db m) (\<lambda>_. True)"
  by (rule movesI) (simp_all add: reading)

lemma moves_act: "moves (act_pure r) (\<lambda>x. r = Ret x)"
  by (rule moves_pure) simp

lemma moves_store:
  assumes "go_json (JObj addl)"
  shows "moves (storeRemoteKeys E keyInfo addl notary) (\<lambda>_. True)"
  unfolding storeRemoteKeys_def
  by (rule moves_bind [OF moves_now]) (auto intro!: moves_pure movesI storing assms split: option.split)

end

text \<open>
  The contract of a probe of an origin: that of a fetch, a failure noted, and the fetch itself
  counted and timed.
\<close>

locale probing = fetching R E time_ok for R :: "world \<Rightarrow> world \<Rightarrow> bool" and E :: env and time_ok :: "int \<Rightarrow> bool" +
  assumes noting: "R w (w\<lparr>w_db := snd (NoteOriginFailure n t f a (w_db w))\<rparr>)"
    and timed: "R w (w\<lparr>w_origin_fetches := w_origin_fetches w @ [(r, d)]\<rparr>)"
begin

lemma moves_note: "moves (lift_db (NoteOriginFailure n t f a)) (\<lambda>_. True)"
  by (rule movesI) (simp_all add: noting)

lemma moves_observe: "moves (ObserveOriginFetch r d) (\<lambda>_. True)"
  by (auto intro!: movesI timed simp: ObserveOriginFetch_def)

end

text \<open>
  The contract of everything that serves a request or sweeps: that of a probe, a notary walk
  taken, a record invalidated, and the rest of the books. \<open>series_ok\<close> is what is known of the series
  that requests are counted in.
\<close>

locale serving = probing R E time_ok for R :: "world \<Rightarrow> world \<Rightarrow> bool" and E :: env and time_ok :: "int \<Rightarrow> bool" +
  fixes series_ok :: "request_series \<Rightarrow> bool"
  assumes walk: "time_ok t \<Longrightarrow> R w (w\<lparr>w_walks := snd (walk_take (w_walks w) n t)\<rparr>)"
    and invalidating: "R w (w\<lparr>w_db := snd (InvalidateRemoteServer n (w_db w))\<rparr>)"
    and recorded: "R w (w\<lparr>w_outcomes := w_outcomes w @ [oc]\<rparr>)"
    and asked: "n \<in> set (env_TrustedNotaries E) \<Longrightarrow> R w (w\<lparr>w_notary_fetches := w_notary_fetches w @ [((n, fr), d)]\<rparr>)"
    and counted: "series_ok s \<Longrightarrow> R w (w\<lparr>w_requests := w_requests w @ [(s, d)]\<rparr>)"
begin

lemma moves_quiet: "moves (RecordKeyQuery k) (\<lambda>_. True)"
  by (auto intro!: movesI recorded simp: RecordKeyQuery_def)

lemma moves_asked: "n \<in> set (env_TrustedNotaries E) \<Longrightarrow> moves (ObserveNotaryFetch n fr d) (\<lambda>_. True)"
  by (auto intro!: movesI asked simp: ObserveNotaryFetch_def)

lemma moves_counted: "series_ok (route, meth, status) \<Longrightarrow> moves (ObserveHTTPRequest route meth status d) (\<lambda>_. True)"
  by (auto intro!: movesI counted simp: ObserveHTTPRequest_def)

lemma moves_invalidate: "moves (lift_db (InvalidateRemoteServer n)) (\<lambda>_. True)"
  by (rule movesI) (simp_all add: invalidating)

end

subsection \<open>Relations that serving respects\<close>

text \<open>The invariant of the world is kept, as long as the clock is in its range.\<close>

definition keeps_ok_in :: "env \<Rightarrow> world \<Rightarrow> world \<Rightarrow> bool" where
  "keeps_ok_in E w w' \<longleftrightarrow> (clock_ok E \<longrightarrow> keeps_ok w w')"

definition ok_time :: "env \<Rightarrow> int \<Rightarrow> bool" where
  "ok_time E t \<longleftrightarrow> (clock_ok E \<longrightarrow> walk_time_ok t)"

lemma clock_time: "clock_ok E \<Longrightarrow> walk_time_ok (go_div (env_now E t) 1000000)"
proof -
  assume "clock_ok E"
  then have "0 \<le> env_now E t" "env_now E t < 2 ^ 63" by (simp_all add: clock_ok_def)
  then show ?thesis by (simp add: walk_time_ok_def go_div_nonneg pos_imp_zdiv_nonneg_iff)
qed

lemma client_keeps_ok: "keeps_ok w (snd (FederatedGet E url h w))"
  using FederatedGet_eq [of w E url h] FederatedGet_bad_URL [of E url h w]
  by (cases "env_is_URL E url") (auto simp: keeps_ok_def world_ok_def clients_ok_def [of "w_clients_update _ _"] clients_ok_def [of "_\<lparr>w_tick := _\<rparr>"])

interpretation valid: serving "keeps_ok_in E" E "ok_time E" "\<lambda>_. True" for E
proof unfold_locales
  fix w :: world and d assume "same_tables (w_db w) d"
  then show "keeps_ok_in E w (w\<lparr>w_db := d\<rparr>)" by (simp add: keeps_ok_in_def keeps_ok_def world_ok_def clients_ok_def same_tables_ok)
qed (auto simp: keeps_ok_in_def ok_time_def clock_time client_keeps_ok keeps_ok_def [of _ "_\<lparr>w_db := _\<rparr>"] keeps_ok_def [of _ "_\<lparr>w_walks := _\<rparr>"]
    world_ok_def clients_ok_def walk_take_last(3) store_at_ok writes_ok intro: keeps_ok_frame ok.refl elim: ok.trans)

text \<open>The server's own identity stays, in memory and in its table, and the database only moves on.\<close>

definition same_identity :: "world \<Rightarrow> world \<Rightarrow> bool" where
  "same_identity w w' \<longleftrightarrow> w_own w' = w_own w \<and> self_keys (w_db w') = self_keys (w_db w) \<and> later (w_db w) (w_db w')"

interpretation steady: serving same_identity E "\<lambda>_. True" "\<lambda>_. True" for E
  by unfold_locales
    (auto simp: same_identity_def same_tables_def store_at_self_keys schedule_self_keys later.moves_step [OF store_at_later] later.moves_step [OF exec_later(2)]
      later.moves_step [OF exec_later(4)] later.refl later_def [of _ "_\<lparr>self_keys := _\<rparr>"] intro: later.trans same_tables_later)

text \<open>
  The labels of the series stay in bounds: a notary that was asked is one of the configured ones;
  a request is counted under the action of a handler, a status that the handlers reply with, and,
  if it reached a route, a method that is registered. The method of a request that reached no
  route is whatever the client sent.
\<close>

definition route_actions :: "string set" where
  "route_actions = {''healthz'', ''federation_version'', ''local_keys'', ''query_keys_single'', ''query_keys_batch'', ''verify_auth_header''}"

definition fallback_actions :: "string set" where
  "fallback_actions = {''not_found'', ''method_not_allowed''}"

definition route_methods :: "string set" where
  "route_methods = {''GET'', ''POST'', ''OPTIONS''}"

definition reply_statuses :: "int set" where
  "reply_statuses = {200, 400, 401, 404, 405, 500}"

definition series_bounded :: "request_series \<Rightarrow> bool" where
  "series_bounded s = (case s of (action, meth, status) \<Rightarrow>
     status \<in> reply_statuses \<and> (action \<in> route_actions \<and> meth \<in> route_methods \<or> action \<in> fallback_actions))"

definition labels_ok :: "string set \<Rightarrow> world \<Rightarrow> bool" where
  "labels_ok notaries w \<longleftrightarrow> (\<forall>(l, d) \<in> set (w_notary_fetches w). fst l \<in> notaries) \<and> (\<forall>(s, d) \<in> set (w_requests w). series_bounded s)"

definition keeps_labels :: "env \<Rightarrow> world \<Rightarrow> world \<Rightarrow> bool" where
  "keeps_labels E w w' \<longleftrightarrow> (labels_ok (set (env_TrustedNotaries E)) w \<longrightarrow> labels_ok (set (env_TrustedNotaries E)) w')"

interpretation labelled: serving "keeps_labels E" E "\<lambda>_. True" series_bounded for E
proof unfold_locales
  show "keeps_labels E u v \<Longrightarrow> keeps_labels E v w \<Longrightarrow> keeps_labels E u w" for u v w by (simp add: keeps_labels_def)
qed (simp_all add: keeps_labels_def labels_ok_def)

text \<open>A probe counts no lookup: that is left to whoever asked for it.\<close>

definition same_outcomes :: "world \<Rightarrow> world \<Rightarrow> bool" where
  "same_outcomes w w' \<longleftrightarrow> w_outcomes w' = w_outcomes w"

interpretation silent: probing same_outcomes E "\<lambda>_. True" for E
  by unfold_locales (simp_all add: same_outcomes_def)

text \<open>A fetch does not count itself: that is left to the probe.\<close>

definition same_fetches :: "world \<Rightarrow> world \<Rightarrow> bool" where
  "same_fetches w w' \<longleftrightarrow> w_origin_fetches w' = w_origin_fetches w"

interpretation untimed: fetching same_fetches E "\<lambda>_. True" for E
  by unfold_locales (simp_all add: same_fetches_def)

end
