(* ===== verification/Fetch.thy ===== *)
theory Fetch
  imports Evolution
begin

text \<open>
  Asking an origin for its own keys (\<open>keys/notary.go\<close>): \<open>fetchDirectFromOrigin\<close> resolves the
  server, fetches and decodes its key object, checks the self-signatures and stores the result;
  \<open>probeOrigin\<close> adds the origin's backoff schedule. What the origin answers is up to the
  environment, which may answer anything.
\<close>

subsection \<open>The fetch\<close>

text \<open>
  The members of the document that the key struct does not know: they are kept apart and also
  put back into the map that is verified. The map grows while the loop runs.
\<close>

fun merge_fields :: "json gomap \<Rightarrow> json gomap \<Rightarrow> AdditionalJSON \<Rightarrow> json gomap \<times> AdditionalJSON" where
  "merge_fields [] m additional = (m, additional)"
| "merge_fields ((k, v) # fully) m additional =
     (if map_of m k = None then merge_fields fully (AList.update k v m) (AList.update k v additional)
      else merge_fields fully m additional)"

definition wrapf :: "string \<Rightarrow> 'a go \<Rightarrow> 'a go" where
  "wrapf msg r = (case r of Fail e \<Rightarrow> Fail (Wrapped msg e) | _ \<Rightarrow> r)"

text \<open>What is done with a body: the key object with the fields it does not model, if they verify.\<close>

definition check_origin_body :: "crypto \<Rightarrow> ServerName \<Rightarrow> string \<Rightarrow> (ServerKeyResult \<times> AdditionalJSON) go" where
  "check_origin_body C serverName c =
     go_bind (unmarshal_server_key c) (\<lambda>keyInfo.
     go_bind (wrapf (''origin '' @ serverName @ '' returned an unusable key response'') (Validate keyInfo)) (\<lambda>_.
     go_bind (grabPublicKeys keyInfo) (\<lambda>publicKeys.
     go_bind (unmarshal_map c) (\<lambda>fullyUnmarshalled.
     go_bind (InterfaceToMap (json_of_server_key keyInfo)) (\<lambda>m.
       case merge_fields fullyUnmarshalled m [] of (m, additionalFields) \<Rightarrow>
         go_bind (VerifySignatures C (JObj m) publicKeys) (\<lambda>_. Ret (keyInfo, additionalFields)))))))"

definition fetchDirectFromOrigin :: "env \<Rightarrow> ServerName \<Rightarrow> CachedRemoteKeys io" where
  "fetchDirectFromOrigin E serverName =
     act_bind (GetServerApiUrl E serverName) (\<lambda>(url, hostname).
     act_bind (FederatedGet E (url @ ''/_matrix/key/v2/server'') hostname) (\<lambda>keysResponse.
       if hr_StatusCode keysResponse \<noteq> 200
       then act_fail (OriginStatus serverName (hr_StatusCode keysResponse))
       else
         act_bind (act_pure (ReadResponseBody keysResponse)) (\<lambda>c.
         act_bind (act_pure (check_origin_body (env_crypto E) serverName c)) (\<lambda>(keyInfo, additionalFields).
           storeRemoteKeys E keyInfo additionalFields []))))"

subsection \<open>The probe\<close>

definition probeOrigin :: "env \<Rightarrow> ServerName \<Rightarrow> RemoteServer option \<Rightarrow> int \<Rightarrow> CachedRemoteKeys io" where
  "probeOrigin E serverName s now =
     act_bind (time_Now E) (\<lambda>originStart.
     act_bind (act_try (fetchDirectFromOrigin E serverName)) (\<lambda>result.
       (case result of
          Fail err \<Rightarrow>
            act_bind (time_Since E originStart) (\<lambda>d.
            act_bind (ObserveOriginFetch ResultFailure d) (\<lambda>_.
              let failures = (case s of None \<Rightarrow> 1 | Some s \<Rightarrow> wrap64 (rs_OriginFailures s + 1));
                  backoff = originBackoff failures (isTransientOriginFailure err)
              in act_bind (act_try (lift_db (NoteOriginFailure serverName now failures (wrap64 (now + Milliseconds backoff)))))
                   (\<lambda>_. act_fail err)))
        | _ \<Rightarrow>
            act_bind (time_Since E originStart) (\<lambda>d.
            act_bind (ObserveOriginFetch ResultSuccess d) (\<lambda>_. act_pure result)))))"

subsection \<open>What the checks accept\<close>

lemma merge_fields_eq:
  "wf_gomap fully \<Longrightarrow> fst ` set fully \<inter> fst ` set additional = {} \<Longrightarrow> fst ` set additional \<subseteq> dom (map_of m) \<Longrightarrow>
   merge_fields fully m additional =
     (m @ filter (\<lambda>(k, _). map_of m k = None) fully, additional @ filter (\<lambda>(k, _). map_of m k = None) fully)"
proof (induction fully m additional rule: merge_fields.induct)
  case (2 k v fully m additional)
  have wf: "wf_gomap fully" "k \<notin> fst ` set fully" using 2(3) by (auto simp: wf_gomap_def)
  show ?case
  proof (cases "map_of m k")
    case None
    then have fresh: "k \<notin> fst ` set m" "k \<notin> fst ` set additional" using 2(4) by (auto simp: map_of_eq_None_iff)
    have same: "filter (\<lambda>(k', _). map_of (m @ [(k, v)]) k' = None) fully = filter (\<lambda>(k', _). map_of m k' = None) fully"
      using wf(2) by (intro filter_cong) (force simp: map_add_def split: option.split)+
    have "merge_fields fully (AList.update k v m) (AList.update k v additional) =
        (AList.update k v m @ filter (\<lambda>(k', _). map_of (AList.update k v m) k' = None) fully,
         AList.update k v additional @ filter (\<lambda>(k', _). map_of (AList.update k v m) k' = None) fully)"
    proof (rule 2(1) [OF None wf(1)])
      show "fst ` set fully \<inter> fst ` set (AList.update k v additional) = {}"
        using 2(4) wf(2) fresh by (auto simp: AList_update_fresh)
      show "fst ` set (AList.update k v additional) \<subseteq> dom (map_of (AList.update k v m))"
        using 2(5) fresh by (auto simp: AList_update_fresh)
    qed
    then show ?thesis using None fresh same by (simp add: AList_update_fresh)
  next
    case (Some x)
    then show ?thesis using 2(2) [OF _ wf(1)] 2(4,5) by auto
  qed
qed simp

definition extra_fields :: "json gomap \<Rightarrow> json gomap \<Rightarrow> AdditionalJSON" where
  "extra_fields m fully = filter (\<lambda>(k, _). map_of m k = None) fully"

lemma merge_fields_Nil: "wf_gomap fully \<Longrightarrow> merge_fields fully m [] = (m @ extra_fields m fully, extra_fields m fully)"
  by (simp add: merge_fields_eq extra_fields_def)

lemma wrapf_Ret [simp]: "wrapf msg r = Ret x \<longleftrightarrow> r = Ret x"
  by (cases r) (simp_all add: wrapf_def)

lemma wrapf_Panic [simp]: "wrapf msg r = Panic p \<longleftrightarrow> r = Panic p"
  by (cases r) (simp_all add: wrapf_def)

lemma go_json_subset:
  "go_json (JObj m) \<Longrightarrow> wf_gomap m' \<Longrightarrow> set m' \<subseteq> set m \<Longrightarrow> go_json (JObj m')"
  by (fastforce simp: go_json_upto go_json_upto_JObj)

lemma go_json_extra_fields: "go_json (JObj fully) \<Longrightarrow> go_json (JObj (extra_fields m fully))"
  by (rule go_json_subset) (auto simp: extra_fields_def wf_gomap_filter)

lemma wf_append_extra: "wf_gomap m \<Longrightarrow> wf_gomap fully \<Longrightarrow> wf_gomap (m @ extra_fields m fully)"
  by (force simp: wf_gomap_def extra_fields_def distinct_map_filter map_of_eq_None_iff)

lemma go_json_append_extra:
  assumes "go_json (JObj m)" "go_json (JObj fully)"
  shows "go_json (JObj (m @ extra_fields m fully))"
proof -
  have "wf_gomap (m @ extra_fields m fully)" using assms by (simp add: wf_append_extra)
  then show ?thesis using assms by (auto simp: go_json_upto go_json_upto_JObj extra_fields_def)
qed

lemma json_of_server_key_JObj: "\<exists>m. json_of_server_key k = JObj m"
  by (simp add: json_of_server_key_def)

text \<open>The members of a key object as a Go map.\<close>

definition server_key_members :: "ServerKeyResult \<Rightarrow> json gomap" where
  "server_key_members k = (case json_of_server_key k of JObj m \<Rightarrow> sorted_members m | _ \<Rightarrow> [])"

lemma InterfaceToMap_server_key:
  "server_key_ok k \<Longrightarrow> InterfaceToMap (json_of_server_key k) = Ret (server_key_members k) \<and> go_json (JObj (server_key_members k))"
  using go_json_server_key [of k] json_of_server_key_JObj [of k]
  by (auto simp: server_key_members_def InterfaceToMap_go_json)

text \<open>What \<open>check_origin_body\<close> has established of what it returns.\<close>

definition checked_body :: "crypto \<Rightarrow> string \<Rightarrow> ServerKeyResult \<Rightarrow> AdditionalJSON \<Rightarrow> bool" where
  "checked_body C c k addl \<longleftrightarrow> unmarshal_server_key c = Ret k \<and> server_key_ok k \<and> Validate k = Ret () \<and>
     (\<exists>fully pk. unmarshal_map c = Ret fully \<and> addl = extra_fields (server_key_members k) fully \<and> go_json (JObj addl) \<and>
        grabPublicKeys k = Ret pk \<and> go_json (JObj (server_key_members k @ addl)) \<and>
        VerifySignatures C (JObj (server_key_members k @ addl)) pk = Ret ())"

lemma check_origin_body_Ret:
  "check_origin_body C n c = Ret (k, addl) \<longleftrightarrow> checked_body C c k addl"
proof -
  have "check_origin_body C n c = Ret (k, addl) \<longleftrightarrow>
    (unmarshal_server_key c = Ret k \<and> Validate k = Ret () \<and> (\<exists>pk fully. grabPublicKeys k = Ret pk \<and> unmarshal_map c = Ret fully \<and>
       (\<exists>m. InterfaceToMap (json_of_server_key k) = Ret m \<and>
         VerifySignatures C (JObj (fst (merge_fields fully m []))) pk = Ret () \<and> snd (merge_fields fully m []) = addl)))"
    unfolding check_origin_body_def split_def by (auto simp: go_bind_eq_Ret_iff)
  also have "\<dots> \<longleftrightarrow> checked_body C c k addl"
  proof (cases "unmarshal_server_key c = Ret k")
    case True
    note ok = unmarshal_server_key_ok [OF True]
    have m: "InterfaceToMap (json_of_server_key k) = Ret (server_key_members k)" "go_json (JObj (server_key_members k))"
      using InterfaceToMap_server_key [OF ok] by simp_all
    have f: "wf_gomap fully \<and> go_json (JObj (extra_fields (server_key_members k) fully)) \<and>
        go_json (JObj (server_key_members k @ extra_fields (server_key_members k) fully))"
      if "unmarshal_map c = Ret fully" for fully
      using unmarshal_map_go_json [OF that] m(2) by (simp add: go_json_extra_fields go_json_append_extra)
    show ?thesis using True ok m(1) f by (auto simp: checked_body_def merge_fields_Nil)
  qed (simp add: checked_body_def)
  finally show ?thesis .
qed

lemma checked_bodyD:
  "checked_body C c k addl \<Longrightarrow> server_key_ok k \<and> go_json (JObj addl) \<and> (\<exists>u. skr_Unsigned k = Some u)"
  by (auto simp: checked_body_def Validate_Ret)

subsection \<open>What a fetch does\<close>

context fetching
begin

lemma moves_fetch: "moves (fetchDirectFromOrigin E n) (\<lambda>_. True)"
  unfolding fetchDirectFromOrigin_def
proof (intro moves_bind [OF moves_discovery], clarify, intro moves_bind [OF moves_get] moves_if moves_fail)
  fix r
  have "moves (act_bind (act_pure (check_origin_body (env_crypto E) n c)) (\<lambda>(keyInfo, additionalFields).
      storeRemoteKeys E keyInfo additionalFields [])) (\<lambda>_. True)" for c
    by (rule moves_bind [OF moves_act]) (auto simp: check_origin_body_Ret dest!: checked_bodyD intro!: moves_store)
  then show "moves (act_bind (act_pure (ReadResponseBody r)) (\<lambda>c.
      act_bind (act_pure (check_origin_body (env_crypto E) n c)) (\<lambda>(keyInfo, additionalFields).
        storeRemoteKeys E keyInfo additionalFields []))) (\<lambda>_. True)"
    by (rule moves_bind [OF moves_act])
qed

end

context probing
begin

lemma moves_probe: "moves (probeOrigin E n s now) (\<lambda>_. True)"
  unfolding probeOrigin_def
  by (rule moves_bind [OF moves_clock(1)], rule moves_bind [OF moves_try [OF moves_fetch]])
    (auto simp: Let_def split: go.split intro!: moves_bind [OF moves_clock(2)] moves_bind [OF moves_observe]
      moves_bind [OF moves_try [OF moves_note]] moves_fail moves_pure)

end

lemma storeRemoteKeys_eq:
  "skr_Unsigned k = Some u \<Longrightarrow> storeRemoteKeys E k addl notary w =
     (let v = w\<lparr>w_tick := Suc (w_tick w)\<rparr>; now = go_div (env_now E (w_tick w)) 1000000;
          s = store_at now u (skr_Signatures k) addl notary (w_db w)
      in (fst s, v\<lparr>w_db := snd s\<rparr>))"
  by (simp add: storeRemoteKeys_def act_bind_def NowMillis_def lift_db_def Let_def split: prod.split)

text \<open>Everything up to the answer of the origin leaves the database alone.\<close>

lemma fetch_eq:
  assumes "GetServerApiUrl E n w = (Ret (url, host), w1)"
    and "FederatedGet E (url @ ''/_matrix/key/v2/server'') host w1 = (Ret r, w2)"
    and "hr_StatusCode r = 200" "ReadResponseBody r = Ret body"
    and "check_origin_body (env_crypto E) n body = Ret (k, addl)" "skr_Unsigned k = Some u"
  shows "fetchDirectFromOrigin E n w = storeRemoteKeys E k addl [] w2"
  using assms by (simp add: fetchDirectFromOrigin_def act_bind_app(1))

lemma fetch_Ret:
  assumes "fetchDirectFromOrigin E n w = (Ret c, w')"
  obtains url host r w1 w2 body k addl u where
    "GetServerApiUrl E n w = (Ret (url, host), w1)"
    "FederatedGet E (url @ ''/_matrix/key/v2/server'') host w1 = (Ret r, w2)"
    "hr_StatusCode r = 200" "ReadResponseBody r = Ret body" "checked_body (env_crypto E) body k addl" "skr_Unsigned k = Some u"
    "store_at (go_div (env_now E (w_tick w2)) 1000000) u (skr_Signatures k) addl [] (w_db w) = (Ret c, w_db w')"
proof -
  obtain url host w1 where a: "GetServerApiUrl E n w = (Ret (url, host), w1)"
    and "act_bind (FederatedGet E (url @ ''/_matrix/key/v2/server'') host) (\<lambda>keysResponse.
       if hr_StatusCode keysResponse \<noteq> 200 then act_fail (OriginStatus n (hr_StatusCode keysResponse))
       else act_bind (act_pure (ReadResponseBody keysResponse)) (\<lambda>c.
         act_bind (act_pure (check_origin_body (env_crypto E) n c)) (\<lambda>(keyInfo, additionalFields).
           storeRemoteKeys E keyInfo additionalFields []))) w1 = (Ret c, w')"
    using assms by (auto simp: fetchDirectFromOrigin_def act_bind_eq_Ret_iff)
  then obtain r w2 where b: "FederatedGet E (url @ ''/_matrix/key/v2/server'') host w1 = (Ret r, w2)"
    and rest: "(if hr_StatusCode r \<noteq> 200 then act_fail (OriginStatus n (hr_StatusCode r))
       else act_bind (act_pure (ReadResponseBody r)) (\<lambda>c.
         act_bind (act_pure (check_origin_body (env_crypto E) n c)) (\<lambda>(keyInfo, additionalFields).
           storeRemoteKeys E keyInfo additionalFields []))) w2 = (Ret c, w')"
    unfolding act_bind_eq_Ret_iff by blast
  from rest obtain body k addl where d: "hr_StatusCode r = 200" "ReadResponseBody r = Ret body"
    "check_origin_body (env_crypto E) n body = Ret (k, addl)" "storeRemoteKeys E k addl [] w2 = (Ret c, w')"
    by (cases "hr_StatusCode r = 200") (auto simp: act_bind_eq_Ret_iff)
  have chk: "checked_body (env_crypto E) body k addl" using d(3) by (simp only: check_origin_body_Ret)
  then obtain u where u: "skr_Unsigned k = Some u" using checked_bodyD by blast
  have "w_db w2 = w_db w"
    using GetServerApiUrl_db(1) [of E n w] FederatedGet_db(1) [of E "url @ ''/_matrix/key/v2/server''" host w1] a b by simp
  then have "store_at (go_div (env_now E (w_tick w2)) 1000000) u (skr_Signatures k) addl [] (w_db w) = (Ret c, w_db w')"
    using d(4) storeRemoteKeys_eq [OF u, of E addl "[]" w2] by (auto simp: Let_def prod_eq_iff)
  with a b d(1,2) chk u show ?thesis by (rule that)
qed

subsection \<open>What a self-signed key object is\<close>

lemma decode_keys_Ret:
  "decode_keys ks acc = Ret out \<Longrightarrow> map_of out i = Some pub \<Longrightarrow>
     map_of acc i = Some pub \<or> (\<exists>v. (i, v) \<in> set ks \<and> DecodeUnpaddedBase64String (vk_Key v) = Ret pub)"
  by (induction ks acc rule: decode_keys.induct) (fastforce simp: go_bind_eq_Ret_iff split: if_splits)+

lemma grabPublicKeys_Ret:
  "grabPublicKeys k = Ret pk \<longleftrightarrow> (\<exists>u ks. skr_Unsigned k = Some u \<and> decode_keys (nil_entries (sku_VerifyKeys u)) [] = Ret ks \<and>
     pk = [(sku_ServerName u, ks)])"
  by (auto simp: grabPublicKeys_def go_bind_eq_Ret_iff split: option.splits)

lemma map_of_server_key_members:
  assumes "server_key_ok k"
  shows "map_of (server_key_members k) ''signatures'' = Some (sort_keys (json_of_map (json_of_map JStr) (skr_Signatures k)))"
proof -
  obtain m where m: "json_of_server_key k = JObj m" using json_of_server_key_JObj by blast
  have "go_json (JObj m)" using go_json_server_key [OF assms] m by simp
  moreover have "map_of m ''signatures'' = Some (json_of_map (json_of_map JStr) (skr_Signatures k))"
    using m by (auto simp: json_of_server_key_def json_of_unsigned_def split: option.splits)
  ultimately show ?thesis using m by (simp add: server_key_members_def map_of_sorted_members)
qed

lemma map_of_append_extra: "map_of m x = Some v \<Longrightarrow> map_of (m @ a) x = Some v"
  by (simp add: map_add_Some_iff)

lemma set_json_of_map: "json_of_map elem m = JObj kvs \<Longrightarrow> set kvs = (\<lambda>(k, v). (k, elem v)) ` set (nil_entries m)"
  by (cases m) (auto simp: json_of_map_def)

lemma sort_keys_eq_JObj: "sort_keys v = JObj s \<longleftrightarrow> (\<exists>kvs. v = JObj kvs \<and> s = sorted_members kvs)"
  by (cases v) auto

lemma json_of_map_eq_JObj: "json_of_map elem m = JObj kvs \<longleftrightarrow> (\<exists>es. m = Some es \<and> kvs = map (\<lambda>(k, v). (k, elem v)) es)"
  by (cases m) (auto simp: json_of_map_def)

lemma checked_signatures:
  assumes "checked_body C body k addl" "skr_Unsigned k = Some u"
  shows "nil_entries (skr_Signatures k) \<noteq> [] \<and>
    (\<forall>(d, ks) \<in> set (nil_entries (skr_Signatures k)). d = sku_ServerName u \<and>
      (\<exists>es. ks = Some es \<and> (\<forall>(i, s) \<in> set es. \<exists>v pub raw. (i, v) \<in> set (nil_entries (sku_VerifyKeys u)) \<and>
        DecodeUnpaddedBase64String (vk_Key v) = Ret pub \<and> length pub = 32 \<and> DecodeUnpaddedBase64String s = Ret raw \<and>
        cr_verify C pub (EncodeCanonicalJson (signed_part (server_key_members k @ addl))) raw)))"
proof -
  let ?m = "server_key_members k @ addl" and ?C = "EncodeCanonicalJson (signed_part (server_key_members k @ addl))"
  obtain pk where pk: "grabPublicKeys k = Ret pk" "go_json (JObj ?m)" "VerifySignatures C (JObj ?m) pk = Ret ()" "server_key_ok k"
    using assms(1) by (auto simp: checked_body_def)
  obtain ks where ks: "decode_keys (nil_entries (sku_VerifyKeys u)) [] = Ret ks" "pk = [(sku_ServerName u, ks)]"
    using pk(1) assms(2) by (auto simp: grabPublicKeys_Ret)
  obtain sigs where sigs: "map_of ?m ''signatures'' = Some (JObj sigs)" "sigs \<noteq> []"
    "\<forall>(d, sig) \<in> set sigs. domain_sigs_ok C ?C pk d sig"
    using pk(3) unfolding VerifySignatures_Ret [OF pk(2)] by blast
  have "map_of ?m ''signatures'' = Some (sort_keys (json_of_map (json_of_map JStr) (skr_Signatures k)))"
    by (rule map_of_append_extra [OF map_of_server_key_members [OF pk(4)]])
  then obtain es where es: "skr_Signatures k = Some es" "sigs = sorted_members (map (\<lambda>(d, v). (d, json_of_map JStr v)) es)"
    using sigs(1) by (auto simp: sort_keys_eq_JObj json_of_map_eq_JObj)
  have in_sigs: "(d, sort_keys (json_of_map JStr v)) \<in> set sigs" if "(d, v) \<in> set es" for d v
    using that unfolding es(2) by (force simp: image_iff)
  have "d = sku_ServerName u \<and> (\<exists>ss. v = Some ss \<and> (\<forall>(i, s) \<in> set ss. \<exists>x pub raw. (i, x) \<in> set (nil_entries (sku_VerifyKeys u)) \<and>
        DecodeUnpaddedBase64String (vk_Key x) = Ret pub \<and> length pub = 32 \<and> DecodeUnpaddedBase64String s = Ret raw \<and>
        cr_verify C pub ?C raw))" if dv: "(d, v) \<in> set es" for d v
  proof -
    have "domain_sigs_ok C ?C pk d (json_of_map JStr v)" using sigs(3) in_sigs [OF dv] by fastforce
    then obtain dk kvs where dk: "map_of pk d = Some dk" "json_of_map JStr v = JObj kvs"
      "\<forall>(i, b) \<in> set kvs. key_sig_ok C ?C dk i b" by (auto simp: domain_sigs_ok_def)
    have d: "d = sku_ServerName u" "dk = ks" using dk(1) ks(2) by (auto split: if_splits)
    obtain ss where ss: "v = Some ss" "kvs = map (\<lambda>(i, s). (i, JStr s)) ss"
      using dk(2) by (auto simp: json_of_map_eq_JObj)
    have "\<exists>x pub raw. (i, x) \<in> set (nil_entries (sku_VerifyKeys u)) \<and> DecodeUnpaddedBase64String (vk_Key x) = Ret pub \<and>
        length pub = 32 \<and> DecodeUnpaddedBase64String s = Ret raw \<and> cr_verify C pub ?C raw" if "(i, s) \<in> set ss" for i s
    proof -
      have "key_sig_ok C ?C ks i (JStr s)" using dk(3) that d(2) unfolding ss(2) by force
      then show ?thesis using decode_keys_Ret [OF ks(1)] by (fastforce simp: key_sig_ok_def)
    qed
    then show ?thesis using d(1) ss(1) by blast
  qed
  then have "\<forall>(d, v) \<in> set (nil_entries (skr_Signatures k)). d = sku_ServerName u \<and> (\<exists>ss. v = Some ss \<and> (\<forall>(i, s) \<in> set ss. \<exists>x pub raw.
        (i, x) \<in> set (nil_entries (sku_VerifyKeys u)) \<and> DecodeUnpaddedBase64String (vk_Key x) = Ret pub \<and> length pub = 32 \<and>
        DecodeUnpaddedBase64String s = Ret raw \<and> cr_verify C pub ?C raw))"
    unfolding es(1) nil_entries_simps by blast
  moreover have "es \<noteq> []" using es(2) sigs(2) by auto
  ultimately show ?thesis using es(1) by simp
qed

subsection \<open>The row that a store leaves\<close>

lemma act_iter_frame:
  "(\<And>x d. g (snd (f x d)) = g d) \<Longrightarrow> g (snd (act_iter f xs d)) = g d"
  by (rule act_iter_keeps [where P = "\<lambda>e. g e = g d"]) simp_all

lemma add_rows_servers: "remote_servers (snd (add_key_row r d)) = remote_servers d" "remote_servers (snd (add_sig_row s d)) = remote_servers d"
  using key_rows.frame_ins [of r d] sig_rows.frame_ins [of s d] by simp_all

lemma write_at_row:
  assumes "write_at now u sigs addl notary d = (Ret c, d')" "db_healthy d"
  shows "c = stored_result now u sigs addl notary \<and>
    map_of (remote_servers d') (sku_ServerName u) = Some (let w = written_row now (sku_ValidUntilTs u) addl notary
        (map_of (remote_servers d) (sku_ServerName u)) in
      if notary = [] then w\<lparr>sr_origin_failures := 0, sr_next_origin_attempt_ts := 0\<rparr> else w)"
proof -
  let ?n = "sku_ServerName u"
  obtain d1 d2 d3 d4 d5 where s:
    "UpsertRemoteServer ?n now (sku_ValidUntilTs u) addl notary d = (Ret (), d1)"
    "DeleteRemoteServerKeys ?n d1 = (Ret (), d2)" "DeleteRemoteServerSignatures ?n d2 = (Ret (), d3)"
    "clear_probe ?n notary d3 = (Ret (), d4)" "act_iter add_key_row (map row_of_key (stored_keys u)) d4 = (Ret (), d5)"
    "act_iter add_sig_row (map row_of_sig (stored_sigs ?n sigs)) d5 = (Ret (), d')"
    "c = stored_result now u sigs addl notary"
    using assms(1) unfolding write_at_eq Let_def by (auto simp: act_bind_eq_Ret_iff)
  have v: "varchar_ok ?n" "notary = [] \<or> varchar_ok notary"
    using s(1) by (auto simp: UpsertRemoteServer_def exec_stmt_Ret upsertRemoteServer_def Let_def split: if_splits)
  have h: "db_healthy d3"
    using s(1-3) assms(2) later.moves_step [OF exec_later(1)] later.moves_step [OF exec_later(5)] later.moves_step [OF exec_later(6)]
    by (metis later_healthy snd_conv)
  have "remote_servers d3 = remote_servers d1"
    using s(2,3) by (auto simp: DeleteRemoteServerKeys_def DeleteRemoteServerSignatures_def exec_stmt_Ret deleteRemoteKeys_def deleteRemoteSignatures_def)
  moreover have "remote_servers d' = remote_servers d4"
    using act_iter_frame [of remote_servers add_key_row, OF add_rows_servers(1), of "map row_of_key (stored_keys u)" d4]
      act_iter_frame [of remote_servers add_sig_row, OF add_rows_servers(2), of "map row_of_sig (stored_sigs ?n sigs)" d5] s(5,6)
    by simp
  moreover have "map_of (remote_servers d1) ?n = Some (written_row now (sku_ValidUntilTs u) addl notary (map_of (remote_servers d) ?n))"
    using s(1) UpsertRemoteServer_healthy [OF assms(2) v] by auto
  moreover have "d4 = (if notary = [] then update_server ?n (\<lambda>r. r\<lparr>sr_origin_failures := 0, sr_next_origin_attempt_ts := 0\<rparr>) (tick d3) else d3)"
    using clear_probe_healthy [OF h varchar_ok_text [OF v(1)], of notary] s(4) by simp
  ultimately show ?thesis using s(7) by (auto simp: map_of_update_server Let_def)
qed

lemma store_direct_row:
  assumes "store_at now u sigs addl [] d = (Ret c, d')" "db_healthy d"
  shows "c = stored_result now u sigs addl [] \<and>
    (\<exists>r. map_of (remote_servers d') (sku_ServerName u) = Some r \<and> sr_origin_failures r = 0 \<and> sr_next_origin_attempt_ts r = 0 \<and>
      sr_obtained_via_notary r = None \<and> sr_updated_ts r = now \<and> sr_valid_until_ts r = sku_ValidUntilTs u)"
proof -
  have "\<exists>e. store_at now u sigs addl [] d = write_at now u sigs addl [] e \<and> db_healthy e"
  proof (cases "act_try (GetRemoteServerMetadata (sku_ServerName u)) d")
    case (Pair ex e)
    moreover from this have "e = tick d" using act_try_snd [of "GetRemoteServerMetadata (sku_ServerName u)" d] by simp
    ultimately show ?thesis using assms
      by (cases ex) (auto simp: store_at_def act_bind_def split: go.splits option.splits intro!: exI [of _ "tick d"])
  qed
  then obtain e where "write_at now u sigs addl [] e = (Ret c, d')" "db_healthy e" using assms(1) by auto
  from write_at_row [OF this] show ?thesis by (auto simp: Let_def written_row_def)
qed

subsection \<open>The schedule after a probe\<close>

definition noted_row :: "int \<Rightarrow> int \<Rightarrow> int \<Rightarrow> server_row option \<Rightarrow> server_row" where
  "noted_row now f t old = (case old of
     Some r \<Rightarrow> r\<lparr>sr_updated_ts := now, sr_origin_failures := f, sr_next_origin_attempt_ts := t\<rparr>
   | None \<Rightarrow> \<lparr>sr_updated_ts = now, sr_valid_until_ts = 0, sr_nonstandard_json = ''{}'', sr_obtained_via_notary = None,
       sr_origin_failures = f, sr_next_origin_attempt_ts = t\<rparr>)"

lemma NoteOriginFailure_healthy:
  assumes "db_healthy d" "varchar_ok n" "int4_ok f"
  shows "NoteOriginFailure n now f t d = (Ret (), set_server n (noted_row now f t (map_of (remote_servers d) n)) (tick d))"
  using exec_stmt_up [OF db_healthy_up [OF assms(1)], of "[n]" "noteOriginFailure n now f t"] assms(2,3)
  by (simp add: NoteOriginFailure_def noteOriginFailure_def noted_row_def set_server_def varchar_ok_text)

lemma NoteOriginFailure_no_Panic [simp]: "NoteOriginFailure n now f t d \<noteq> (Panic p, d')"
  by (simp add: NoteOriginFailure_def)

definition failures_after :: "RemoteServer option \<Rightarrow> int" where
  "failures_after s = (case s of None \<Rightarrow> 1 | Some s \<Rightarrow> wrap64 (rs_OriginFailures s + 1))"

text \<open>The observation of a fetch that began in \<open>w\<close> and ended in \<open>w1\<close>.\<close>

definition fetch_observed :: "env \<Rightarrow> world \<Rightarrow> fetch_result \<Rightarrow> world \<Rightarrow> world" where
  "fetch_observed E w r w1 = w1\<lparr>w_tick := Suc (w_tick w1), w_origin_fetches := w_origin_fetches w1 @
     [(r, go_sub_time (env_now E (w_tick w1)) (env_now E (w_tick w)))]\<rparr>"

lemma fetch_observed_db [simp]: "w_db (fetch_observed E w r w1) = w_db w1"
  by (simp add: fetch_observed_def)

lemma probe_eq:
  "probeOrigin E n s now w = (case fetchDirectFromOrigin E n (w\<lparr>w_tick := Suc (w_tick w)\<rparr>) of (res, w1) \<Rightarrow>
     (case res of
        Fail e \<Rightarrow> (Fail e, (fetch_observed E w ResultFailure w1)\<lparr>w_db := snd (NoteOriginFailure n now (failures_after s)
          (wrap64 (now + Milliseconds (originBackoff (failures_after s) (isTransientOriginFailure e)))) (w_db w1))\<rparr>)
      | Ret c \<Rightarrow> (Ret c, fetch_observed E w ResultSuccess w1)
      | Panic p \<Rightarrow> (Panic p, w1)))"
proof -
  have "act_try (lift_db (NoteOriginFailure n now f t)) w1 = (Ret (fst (NoteOriginFailure n now f t (w_db w1))),
      w1\<lparr>w_db := snd (NoteOriginFailure n now f t (w_db w1))\<rparr>)" for f t w1
    using NoteOriginFailure_no_Panic [of n now f t "w_db w1"]
    by (cases "NoteOriginFailure n now f t (w_db w1)"; cases "fst (NoteOriginFailure n now f t (w_db w1))")
      (auto simp: act_try_def lift_db_def)
  then show ?thesis
    by (cases "fetchDirectFromOrigin E n (w\<lparr>w_tick := Suc (w_tick w)\<rparr>)"; cases "fst (fetchDirectFromOrigin E n (w\<lparr>w_tick := Suc (w_tick w)\<rparr>))")
      (auto simp: probeOrigin_def act_bind_def act_try_def failures_after_def fetch_observed_def ObserveOriginFetch_def Let_def)
qed

lemma probe_Fail:
  assumes "probeOrigin E n s now w = (Fail e, w')" "db_healthy (w_db w)" "varchar_ok n" "int4_ok (failures_after s)"
  shows "\<exists>r. map_of (remote_servers (w_db w')) n = Some r \<and> sr_origin_failures r = failures_after s \<and> sr_updated_ts r = now \<and>
    sr_next_origin_attempt_ts r = wrap64 (now + Milliseconds (originBackoff (failures_after s) (isTransientOriginFailure e)))"
proof -
  obtain w1 where w1: "fetchDirectFromOrigin E n (w\<lparr>w_tick := Suc (w_tick w)\<rparr>) = (Fail e, w1)"
    and w': "w_db w' = snd (NoteOriginFailure n now (failures_after s)
          (wrap64 (now + Milliseconds (originBackoff (failures_after s) (isTransientOriginFailure e)))) (w_db w1))"
    using assms(1) unfolding probe_eq by (auto split: prod.splits go.splits)
  have "same_identity (w\<lparr>w_tick := Suc (w_tick w)\<rparr>) w1"
    using steady.moves_step [OF steady.moves_fetch, of "w\<lparr>w_tick := Suc (w_tick w)\<rparr>" E n] w1 by simp
  then have "db_healthy (w_db w1)" using assms(2) by (auto simp: same_identity_def intro: later_healthy)
  from NoteOriginFailure_healthy [OF this assms(3,4)] w' show ?thesis
    by (auto simp: noted_row_def split: option.split)
qed

lemma probe_Ret:
  assumes "probeOrigin E n s now w = (Ret c, w')" "db_healthy (w_db w)"
  shows "\<exists>r. map_of (remote_servers (w_db w')) (rs_ServerName (ck_RemoteServer c)) = Some r \<and> sr_origin_failures r = 0 \<and>
    sr_next_origin_attempt_ts r = 0 \<and> sr_obtained_via_notary r = None \<and> sr_valid_until_ts r = ck_ValidUntilTs c"
proof -
  obtain w1 where "fetchDirectFromOrigin E n (w\<lparr>w_tick := Suc (w_tick w)\<rparr>) = (Ret c, w1)" "w_db w' = w_db w1"
    using assms(1) unfolding probe_eq by (auto split: prod.splits go.splits)
  then obtain now' u sigs addl where s: "store_at now' u sigs addl [] (w_db w) = (Ret c, w_db w')" by (auto elim: fetch_Ret)
  from store_direct_row [OF s assms(2)] show ?thesis by auto
qed

subsection \<open>A document without a single signature\<close>

lemma parse_server_key:
  assumes "server_key_ok k" "json_of_server_key k = JObj m"
  shows "json_parse (json_text (json_of_server_key k)) = Some (JObj m)" "unmarshal_map (json_text (json_of_server_key k)) = Ret m"
proof -
  have g: "go_json (JObj m)" using go_json_server_key [OF assms(1)] assms(2) by simp
  then show p: "json_parse (json_text (json_of_server_key k)) = Some (JObj m)"
    unfolding assms(2) go_json_def by (intro json_parse_text) simp_all
  have "go_value (JObj m) = JObj m" using g by (intro go_value_id) (simp only: go_json_def)
  then show "unmarshal_map (json_text (json_of_server_key k)) = Ret m" using p by (simp add: unmarshal_map_def map_of_json_def)
qed

lemma unsigned_document_accepted:
  assumes "server_key_ok k" "Validate k = Ret ()" "skr_Unsigned k = Some u"
    and "decode_keys (nil_entries (sku_VerifyKeys u)) [] = Ret ks"
    and "skr_Signatures k = Some [(sku_ServerName u, Some [])]"
  shows "check_origin_body C n (json_text (json_of_server_key k)) = Ret (k, [])"
proof -
  obtain m where m: "json_of_server_key k = JObj m" using json_of_server_key_JObj by blast
  have g: "go_json (JObj m)" using go_json_server_key [OF assms(1)] m by simp
  have sm: "server_key_members k = sorted_members m" using m by (simp add: server_key_members_def)
  have none: "extra_fields (server_key_members k) m = []"
    using g by (force simp: extra_fields_def sm map_of_sorted_members filter_empty_conv map_of_eq_None_iff)
  have "map_of (server_key_members k) ''signatures'' = Some (JObj [(sku_ServerName u, JObj [])])"
    unfolding map_of_server_key_members [OF assms(1)] assms(5) by (simp add: json_of_map_def sorted_members_def)
  then have "VerifySignatures C (JObj (server_key_members k)) [(sku_ServerName u, ks)] = Ret ()"
    using g by (subst VerifySignatures_Ret) (auto simp: sm domain_sigs_ok_def)
  moreover have "unmarshal_server_key (json_text (json_of_server_key k)) = Ret k"
    using server_key.dec_enc [of k] assms(1,3) by (auto simp: server_key_text_def split: go.splits)
  moreover have "grabPublicKeys k = Ret [(sku_ServerName u, ks)]" using assms(3,4) by (simp add: grabPublicKeys_Ret)
  ultimately have "checked_body C (json_text (json_of_server_key k)) k []"
    using assms(1,2) parse_server_key(2) [OF assms(1) m] none g by (auto simp: checked_body_def sm)
  then show ?thesis by (simp only: check_origin_body_Ret)
qed

subsection \<open>A concrete origin\<close>

definition demo_origin_env :: "string \<Rightarrow> env" where
  "demo_origin_env body = demo_env\<lparr>env_http := (\<lambda>_ call. case call of WellKnownGet _ \<Rightarrow> Ret demo_404
     | FederatedCall _ _ _ \<Rightarrow> Ret \<lparr>hr_StatusCode = 200, hr_CacheControl = [], hr_bytes = body, hr_broken = False\<rparr>)\<rparr>"

lemma demo_origin_simps [simp]:
  "env_now (demo_origin_env b) = env_now demo_env"
  "env_srv (demo_origin_env b) = env_srv demo_env" "env_is_IP (demo_origin_env b) = env_is_IP demo_env"
  "env_is_RequestURI (demo_origin_env b) = env_is_RequestURI demo_env" "env_is_URL (demo_origin_env b) = env_is_URL demo_env" "env_cache_get (demo_origin_env b) = env_cache_get demo_env"
  "env_http (demo_origin_env b) t (WellKnownGet u) = Ret demo_404"
  "env_http (demo_origin_env b) t (FederatedCall x y z) = Ret \<lparr>hr_StatusCode = 200, hr_CacheControl = [], hr_bytes = b, hr_broken = False\<rparr>"
  by (simp_all add: demo_origin_env_def)

lemma FederatedGet_call: "env_is_URL E url \<Longrightarrow> \<exists>t. fst (FederatedGet E url h w) = env_http E (w_tick w) (FederatedCall url h t)"
  by (cases "map_of (w_clients w) h") (auto simp: FederatedGet_def federatedClientFor_def act_bind_def Let_def)

lemma demo_origin_url:
  "\<exists>w1. GetServerApiUrl (demo_origin_env b) ''s'' demo_world = (Ret (''https://s:8448'', ''s''), w1) \<and> w_db w1 = w_db demo_world"
proof -
  have "fst (GetServerApiUrl (demo_origin_env b) ''s'' demo_world) = Ret (''https://s:8448'', ''s'')"
    by (simp add: GetServerApiUrl_eq discover_def demo_split demo_env_def probeWellKnown_def classifyWellKnown_def demo_404_def act_bind_def
      without_delegation_def lookupSrv_def https_url_def Let_def demo_world_def list_cache_get_def last_set_def)
  then show ?thesis using GetServerApiUrl_db(1) [of "demo_origin_env b" "''s''" demo_world]
    by (cases "GetServerApiUrl (demo_origin_env b) ''s'' demo_world") auto
qed

lemma demo_origin_get:
  "\<exists>w2. FederatedGet (demo_origin_env b) url h w = (Ret \<lparr>hr_StatusCode = 200, hr_CacheControl = [], hr_bytes = b, hr_broken = False\<rparr>, w2)"
  using FederatedGet_call [of "demo_origin_env b" url h w] by (cases "FederatedGet (demo_origin_env b) url h w") auto

text \<open>A key object of another server, signed by nobody.\<close>

definition demo_foreign_key :: ServerKeyResult where
  "demo_foreign_key = \<lparr>skr_Unsigned = Some \<lparr>sku_ServerName = ''victim'', sku_ValidUntilTs = 900,
     sku_VerifyKeys = Some [(''k'', \<lparr>vk_Key = ''AA''\<rparr>)], sku_OldVerifyKeys = Some []\<rparr>, skr_Signatures = Some [(''victim'', Some [])]\<rparr>"

lemma demo_foreign_ok: "server_key_ok demo_foreign_key"
  by (simp add: demo_foreign_key_def server_key_ok_def unsigned_ok_def nilmap_ok_def verify_key_ok_def
      wf_gomap_def num_ok_def utf8_ok_ascii)

lemma demo_foreign_fits: "key_info_fits (the (skr_Unsigned demo_foreign_key)) (skr_Signatures demo_foreign_key) []"
  by code_simp

lemma demo_foreign_read:
  "ReadResponseBody \<lparr>hr_StatusCode = 200, hr_CacheControl = [], hr_bytes = json_text (json_of_server_key demo_foreign_key), hr_broken = False\<rparr> =
     Ret (json_text (json_of_server_key demo_foreign_key))"
proof -
  have "length (json_text (json_of_server_key demo_foreign_key)) \<le> 200" by code_simp
  then show ?thesis by (simp add: ReadResponseBody_def maxResponseBytes_def)
qed

lemma demo_foreign_valid:
  "Validate demo_foreign_key = Ret ()"
  "skr_Unsigned demo_foreign_key = Some \<lparr>sku_ServerName = ''victim'', sku_ValidUntilTs = 900,
     sku_VerifyKeys = Some [(''k'', \<lparr>vk_Key = ''AA''\<rparr>)], sku_OldVerifyKeys = Some []\<rparr>"
  "decode_keys (nil_entries (sku_VerifyKeys \<lparr>sku_ServerName = ''victim'', sku_ValidUntilTs = 900,
     sku_VerifyKeys = Some [(''k'', \<lparr>vk_Key = ''AA''\<rparr>)], sku_OldVerifyKeys = Some []\<rparr>)) [] = Ret [(''k'', [CHR 0x00])]"
  "skr_Signatures demo_foreign_key = Some [(sku_ServerName \<lparr>sku_ServerName = ''victim'', sku_ValidUntilTs = 900,
     sku_VerifyKeys = Some [(''k'', \<lparr>vk_Key = ''AA''\<rparr>)], sku_OldVerifyKeys = Some []\<rparr>, Some [])]"
  "the (skr_Unsigned demo_foreign_key) = \<lparr>sku_ServerName = ''victim'', sku_ValidUntilTs = 900,
     sku_VerifyKeys = Some [(''k'', \<lparr>vk_Key = ''AA''\<rparr>)], sku_OldVerifyKeys = Some []\<rparr>"
  by code_simp (simp_all add: demo_foreign_key_def, code_simp)

lemma demo_world_db: "db_healthy (w_db demo_world)" "db_ok (w_db demo_world)"
  by (simp_all add: demo_world_def empty_db_healthy empty_db_ok)

lemma demo_probe_fails:
  "\<exists>e w'. probeOrigin demo_env ''s'' None now demo_world = (Fail e, w') \<and> \<not> isTransientOriginFailure e"
proof -
  let ?w = "demo_world\<lparr>w_tick := Suc (w_tick demo_world)\<rparr>"
  obtain w1 where g: "GetServerApiUrl demo_env ''s'' ?w = (Ret (''https://s:8448'', ''s''), w1)"
    by (simp add: GetServerApiUrl_eq discover_def demo_split demo_env_def probeWellKnown_def classifyWellKnown_def demo_404_def act_bind_def
      without_delegation_def lookupSrv_def https_url_def Let_def demo_world_def list_cache_get_def last_set_def)
  have "hr_StatusCode demo_404 = 404" by (simp add: demo_404_def)
  moreover obtain w2 where "FederatedGet demo_env (''https://s:8448'' @ ''/_matrix/key/v2/server'') ''s'' w1 = (Ret demo_404, w2)"
    using FederatedGet_call [of demo_env "''https://s:8448'' @ ''/_matrix/key/v2/server''" "''s''" w1]
    by (cases "FederatedGet demo_env (''https://s:8448'' @ ''/_matrix/key/v2/server'') ''s'' w1") (auto simp: demo_env_def)
  ultimately have "fetchDirectFromOrigin demo_env ''s'' ?w = (Fail (OriginStatus ''s'' 404), w2)"
    using g by (simp add: fetchDirectFromOrigin_def act_bind_app(1))
  then show ?thesis by (simp add: probe_eq)
qed

lemma demo_foreign_fetch:
  obtains w1 w2 where
    "GetServerApiUrl (demo_origin_env (json_text (json_of_server_key demo_foreign_key))) ''s'' demo_world = (Ret (''https://s:8448'', ''s''), w1)"
    "FederatedGet (demo_origin_env (json_text (json_of_server_key demo_foreign_key))) (''https://s:8448'' @ ''/_matrix/key/v2/server'') ''s'' w1 =
      (Ret \<lparr>hr_StatusCode = 200, hr_CacheControl = [], hr_bytes = json_text (json_of_server_key demo_foreign_key), hr_broken = False\<rparr>, w2)"
  using demo_origin_url demo_origin_get by meson

lemma foreign_answer_stored:
  assumes "GetServerApiUrl E n w = (Ret (url, host), w1)"
    and "FederatedGet E (url @ ''/_matrix/key/v2/server'') host w1 = (Ret r, w2)"
    and "hr_StatusCode r = 200" and "ReadResponseBody r = Ret (json_text (json_of_server_key k))"
    and "server_key_ok k" and "Validate k = Ret ()" and "skr_Unsigned k = Some u"
    and "decode_keys (nil_entries (sku_VerifyKeys u)) [] = Ret ks"
    and "skr_Signatures k = Some [(sku_ServerName u, Some [])]"
    and "db_healthy (w_db w)" and "db_ok (w_db w)" and "key_info_fits u (skr_Signatures k) []"
  shows "\<exists>c w'. fetchDirectFromOrigin E n w = (Ret c, w') \<and> reservoir (w_db w') (sku_ServerName u) = Some (offer u (skr_Signatures k) [])"
proof -
  have f: "fetchDirectFromOrigin E n w = storeRemoteKeys E k [] [] w2"
    by (rule fetch_eq [OF assms(1-4) unsigned_document_accepted [OF assms(5-9)] assms(7)])
  have "w_db w2 = w_db w"
    using GetServerApiUrl_db(1) [of E n w] FederatedGet_db(1) [of E "url @ ''/_matrix/key/v2/server''" host w1] assms(1,2) by simp
  moreover obtain c d' where s: "store_at (go_div (env_now E (w_tick w2)) 1000000) u (skr_Signatures k) [] [] (w_db w) = (Ret c, d')"
    "reservoir d' = reservoir_store u (skr_Signatures k) [] (reservoir (w_db w))"
    using store_at_refines [OF assms(10-12)] by blast
  ultimately have "fetchDirectFromOrigin E n w = (Ret c, w2\<lparr>w_tick := Suc (w_tick w2), w_db := d'\<rparr>)"
    unfolding f storeRemoteKeys_eq [OF assms(7)] by (simp add: Let_def)
  moreover have "reservoir d' (sku_ServerName u) = Some (offer u (skr_Signatures k) [])"
    unfolding s(2) by (simp add: reservoir_store_def split: option.split)
  ultimately show ?thesis by auto
qed

lemma write_at_answer: "write_at now u sigs addl notary d = (Ret c, d') \<Longrightarrow> c = stored_result now u sigs addl notary"
  unfolding write_at_eq Let_def by (auto simp: act_bind_eq_Ret_iff)

lemma store_direct_eq:
  "store_at now u sigs addl [] = act_bind (act_try (GetRemoteServerMetadata (sku_ServerName u))) (\<lambda>_. write_at now u sigs addl [])"
proof -
  have "(case ex of Ret (Some r) \<Rightarrow> if [] \<noteq> ([] :: string) \<and> sku_ValidUntilTs u \<le> rs_ValidUntilTs r
      then packageCachedKeysFor r else write_at now u sigs addl [] | _ \<Rightarrow> write_at now u sigs addl []) = write_at now u sigs addl []" for ex
    by (auto split: go.split option.split)
  then show ?thesis by (simp add: store_at_def)
qed

lemma store_direct_answer: "store_at now u sigs addl [] d = (Ret c, d') \<Longrightarrow> c = stored_result now u sigs addl []"
  unfolding store_direct_eq by (auto simp: act_bind_eq_Ret_iff dest: write_at_answer)

lemma foreign_answer_named:
  assumes "GetServerApiUrl E n w = (Ret (url, host), w1)"
    and "FederatedGet E (url @ ''/_matrix/key/v2/server'') host w1 = (Ret r, w2)"
    and "hr_StatusCode r = 200" and "ReadResponseBody r = Ret (json_text (json_of_server_key k))"
    and "server_key_ok k" and "Validate k = Ret ()" and "skr_Unsigned k = Some u"
    and "decode_keys (nil_entries (sku_VerifyKeys u)) [] = Ret ks"
    and "skr_Signatures k = Some [(sku_ServerName u, Some [])]"
    and "db_healthy (w_db w)" and "db_ok (w_db w)" and "key_info_fits u (skr_Signatures k) []"
  shows "\<exists>c w'. fetchDirectFromOrigin E n w = (Ret c, w') \<and> rs_ServerName (ck_RemoteServer c) = sku_ServerName u"
proof -
  obtain c w' where f: "fetchDirectFromOrigin E n w = (Ret c, w')" using foreign_answer_stored [OF assms] by blast
  have "fetchDirectFromOrigin E n w = storeRemoteKeys E k [] [] w2"
    by (rule fetch_eq [OF assms(1-4) unsigned_document_accepted [OF assms(5-9)] assms(7)])
  then have "fst (store_at (go_div (env_now E (w_tick w2)) 1000000) u (skr_Signatures k) [] [] (w_db w2)) = Ret c"
    using f storeRemoteKeys_eq [OF assms(7), of E "[]" "[]" w2] by (simp add: Let_def)
  then show ?thesis using f store_direct_answer by (metis ck_stored_result(3) prod.collapse)
qed

text \<open>A store that returns has left the rows of the object and no others, whatever the database does.\<close>

lemma clear_probe_frame:
  "remote_keys (snd (clear_probe n notary d)) = remote_keys d"
  "remote_signatures (snd (clear_probe n notary d)) = remote_signatures d"
  "map_of (remote_servers d) n = Some r \<Longrightarrow> \<exists>r'. map_of (remote_servers (snd (clear_probe n notary d))) n = Some r' \<and>
     sr_valid_until_ts r' = sr_valid_until_ts r \<and> sr_nonstandard_json r' = sr_nonstandard_json r \<and>
     sr_obtained_via_notary r' = sr_obtained_via_notary r"
proof -
  let ?e = "snd (clear_probe n notary d)"
  have "?e = d \<or> ?e = snd (exec_stmt [n] (resetOriginProbe n) d)"
    using act_try_snd [of "exec_stmt [n] (resetOriginProbe n)" d]
    by (cases "act_try (exec_stmt [n] (resetOriginProbe n)) d"; cases "fst (act_try (exec_stmt [n] (resetOriginProbe n)) d)")
      (auto simp: clear_probe_def ResetOriginProbe_def act_bind_def)
  then have e: "?e = d \<or> ?e = tick d \<or> Some ?e = resetOriginProbe n (tick d)"
    using exec_stmt_effect [of "[n]" "resetOriginProbe n" d] by auto
  then show "remote_keys ?e = remote_keys d" "remote_signatures ?e = remote_signatures d"
    by (auto simp: resetOriginProbe_def update_server_frame)
  show "\<exists>r'. map_of (remote_servers ?e) n = Some r' \<and> sr_valid_until_ts r' = sr_valid_until_ts r \<and>
     sr_nonstandard_json r' = sr_nonstandard_json r \<and> sr_obtained_via_notary r' = sr_obtained_via_notary r"
    if "map_of (remote_servers d) n = Some r"
    using e that by (auto simp: resetOriginProbe_def map_of_update_server)
qed

lemma write_at_stores:
  assumes "write_at now u sigs addl notary d = (Ret c, d')"
  shows "selectRemoteKeys (sku_ServerName u) d' = map row_of_key (stored_keys u) \<and>
    selectRemoteSignatures (sku_ServerName u) d' = map row_of_sig (stored_sigs (sku_ServerName u) sigs) \<and>
    (\<exists>r. map_of (remote_servers d') (sku_ServerName u) = Some r \<and> sr_valid_until_ts r = sku_ValidUntilTs u \<and>
      sr_nonstandard_json r = json_marshal (JObj addl) \<and> sr_obtained_via_notary r = (if notary = [] then None else Some notary))"
proof -
  let ?n = "sku_ServerName u" and ?ks = "map row_of_key (stored_keys u)" and ?ss = "map row_of_sig (stored_sigs (sku_ServerName u) sigs)"
  obtain d1 d2 d3 d4 d5 where s:
    "UpsertRemoteServer ?n now (sku_ValidUntilTs u) addl notary d = (Ret (), d1)"
    "DeleteRemoteServerKeys ?n d1 = (Ret (), d2)" "DeleteRemoteServerSignatures ?n d2 = (Ret (), d3)"
    "clear_probe ?n notary d3 = (Ret (), d4)" "act_iter add_key_row ?ks d4 = (Ret (), d5)" "act_iter add_sig_row ?ss d5 = (Ret (), d')"
    using assms unfolding write_at_eq Let_def by (auto simp: act_bind_eq_Ret_iff)
  have own: "filter (\<lambda>r. kr_server_name r = ?n) ?ks = ?ks" "filter (\<lambda>r. gr_server_name r = ?n) ?ss = ?ss"
    by (simp_all add: filter_id_conv stored_keys_owner stored_sigs_owner)
  have d3: "remote_keys d3 = filter (\<lambda>r. kr_server_name r \<noteq> ?n) (remote_keys d1)"
    "remote_signatures d3 = filter (\<lambda>r. gr_server_name r \<noteq> ?n) (remote_signatures d1)" "remote_servers d3 = remote_servers d1"
    using s(2,3) by (auto simp: DeleteRemoteServerKeys_def DeleteRemoteServerSignatures_def exec_stmt_Ret deleteRemoteKeys_def deleteRemoteSignatures_def)
  note c4 = clear_probe_frame [where n = ?n and notary = notary and d = d3, unfolded s(4) snd_conv]
  have f5: "remote_servers d5 = remote_servers d4" "remote_signatures d5 = remote_signatures d4"
    using key_rows.inserts_frame [of ?ks d4] s(5) by simp_all
  have f6: "remote_servers d' = remote_servers d5" "remote_keys d' = remote_keys d5"
    using sig_rows.inserts_frame [of ?ss d5] s(6) by simp_all
  have "selectRemoteKeys ?n d5 = ?ks"
    using key_rows.inserts_Ret [OF s(5), of ?n] own(1) c4(1) d3(1) by (simp add: selectRemoteKeys_def)
  moreover have "selectRemoteSignatures ?n d' = ?ss"
    using sig_rows.inserts_Ret [OF s(6), of ?n] own(2) c4(2) d3(2) f5(2) by (simp add: selectRemoteSignatures_def)
  moreover obtain r where "map_of (remote_servers d1) ?n = Some r" "sr_valid_until_ts r = sku_ValidUntilTs u"
    "sr_nonstandard_json r = json_marshal (JObj addl)" "sr_obtained_via_notary r = (if notary = [] then None else Some notary)"
    using s(1) by (auto simp: UpsertRemoteServer_def exec_stmt_Ret upsertRemoteServer_def Let_def split: if_splits option.splits)
  ultimately show ?thesis using c4(3) d3(3) f5(1) f6 by (auto simp: selectRemoteKeys_def)
qed

lemma store_direct_stores:
  assumes "store_at now u sigs addl [] d = (Ret c, d')"
  shows "selectRemoteKeys (sku_ServerName u) d' = map row_of_key (stored_keys u) \<and>
    selectRemoteSignatures (sku_ServerName u) d' = map row_of_sig (stored_sigs (sku_ServerName u) sigs) \<and>
    (\<exists>r. map_of (remote_servers d') (sku_ServerName u) = Some r \<and> sr_valid_until_ts r = sku_ValidUntilTs u \<and>
      sr_nonstandard_json r = json_marshal (JObj addl) \<and> sr_obtained_via_notary r = None)"
proof -
  obtain e where "write_at now u sigs addl [] e = (Ret c, d')"
    using assms unfolding store_direct_eq by (auto simp: act_bind_eq_Ret_iff)
  from write_at_stores [OF this] show ?thesis by simp
qed

lemma key_rows_of_object:
  "map row_of_key (stored_keys u) =
     map (\<lambda>(i, v). \<lparr>kr_server_name = sku_ServerName u, kr_key_id = i, kr_public_key_b64 = vk_Key v, kr_expires_ts = 0\<rparr>)
       (nil_entries (sku_VerifyKeys u)) @
     map (\<lambda>(i, v). \<lparr>kr_server_name = sku_ServerName u, kr_key_id = i, kr_public_key_b64 = ov_Key v, kr_expires_ts = ov_ExpiredTs v\<rparr>)
       (nil_entries (sku_OldVerifyKeys u))"
  by (auto simp: stored_keys_def verify_key_of_def old_key_of_def row_of_key_def)

lemma sig_rows_of_object:
  "map row_of_sig (stored_sigs n sigs) = concat (map (\<lambda>(_, ks).
     map (\<lambda>(i, s). \<lparr>gr_server_name = n, gr_key_id = i, gr_signature_b64 = s\<rparr>) (nil_entries ks)) (nil_entries sigs))"
proof -
  have "(\<lambda>x. row_of_sig (signature_of n x)) = (\<lambda>(i, s). \<lparr>gr_server_name = n, gr_key_id = i, gr_signature_b64 = s\<rparr>)"
    by (auto simp: fun_eq_iff signature_of_def row_of_sig_def)
  then show ?thesis by (simp add: stored_sigs_def map_concat comp_def split_def)
qed

subsection \<open>Properties\<close>

text \<open>
  C4: what a direct fetch accepts, and what it leaves in the database. If it returns keys, the
  origin's resolved address answered the request with status 200 and a body that decodes to a key
  object whose every signature was made by the server the object names, under one of the current
  keys the object itself lists, over the canonical form of the object's own members and of every
  further member of the body but \<open>signatures\<close> and \<open>unsigned\<close>. Afterwards the tables hold of that
  server exactly the current keys, the old keys and the signatures of that object, with its
  validity and its further members, as its own copy; they are what is returned; nothing of
  another server has changed; and while the database answers, the standoff is cleared.
\<close>

theorem fetch_accepts_self_signed:
  assumes "fetchDirectFromOrigin E n w = (Ret c, w')"
  shows "\<exists>url host w1 r w2 body fully k u addl row.
    GetServerApiUrl E n w = (Ret (url, host), w1) \<and>
    FederatedGet E (url @ ''/_matrix/key/v2/server'') host w1 = (Ret r, w2) \<and>
    hr_StatusCode r = 200 \<and> ReadResponseBody r = Ret body \<and>
    unmarshal_server_key body = Ret k \<and> skr_Unsigned k = Some u \<and> unmarshal_map body = Ret fully \<and>
    addl = filter (\<lambda>(x, _). map_of (server_key_members k) x = None) fully \<and>
    nil_entries (skr_Signatures k) \<noteq> [] \<and>
    (\<forall>(d, ks) \<in> set (nil_entries (skr_Signatures k)). d = sku_ServerName u \<and>
      (\<exists>es. ks = Some es \<and> (\<forall>(i, s) \<in> set es. \<exists>v pub raw. (i, v) \<in> set (nil_entries (sku_VerifyKeys u)) \<and>
        DecodeUnpaddedBase64String (vk_Key v) = Ret pub \<and> length pub = 32 \<and> DecodeUnpaddedBase64String s = Ret raw \<and>
        cr_verify (env_crypto E) pub (EncodeCanonicalJson (signed_part (server_key_members k @ addl))) raw))) \<and>
    selectRemoteKeys (sku_ServerName u) (w_db w') =
      map (\<lambda>(i, v). \<lparr>kr_server_name = sku_ServerName u, kr_key_id = i, kr_public_key_b64 = vk_Key v, kr_expires_ts = 0\<rparr>)
        (nil_entries (sku_VerifyKeys u)) @
      map (\<lambda>(i, v). \<lparr>kr_server_name = sku_ServerName u, kr_key_id = i, kr_public_key_b64 = ov_Key v, kr_expires_ts = ov_ExpiredTs v\<rparr>)
        (nil_entries (sku_OldVerifyKeys u)) \<and>
    selectRemoteSignatures (sku_ServerName u) (w_db w') =
      concat (map (\<lambda>(_, ks). map (\<lambda>(i, s). \<lparr>gr_server_name = sku_ServerName u, gr_key_id = i, gr_signature_b64 = s\<rparr>) (nil_entries ks))
        (nil_entries (skr_Signatures k))) \<and>
    map_of (remote_servers (w_db w')) (sku_ServerName u) = Some row \<and> sr_valid_until_ts row = sku_ValidUntilTs u \<and>
    sr_nonstandard_json row = json_marshal (JObj addl) \<and> sr_obtained_via_notary row = None \<and>
    others_same (sku_ServerName u) (w_db w) (w_db w') \<and>
    rs_ServerName (ck_RemoteServer c) = sku_ServerName u \<and> ck_ValidUntilTs c = sku_ValidUntilTs u \<and>
    ck_Keys c = map key_of_row (selectRemoteKeys (sku_ServerName u) (w_db w')) \<and>
    ck_Signatures c = map sig_of_row (selectRemoteSignatures (sku_ServerName u) (w_db w')) \<and>
    (db_healthy (w_db w) \<longrightarrow> sr_origin_failures row = 0 \<and> sr_next_origin_attempt_ts row = 0)"
proof -
  obtain url host r w1 w2 body k addl u where g: "GetServerApiUrl E n w = (Ret (url, host), w1)"
    "FederatedGet E (url @ ''/_matrix/key/v2/server'') host w1 = (Ret r, w2)" "hr_StatusCode r = 200"
    "ReadResponseBody r = Ret body" "checked_body (env_crypto E) body k addl" "skr_Unsigned k = Some u"
    "store_at (go_div (env_now E (w_tick w2)) 1000000) u (skr_Signatures k) addl [] (w_db w) = (Ret c, w_db w')"
    using assms by (rule fetch_Ret)
  obtain fully where b: "unmarshal_server_key body = Ret k" "unmarshal_map body = Ret fully"
    "addl = filter (\<lambda>(x, _). map_of (server_key_members k) x = None) fully"
    using g(5) by (auto simp: checked_body_def extra_fields_def)
  note st = store_direct_stores [OF g(7)] and sigs = checked_signatures [OF g(5,6)]
  obtain row where row: "map_of (remote_servers (w_db w')) (sku_ServerName u) = Some row" "sr_valid_until_ts row = sku_ValidUntilTs u"
    "sr_nonstandard_json row = json_marshal (JObj addl)" "sr_obtained_via_notary row = None" using st by blast
  have "db_healthy (w_db w) \<longrightarrow> sr_origin_failures row = 0 \<and> sr_next_origin_attempt_ts row = 0"
    using store_direct_row [OF g(7)] row(1) by auto
  moreover have "others_same (sku_ServerName u) (w_db w) (w_db w')"
    using store_at_others_same [of u "w_db w" _ "skr_Signatures k" addl "[]"] g(7) by (metis snd_conv)
  moreover have "c = stored_result (go_div (env_now E (w_tick w2)) 1000000) u (skr_Signatures k) addl []"
    by (rule store_direct_answer [OF g(7)])
  then have "rs_ServerName (ck_RemoteServer c) = sku_ServerName u" "ck_ValidUntilTs c = sku_ValidUntilTs u"
    "ck_Keys c = map key_of_row (selectRemoteKeys (sku_ServerName u) (w_db w'))"
    "ck_Signatures c = map sig_of_row (selectRemoteSignatures (sku_ServerName u) (w_db w'))"
    using st by (simp_all del: map_map add: map_rows_id)
  moreover note sigs [THEN conjunct1] sigs [THEN conjunct2] st [THEN conjunct1, unfolded key_rows_of_object]
    st [THEN conjunct2, THEN conjunct1, unfolded sig_rows_of_object]
  ultimately show ?thesis using g(1-4,6) b row by - (intro exI conjI; assumption)
qed

text \<open>
  Met by an origin that answers with one current key: the answer is read, and its key is the one
  row that the table then has of the server.
\<close>

theorem fetch_accepts_self_signed_witness:
  "\<exists>c w'. fetchDirectFromOrigin (demo_origin_env (json_text (json_of_server_key demo_foreign_key))) ''s'' demo_world = (Ret c, w') \<and>
     selectRemoteKeys ''victim'' (w_db w') =
       [\<lparr>kr_server_name = ''victim'', kr_key_id = ''k'', kr_public_key_b64 = ''AA'', kr_expires_ts = 0\<rparr>]"
proof -
  let ?E = "demo_origin_env (json_text (json_of_server_key demo_foreign_key))"
  obtain w1 w2 where g: "GetServerApiUrl ?E ''s'' demo_world = (Ret (''https://s:8448'', ''s''), w1)"
    "FederatedGet ?E (''https://s:8448'' @ ''/_matrix/key/v2/server'') ''s'' w1 =
      (Ret \<lparr>hr_StatusCode = 200, hr_CacheControl = [], hr_bytes = json_text (json_of_server_key demo_foreign_key), hr_broken = False\<rparr>, w2)"
    by (rule demo_foreign_fetch)
  obtain c w' where f: "fetchDirectFromOrigin ?E ''s'' demo_world = (Ret c, w')"
    using foreign_answer_stored [OF g _ demo_foreign_read demo_foreign_ok demo_foreign_valid(1-4) demo_world_db demo_foreign_fits [unfolded demo_foreign_valid(5)]]
    by auto
  have "unmarshal_server_key (json_text (json_of_server_key demo_foreign_key)) = Ret demo_foreign_key"
    using server_key.dec_enc [of demo_foreign_key] demo_foreign_ok demo_foreign_valid(2)
    by (auto simp: server_key_text_def split: go.splits)
  moreover obtain url host v1 r v2 body k u where a: "GetServerApiUrl ?E ''s'' demo_world = (Ret (url, host), v1)"
    "FederatedGet ?E (url @ ''/_matrix/key/v2/server'') host v1 = (Ret r, v2)" "ReadResponseBody r = Ret body"
    "unmarshal_server_key body = Ret k" "skr_Unsigned k = Some u"
    "selectRemoteKeys (sku_ServerName u) (w_db w') =
      map (\<lambda>(i, v). \<lparr>kr_server_name = sku_ServerName u, kr_key_id = i, kr_public_key_b64 = vk_Key v, kr_expires_ts = 0\<rparr>)
        (nil_entries (sku_VerifyKeys u)) @
      map (\<lambda>(i, v). \<lparr>kr_server_name = sku_ServerName u, kr_key_id = i, kr_public_key_b64 = ov_Key v, kr_expires_ts = ov_ExpiredTs v\<rparr>)
        (nil_entries (sku_OldVerifyKeys u))"
    using fetch_accepts_self_signed [OF f] by blast
  ultimately have "k = demo_foreign_key" using g demo_foreign_read by simp
  then have "u = \<lparr>sku_ServerName = ''victim'', sku_ValidUntilTs = 900,
     sku_VerifyKeys = Some [(''k'', \<lparr>vk_Key = ''AA''\<rparr>)], sku_OldVerifyKeys = Some []\<rparr>" using a(5) demo_foreign_valid(2) by simp
  then show ?thesis using f a(6) by simp
qed

text \<open>
  C21: what a direct fetch does not check. The name in the answer need not be the name that was
  asked for, and a signature need not be there: an answer of server \<open>n\<close> that names any other
  server, with keys that decode and an empty map of signatures under that name, replaces what is
  held of the other server, as if that server itself had answered.
\<close>

theorem fetch_takes_foreign_unsigned_answer:
  assumes "GetServerApiUrl E n w = (Ret (url, host), w1)"
    and "FederatedGet E (url @ ''/_matrix/key/v2/server'') host w1 = (Ret r, w2)"
    and "hr_StatusCode r = 200" and "ReadResponseBody r = Ret (json_text (json_of_server_key k))"
    and "server_key_ok k" and "Validate k = Ret ()" and "skr_Unsigned k = Some u"
    and "decode_keys (nil_entries (sku_VerifyKeys u)) [] = Ret ks"
    and "skr_Signatures k = Some [(sku_ServerName u, Some [])]"
    and "db_healthy (w_db w)" and "db_ok (w_db w)" and "key_info_fits u (skr_Signatures k) []"
  shows "\<exists>c w'. fetchDirectFromOrigin E n w = (Ret c, w') \<and>
    reservoir (w_db w') (sku_ServerName u) = Some \<lparr>h_valid = sku_ValidUntilTs u, h_via = [], h_keys = stored_keys u, h_sigs = []\<rparr>"
  using foreign_answer_stored [OF assms] assms(9) by (simp add: offer_def stored_sigs_def)

theorem fetch_takes_foreign_unsigned_answer_witness:
  "\<exists>c w'. fetchDirectFromOrigin (demo_origin_env (json_text (json_of_server_key demo_foreign_key))) ''s'' demo_world = (Ret c, w') \<and>
     map_option h_valid (reservoir (w_db w') ''victim'') = Some 900"
proof -
  let ?E = "demo_origin_env (json_text (json_of_server_key demo_foreign_key))"
  obtain w1 w2 where g: "GetServerApiUrl ?E ''s'' demo_world = (Ret (''https://s:8448'', ''s''), w1)"
    "FederatedGet ?E (''https://s:8448'' @ ''/_matrix/key/v2/server'') ''s'' w1 =
      (Ret \<lparr>hr_StatusCode = 200, hr_CacheControl = [], hr_bytes = json_text (json_of_server_key demo_foreign_key), hr_broken = False\<rparr>, w2)"
    by (rule demo_foreign_fetch)
  show ?thesis
    using fetch_takes_foreign_unsigned_answer [OF g _ demo_foreign_read demo_foreign_ok demo_foreign_valid(1-4) demo_world_db demo_foreign_fits [unfolded demo_foreign_valid(5)]]
    by auto
qed

text \<open>
  The schedule after a probe. While the database answers, a failed probe leaves a row for
  the server that counts one more failure and puts the next probe as far away as the backoff
  says, between a minute and a day; a successful one leaves a row of the server that answered
  with no failures, no standoff, no notary, and the validity of the answer.
\<close>

theorem probe_sets_schedule:
  assumes "probeOrigin E n s now w = (res, w')" and "db_healthy (w_db w)" and "varchar_ok n"
    and "0 \<le> now" and "now < 2 ^ 62"
    and "case s of None \<Rightarrow> failures = 1 | Some s \<Rightarrow> failures = rs_OriginFailures s + 1" and "0 < failures" and "failures < 2 ^ 31"
  shows "(\<forall>e. res = Fail e \<longrightarrow> (\<exists>r. map_of (remote_servers (w_db w')) n = Some r \<and> sr_origin_failures r = failures \<and>
       sr_updated_ts r = now \<and>
       sr_next_origin_attempt_ts r = now + Milliseconds (originBackoff failures (isTransientOriginFailure e)) \<and>
       now + 60000 \<le> sr_next_origin_attempt_ts r \<and> sr_next_origin_attempt_ts r \<le> now + 86400000)) \<and>
    (\<forall>c. res = Ret c \<longrightarrow> (\<exists>r. map_of (remote_servers (w_db w')) (rs_ServerName (ck_RemoteServer c)) = Some r \<and>
       sr_origin_failures r = 0 \<and> sr_next_origin_attempt_ts r = 0 \<and> sr_obtained_via_notary r = None \<and>
       sr_valid_until_ts r = ck_ValidUntilTs c))"
proof -
  have f: "failures_after s = failures" "int4_ok failures"
    using assms(6-8) by (auto simp: failures_after_def int4_ok_def int64_range_def split: option.splits)
  have "wrap64 (now + Milliseconds b) = now + Milliseconds b" if "Milliseconds b \<le> 86400000" "60000 \<le> Milliseconds b" for b
    using assms(4,5) that by (simp add: int64_range_def)
  then show ?thesis
    using probe_Fail [of E n s now w _ w', OF _ assms(2,3)] probe_Ret [of E n s now w _ w', OF _ assms(2)] assms(1) f originBackoff_ms
    by auto
qed

theorem probe_sets_schedule_witness:
  "\<exists>e w'. probeOrigin demo_env ''s'' None 1000 demo_world = (Fail e, w') \<and>
     map_option sr_next_origin_attempt_ts (map_of (remote_servers (w_db w')) ''s'') = Some 301000"
proof -
  obtain e w' where p: "probeOrigin demo_env ''s'' None 1000 demo_world = (Fail e, w')" "\<not> isTransientOriginFailure e"
    using demo_probe_fails by blast
  have "varchar_ok ''s''" by code_simp
  from probe_sets_schedule [OF p(1) demo_world_db(1) this, of 1] p show ?thesis
    by (auto simp: originBackoff_unfold Milliseconds_def go_div_nonneg)
qed
end
