(* ===== verification/Query.thy ===== *)
theory Query
  imports Fetch
begin

text \<open>
  Resolving the keys of a server: \<open>queryRemoteKeys\<close> of \<open>keys/notary.go\<close>, with the notary walk
  that \<open>keys/notaryFallback.go\<close> supplies as an argument. The walk of the real program is in
  theory \<open>NotaryFallback\<close>, which calls back into \<open>queryRemoteKeys\<close> without a walk.
\<close>

type_synonym notary_walk = "ServerName \<Rightarrow> Timestamp \<Rightarrow> CachedRemoteKeys option io"

definition take_walk :: "ServerName \<Rightarrow> int \<Rightarrow> bool io" where
  "take_walk serverName now w =
     (case walk_take (w_walks w) serverName now of (granted, ws) \<Rightarrow> (Ret granted, w\<lparr>w_walks := ws\<rparr>))"

definition empty_answer :: "ServerName \<Rightarrow> int \<Rightarrow> CachedRemoteKeys" where
  "empty_answer serverName now =
     \<lparr>ck_RemoteServer = \<lparr>rs_ServerName = serverName, rs_UpdatedTs = now, rs_ValidUntilTs = now, rs_NonStandardJSON = [],
        rs_ObtainedViaNotary = [], rs_OriginFailures = 0, rs_NextOriginAttemptTs = 0\<rparr>,
      ck_Signatures = [], ck_Keys = []\<rparr>"

text \<open>What is served when neither the origin nor a notary settled the request.\<close>

definition serve_held :: "ServerName \<Rightarrow> RemoteServer option \<Rightarrow> CachedRemoteKeys option \<Rightarrow> bool \<Rightarrow> int \<Rightarrow> CachedRemoteKeys option io" where
  "serve_held serverName s held probed now =
     (if \<not> probed
      then act_bind (RecordKeyQuery (if isArchived s now then OutcomeArchiveServed else OutcomeCacheCooldown)) (\<lambda>_. act_ret held)
      else if held \<noteq> None \<and> length (ck_Keys (the held)) > 0
      then act_bind (RecordKeyQuery OutcomeAllFailedStale) (\<lambda>_. act_ret held)
      else act_bind (RecordKeyQuery OutcomeAllFailedEmpty) (\<lambda>_. act_ret (Some (empty_answer serverName now))))"

text \<open>The notary walk and what follows it.\<close>

definition ask_notaries ::
  "notary_walk \<Rightarrow> ServerName \<Rightarrow> Timestamp \<Rightarrow> bool \<Rightarrow> RemoteServer option \<Rightarrow> CachedRemoteKeys option \<Rightarrow> bool \<Rightarrow> int
   \<Rightarrow> CachedRemoteKeys option io" where
  "ask_notaries walk serverName minValidUntilTs allowNotaryFallback s held probed now =
     act_bind (if allowNotaryFallback \<and> \<not> heldSatisfies held minValidUntilTs then take_walk serverName now else act_ret False)
       (\<lambda>granted.
         if \<not> granted then serve_held serverName s held probed now
         else act_bind (act_try (walk serverName minValidUntilTs)) (\<lambda>result.
           (case result of
              Ret (Some cached) \<Rightarrow>
                if heldSatisfies (Some cached) minValidUntilTs
                then act_bind (RecordKeyQuery OutcomeNotarySuccess) (\<lambda>_. act_ret (Some cached))
                else serve_held serverName s (Some cached) probed now
            | _ \<Rightarrow> serve_held serverName s held probed now)))"

definition queryRemoteKeys :: "env \<Rightarrow> notary_walk \<Rightarrow> ServerName \<Rightarrow> Timestamp \<Rightarrow> bool \<Rightarrow> CachedRemoteKeys option io" where
  "queryRemoteKeys E walk serverName minValidUntilTs allowNotaryFallback =
     act_bind (lift_db (loadHeld serverName)) (\<lambda>(s, held).
     act_bind (NowMillis E) (\<lambda>now.
       if held \<noteq> None \<and> isFresh (rs_UpdatedTs (the s)) (rs_ValidUntilTs (the s)) minValidUntilTs now
       then act_bind (RecordKeyQuery OutcomeCacheFresh) (\<lambda>_. act_ret held)
       else
         let probed = shouldProbeOrigin s now in
         act_bind (if probed then act_try (probeOrigin E serverName s now) else act_ret (Fail (Err ''not probed''))) (\<lambda>result.
           (case result of
              Ret answer \<Rightarrow> act_bind (RecordKeyQuery OutcomeOriginSuccess) (\<lambda>_. act_ret (Some answer))
            | _ \<Rightarrow> ask_notaries walk serverName minValidUntilTs allowNotaryFallback s held probed now))))"

subsection \<open>The steps as equations\<close>

definition served :: "ServerName \<Rightarrow> CachedRemoteKeys option \<Rightarrow> bool \<Rightarrow> int \<Rightarrow> CachedRemoteKeys option" where
  "served n held probed now =
     (if probed \<and> (held = None \<or> ck_Keys (the held) = []) then Some (empty_answer n now) else held)"

lemma serve_held_eq:
  "\<exists>oc. serve_held n s held probed now w = (Ret (served n held probed now), w\<lparr>w_outcomes := w_outcomes w @ [oc]\<rparr>) \<and>
     oc \<in> {OutcomeArchiveServed, OutcomeCacheCooldown, OutcomeAllFailedStale, OutcomeAllFailedEmpty}"
  by (auto simp: serve_held_def served_def act_bind_def RecordKeyQuery_def)

text \<open>The outcome that is counted for an answer from what is held.\<close>

definition held_outcome :: "RemoteServer option \<Rightarrow> CachedRemoteKeys option \<Rightarrow> bool \<Rightarrow> int \<Rightarrow> key_outcome" where
  "held_outcome s held probed now =
     (if \<not> probed then if isArchived s now then OutcomeArchiveServed else OutcomeCacheCooldown
      else if held = None \<or> ck_Keys (the held) = [] then OutcomeAllFailedEmpty else OutcomeAllFailedStale)"

lemma serve_held_outcome:
  "serve_held n s held probed now w = (Ret (served n held probed now), w\<lparr>w_outcomes := w_outcomes w @ [held_outcome s held probed now]\<rparr>)"
  by (auto simp: serve_held_def served_def held_outcome_def act_bind_def RecordKeyQuery_def)

lemma take_walk_eq: "take_walk n now w = (Ret (fst (walk_take (w_walks w) n now)), w\<lparr>w_walks := snd (walk_take (w_walks w) n now)\<rparr>)"
  by (simp add: take_walk_def split: prod.split)

lemma ask_notaries_no_walk:
  "\<not> (allow \<and> \<not> heldSatisfies held m) \<Longrightarrow> ask_notaries walk n m allow s held probed now = serve_held n s held probed now"
  by (rule ext) (auto simp: ask_notaries_def act_bind_def)

lemma ask_notaries_eq:
  assumes "allow" "\<not> heldSatisfies held m"
  shows "ask_notaries walk n m allow s held probed now w =
    (let v = w\<lparr>w_walks := snd (walk_take (w_walks w) n now)\<rparr> in
     if \<not> fst (walk_take (w_walks w) n now) then serve_held n s held probed now v
     else case walk n m v of (r, v') \<Rightarrow>
       (case r of
          Ret (Some c) \<Rightarrow> if heldSatisfies (Some c) m
            then (Ret (Some c), v'\<lparr>w_outcomes := w_outcomes v' @ [OutcomeNotarySuccess]\<rparr>)
            else serve_held n s (Some c) probed now v'
        | Panic p \<Rightarrow> (Panic p, v')
        | _ \<Rightarrow> serve_held n s held probed now v'))"
  using assms
  by (auto simp: ask_notaries_def act_bind_def take_walk_eq act_try_def RecordKeyQuery_def Let_def split: prod.split go.split option.split)

lemma queryRemoteKeys_eq:
  assumes "loadHeld n (w_db w) = (Ret (s, held), d)"
  shows "queryRemoteKeys E walk n m allow w =
    (let v = w\<lparr>w_db := d, w_tick := Suc (w_tick w)\<rparr>; now = go_div (env_now E (w_tick w)) 1000000 in
     if held \<noteq> None \<and> isFresh (rs_UpdatedTs (the s)) (rs_ValidUntilTs (the s)) m now
     then (Ret held, v\<lparr>w_outcomes := w_outcomes w @ [OutcomeCacheFresh]\<rparr>)
     else if shouldProbeOrigin s now then
       (case probeOrigin E n s now v of (r, v') \<Rightarrow>
         (case r of
            Ret c \<Rightarrow> (Ret (Some c), v'\<lparr>w_outcomes := w_outcomes v' @ [OutcomeOriginSuccess]\<rparr>)
          | Panic p \<Rightarrow> (Panic p, v')
          | Fail e \<Rightarrow> ask_notaries walk n m allow s held True now v'))
     else ask_notaries walk n m allow s held False now v)"
  using assms
  by (auto simp: queryRemoteKeys_def act_bind_def lift_db_def NowMillis_def act_try_def RecordKeyQuery_def Let_def split: prod.split go.split)

lemma queryRemoteKeys_load_error:
  "loadHeld n (w_db w) = (Fail e, d) \<Longrightarrow> queryRemoteKeys E walk n m allow w = (Fail e, w\<lparr>w_db := d\<rparr>)"
  by (simp add: queryRemoteKeys_def act_bind_def lift_db_def)

lemma GetRemoteServerMetadata_name: "GetRemoteServerMetadata n d = (Ret (Some s), e) \<Longrightarrow> rs_ServerName s = n"
proof -
  assume "GetRemoteServerMetadata n d = (Ret (Some s), e)"
  moreover from this obtain row d' where "query_row [n] (selectRemoteServer n) d = (Ret row, d')"
    by (auto simp: GetRemoteServerMetadata_def act_bind_eq_Ret_iff)
  ultimately show ?thesis by (cases row) (auto simp: GetRemoteServerMetadata_def act_bind_def go_bind_eq_Ret_iff)
qed

lemma packageCachedKeysFor_server: "packageCachedKeysFor s d = (Ret c, e) \<Longrightarrow> ck_RemoteServer c = s"
  by (auto simp: packageCachedKeysFor_def act_bind_eq_Ret_iff)

lemma loadHeld_pair:
  assumes "loadHeld n d = (Ret (s, held), e)"
  shows "(s = None \<longleftrightarrow> held = None) \<and>
    (\<forall>h. held = Some h \<longrightarrow> s = Some (ck_RemoteServer h) \<and> rs_ServerName (ck_RemoteServer h) = n)"
proof -
  obtain s' d' where m: "GetRemoteServerMetadata n d = (Ret s', d')"
    and rest: "(case s' of None \<Rightarrow> act_ret (None, None)
        | Some s \<Rightarrow> act_bind (packageCachedKeysFor s) (\<lambda>held. act_ret (Some s, Some held))) d' = (Ret (s, held), e)"
    using assms unfolding loadHeld_def act_bind_eq_Ret_iff by blast
  show ?thesis
  proof (cases s')
    case (Some x)
    then show ?thesis using m rest GetRemoteServerMetadata_name packageCachedKeysFor_server
      by (auto simp: act_bind_eq_Ret_iff)
  qed (use rest in auto)
qed

lemma served_Some: "probed \<or> held \<noteq> None \<Longrightarrow> served n held probed now \<noteq> None"
  by (auto simp: served_def)

lemma serve_held_Ret: "serve_held n s held probed now w = (r, w') \<Longrightarrow> probed \<or> held \<noteq> None \<Longrightarrow> \<exists>c. r = Ret (Some c)"
  using serve_held_eq [of n s held probed now w] served_Some [of probed held n now] by auto

lemma ask_notaries_total:
  assumes "ask_notaries walk n m allow s held probed now w = (r, w')" "probed \<or> held \<noteq> None"
  shows "(\<exists>c. r = Ret (Some c)) \<or> (\<exists>p v v'. r = Panic p \<and> walk n m v = (Panic p, v'))"
proof (cases "allow \<and> \<not> heldSatisfies held m")
  case False
  then show ?thesis using assms serve_held_Ret by (auto simp: ask_notaries_no_walk)
next
  case True
  define v where "v = w\<lparr>w_walks := snd (walk_take (w_walks w) n now)\<rparr>"
  obtain q v' where q: "walk n m v = (q, v')" by force
  note eq = ask_notaries_eq [of allow held m walk n s probed now w, folded v_def, unfolded q Let_def]
  have serve: "serve_held n s held probed now u = (r, w') \<Longrightarrow> \<exists>c. r = Ret (Some c)"
    "serve_held n s (Some c) probed now u = (r, w') \<Longrightarrow> \<exists>c. r = Ret (Some c)" for u c
    using assms(2) serve_held_Ret by blast+
  show ?thesis
  proof (cases "fst (walk_take (w_walks w) n now)")
    case False
    then show ?thesis using assms(1) eq True serve(1) by simp
  next
    case granted: True
    show ?thesis
    proof (cases q)
      case (Ret x)
      then show ?thesis using assms(1) eq True granted serve by (cases x) (auto split: if_splits)
    next
      case (Fail e)
      then show ?thesis using assms(1) eq True granted serve(1) by simp
    next
      case (Panic p)
      then show ?thesis using assms(1) eq True granted q by auto
    qed
  qed
qed

lemma queryRemoteKeys_Fail:
  assumes "queryRemoteKeys E walk n m allow w = (Fail e, w')"
  shows "fst (loadHeld n (w_db w)) = Fail e \<and> w_calls w' = w_calls w"
proof (cases "loadHeld n (w_db w)")
  case (Pair r d)
  show ?thesis
  proof (cases r)
    case (Ret x)
    obtain s held where x: "x = (s, held)" by force
    have p: "s = None \<longleftrightarrow> held = None" using loadHeld_pair Pair Ret x by blast
    have np: "shouldProbeOrigin None now" for now by (simp add: shouldProbeOrigin_def)
    show ?thesis
      using assms queryRemoteKeys_eq [of n w s held d E walk m allow] Pair Ret x p np ask_notaries_total
      by (fastforce simp: Let_def split: if_splits go.splits prod.splits)
  qed (use assms Pair queryRemoteKeys_load_error in auto)
qed

lemma queryRemoteKeys_Some:
  assumes "queryRemoteKeys E walk n m allow w = (Ret res, w')"
  shows "res \<noteq> None"
proof (cases "loadHeld n (w_db w)")
  case (Pair r d)
  show ?thesis
  proof (cases r)
    case (Ret x)
    obtain s held where x: "x = (s, held)" by force
    have p: "s = None \<longleftrightarrow> held = None" using loadHeld_pair Pair Ret x by blast
    have np: "shouldProbeOrigin None now" for now by (simp add: shouldProbeOrigin_def)
    show ?thesis
      using assms queryRemoteKeys_eq [of n w s held d E walk m allow] Pair Ret x p np ask_notaries_total
      by (fastforce simp: Let_def split: if_splits go.splits prod.splits)
  next
    case (Fail e)
    then show ?thesis using assms Pair queryRemoteKeys_load_error by auto
  qed (use Pair in simp)
qed

subsection \<open>What a query does\<close>

context serving
begin

lemma moves_take_walk: "time_ok now \<Longrightarrow> moves (take_walk n now) (\<lambda>_. True)"
  by (rule movesI) (simp_all add: take_walk_eq walk)

lemma moves_record: "moves (act_bind (RecordKeyQuery oc) (\<lambda>_. act_ret x)) (\<lambda>_. True)"
  by (rule moves_bind [OF moves_quiet]) (rule moves_ret, simp)

lemma moves_serve_held: "moves (serve_held n s held probed now) (\<lambda>_. True)"
  unfolding serve_held_def by (intro moves_if moves_record)

lemma moves_ask_notaries:
  assumes "time_ok now" "moves (walk_for n m) (\<lambda>_. True)"
  shows "moves (ask_notaries walk_for n m allow s held probed now) (\<lambda>_. True)"
  unfolding ask_notaries_def
proof (rule moves_bind [where Q = "\<lambda>_. True"])
  show "moves (if allow \<and> \<not> heldSatisfies held m then take_walk n now else act_ret False) (\<lambda>_. True)"
    by (intro moves_if moves_take_walk assms(1) moves_ret) simp
next
  fix granted
  show "moves (if \<not> granted then serve_held n s held probed now
      else act_bind (act_try (walk_for n m)) (\<lambda>result. (case result of
              Ret (Some cached) \<Rightarrow>
                if heldSatisfies (Some cached) m
                then act_bind (RecordKeyQuery OutcomeNotarySuccess) (\<lambda>_. act_ret (Some cached))
                else serve_held n s (Some cached) probed now
            | _ \<Rightarrow> serve_held n s held probed now))) (\<lambda>_. True)"
    by (intro moves_if moves_serve_held moves_bind [OF moves_try [OF assms(2)]])
      (auto intro: moves_serve_held moves_record split: go.split option.split)
qed

lemma moves_query:
  assumes "\<And>n m. moves (walk_for n m) (\<lambda>_. True)"
  shows "moves (queryRemoteKeys E walk_for n m allow) (\<lambda>_. True)"
  unfolding queryRemoteKeys_def
proof (rule moves_bind [OF moves_read [OF loadHeld_tables]], clarify)
  fix s held
  have found: "moves (let probed = shouldProbeOrigin s now in
         act_bind (if probed then act_try (probeOrigin E n s now) else act_ret (Fail (Err ''not probed''))) (\<lambda>result.
           (case result of
              Ret answer \<Rightarrow> act_bind (RecordKeyQuery OutcomeOriginSuccess) (\<lambda>_. act_ret (Some answer))
            | _ \<Rightarrow> ask_notaries walk_for n m allow s held probed now))) (\<lambda>_. True)" if "time_ok now" for now
    unfolding Let_def
    by (intro moves_bind [where Q = "\<lambda>_. True"] moves_if moves_weaken [OF moves_try [OF moves_probe]] moves_ret TrueI)
      (auto intro: moves_record moves_ask_notaries [OF that assms] split: go.split)
  show "moves (act_bind (NowMillis E) (\<lambda>now.
       if held \<noteq> None \<and> isFresh (rs_UpdatedTs (the s)) (rs_ValidUntilTs (the s)) m now
       then act_bind (RecordKeyQuery OutcomeCacheFresh) (\<lambda>_. act_ret held)
       else let probed = shouldProbeOrigin s now in
         act_bind (if probed then act_try (probeOrigin E n s now) else act_ret (Fail (Err ''not probed''))) (\<lambda>result.
           (case result of
              Ret answer \<Rightarrow> act_bind (RecordKeyQuery OutcomeOriginSuccess) (\<lambda>_. act_ret (Some answer))
            | _ \<Rightarrow> ask_notaries walk_for n m allow s held probed now)))) (\<lambda>_. True)"
    by (rule moves_bind [OF moves_now]) (intro moves_if moves_record found)
qed

end

lemma query_branches:
  assumes "loadHeld n (w_db w) = (Ret (s, held), d)" "now = go_div (env_now E (w_tick w)) 1000000"
    and "v = w\<lparr>w_db := d, w_tick := Suc (w_tick w)\<rparr>" "\<not> allow \<or> heldSatisfies held m"
  shows "fst (queryRemoteKeys E walk n m allow w) =
    (if held \<noteq> None \<and> isFresh (rs_UpdatedTs (the s)) (rs_ValidUntilTs (the s)) m now \<or> \<not> shouldProbeOrigin s now then Ret held
     else (case fst (probeOrigin E n s now v) of
             Ret c \<Rightarrow> Ret (Some c)
           | Panic p \<Rightarrow> Panic p
           | Fail _ \<Rightarrow> Ret (if held = None \<or> ck_Keys (the held) = [] then Some (empty_answer n now) else held)))"
    and "w_outcomes (snd (queryRemoteKeys E walk n m allow w)) = w_outcomes w @
    (if held \<noteq> None \<and> isFresh (rs_UpdatedTs (the s)) (rs_ValidUntilTs (the s)) m now then [OutcomeCacheFresh]
     else if \<not> shouldProbeOrigin s now then [held_outcome s held False now]
     else (case fst (probeOrigin E n s now v) of
             Ret c \<Rightarrow> [OutcomeOriginSuccess]
           | Panic p \<Rightarrow> []
           | Fail _ \<Rightarrow> [held_outcome s held True now]))"
proof -
  have ask: "ask_notaries walk n m allow s h probed now u =
      (Ret (served n h probed now), u\<lparr>w_outcomes := w_outcomes u @ [held_outcome s h probed now]\<rparr>)" if "h = held" for h probed u
    using assms(4) that serve_held_outcome [of n s h probed now u] by (auto simp: ask_notaries_no_walk)
  obtain r u where p: "probeOrigin E n s now v = (r, u)" by force
  have "w_outcomes (snd (probeOrigin E n s now v)) = w_outcomes v"
    using silent.moves_step [OF silent.moves_probe, of v E n s now] by (simp add: same_outcomes_def)
  then have u: "w_outcomes u = w_outcomes w" "w_outcomes v = w_outcomes w" using p assms(3) by simp_all
  note eq = queryRemoteKeys_eq [OF assms(1)] Let_def assms(2) [symmetric] assms(3) [symmetric] p fst_conv
  show "fst (queryRemoteKeys E walk n m allow w) =
    (if held \<noteq> None \<and> isFresh (rs_UpdatedTs (the s)) (rs_ValidUntilTs (the s)) m now \<or> \<not> shouldProbeOrigin s now then Ret held
     else (case fst (probeOrigin E n s now v) of
             Ret c \<Rightarrow> Ret (Some c)
           | Panic p \<Rightarrow> Panic p
           | Fail _ \<Rightarrow> Ret (if held = None \<or> ck_Keys (the held) = [] then Some (empty_answer n now) else held)))"
    unfolding eq by (cases r) (simp_all add: ask served_def del: not_None_eq)
  show "w_outcomes (snd (queryRemoteKeys E walk n m allow w)) = w_outcomes w @
    (if held \<noteq> None \<and> isFresh (rs_UpdatedTs (the s)) (rs_ValidUntilTs (the s)) m now then [OutcomeCacheFresh]
     else if \<not> shouldProbeOrigin s now then [held_outcome s held False now]
     else (case fst (probeOrigin E n s now v) of
             Ret c \<Rightarrow> [OutcomeOriginSuccess]
           | Panic p \<Rightarrow> []
           | Fail _ \<Rightarrow> [held_outcome s held True now]))"
    unfolding eq by (cases r) (simp_all add: ask u)
qed

lemma query_quiet:
  assumes "loadHeld n (w_db w) = (Ret (s, held), d)" "now = go_div (env_now E (w_tick w)) 1000000"
    and "held \<noteq> None \<and> isFresh (rs_UpdatedTs (the s)) (rs_ValidUntilTs (the s)) m now \<or>
      \<not> shouldProbeOrigin s now \<and> (\<not> allow \<or> heldSatisfies held m \<or> \<not> fst (walk_take (w_walks w) n now))"
  shows "\<exists>w'. queryRemoteKeys E walk n m allow w = (Ret held, w') \<and> w_calls w' = w_calls w \<and> w_db w' = d \<and> w_urls w' = w_urls w"
proof -
  let ?v = "w\<lparr>w_db := d, w_tick := Suc (w_tick w)\<rparr>"
  have serve: "\<exists>oc. serve_held n s held False now u = (Ret held, u\<lparr>w_outcomes := w_outcomes u @ [oc]\<rparr>)" for u
    using serve_held_eq [of n s held False now u] by (auto simp: served_def)
  have ask: "\<exists>u. ask_notaries walk n m allow s held False now ?v = (Ret held, u) \<and> w_calls u = w_calls w \<and> w_db u = d \<and> w_urls u = w_urls w"
    if a: "\<not> allow \<or> heldSatisfies held m \<or> \<not> fst (walk_take (w_walks w) n now)"
  proof (cases "allow \<and> \<not> heldSatisfies held m")
    case True
    then show ?thesis using a ask_notaries_eq [of allow held m walk n s False now ?v]
        serve [of "?v\<lparr>w_walks := snd (walk_take (w_walks ?v) n now)\<rparr>"] by (auto simp: Let_def)
  next
    case False
    then show ?thesis using serve [of ?v] by (auto simp: ask_notaries_no_walk)
  qed
  show ?thesis
    unfolding queryRemoteKeys_eq [OF assms(1)] Let_def assms(2) [symmetric] using assms(3) ask by auto
qed

subsection \<open>Properties\<close>

text \<open>
  C9: a lookup always answers. Whatever the origin, the notaries and the clock do, a query
  returns an error only when the server's stored record could not be read, and then without
  having contacted anybody; and an answer it returns is never nil.
\<close>

theorem query_always_answers:
  assumes "queryRemoteKeys E walk n m allow w = (res, w')"
  shows "(\<forall>e. res = Fail e \<longrightarrow> fst (loadHeld n (w_db w)) = Fail e \<and> w_calls w' = w_calls w) \<and> res \<noteq> Ret None"
  using assms queryRemoteKeys_Fail [of E walk n m allow w _ w'] queryRemoteKeys_Some [of E walk n m allow w _ w'] by auto

theorem query_always_answers_witness:
  "fst (queryRemoteKeys demo_env (\<lambda>_ _. act_fail (Err ''no notary'')) ''s'' 0 True demo_world) \<noteq> Ret None"
  using query_always_answers [of demo_env "\<lambda>_ _. act_fail (Err ''no notary'')" "''s''" 0 True demo_world] by (metis surjective_pairing)

text \<open>
  C10: every branch of a query that needs no notary. A record fresh enough, or an origin inside
  its standoff, gives what is held; otherwise the origin is probed, and its answer wins; when it
  fails, what is held is served even if expired, and only a server of which nothing is held
  gets an empty answer in its own name. Each of these ends is counted once, under its own outcome;
  only a query that panics is not counted.
\<close>

theorem query_direct_branches:
  assumes "loadHeld n (w_db w) = (Ret (s, held), d)" and "now = go_div (env_now E (w_tick w)) 1000000"
    and "\<not> allow \<or> heldSatisfies held m"
  shows "\<exists>empty. ck_Keys empty = [] \<and> ck_Signatures empty = [] \<and> rs_ServerName (ck_RemoteServer empty) = n \<and> ck_ValidUntilTs empty = now \<and>
    fst (queryRemoteKeys E walk n m allow w) =
    (if held \<noteq> None \<and> isFresh (rs_UpdatedTs (the s)) (rs_ValidUntilTs (the s)) m now \<or> \<not> shouldProbeOrigin s now then Ret held
     else (case fst (probeOrigin E n s now (w\<lparr>w_db := d, w_tick := Suc (w_tick w)\<rparr>)) of
             Ret c \<Rightarrow> Ret (Some c)
           | Panic p \<Rightarrow> Panic p
           | Fail _ \<Rightarrow> Ret (if held = None \<or> ck_Keys (the held) = [] then Some empty else held))) \<and>
    w_outcomes (snd (queryRemoteKeys E walk n m allow w)) = w_outcomes w @
    (if held \<noteq> None \<and> isFresh (rs_UpdatedTs (the s)) (rs_ValidUntilTs (the s)) m now then [OutcomeCacheFresh]
     else if \<not> shouldProbeOrigin s now then [if isArchived s now then OutcomeArchiveServed else OutcomeCacheCooldown]
     else (case fst (probeOrigin E n s now (w\<lparr>w_db := d, w_tick := Suc (w_tick w)\<rparr>)) of
             Ret c \<Rightarrow> [OutcomeOriginSuccess]
           | Panic p \<Rightarrow> []
           | Fail _ \<Rightarrow> [if held = None \<or> ck_Keys (the held) = [] then OutcomeAllFailedEmpty else OutcomeAllFailedStale]))"
proof -
  note branches = query_branches [OF assms(1,2) refl assms(3), unfolded held_outcome_def, simplified if_True if_False simp_thms]
  show ?thesis
    by (intro exI [of _ "empty_answer n now"] conjI branches) (simp_all add: empty_answer_def)
qed

lemma demo_load_none: "loadHeld ''s'' (w_db demo_world) = (Ret (None, None), tick (w_db demo_world))"
proof -
  have "pg_text ''s''" by (simp add: pg_text_def utf8_ok_ascii)
  from loadHeld_healthy [OF demo_world_db(1) this demo_world_db(2)] show ?thesis by (simp add: demo_world_def empty_db_def)
qed

lemma demo_probe_fails_again:
  "\<exists>e. fst (probeOrigin demo_env ''s'' None 0 (demo_world\<lparr>w_db := tick (w_db demo_world), w_tick := Suc (w_tick demo_world)\<rparr>)) = Fail e"
proof -
  let ?w = "demo_world\<lparr>w_db := tick (w_db demo_world), w_tick := Suc (Suc (w_tick demo_world))\<rparr>"
  obtain w1 where g: "GetServerApiUrl demo_env ''s'' ?w = (Ret (''https://s:8448'', ''s''), w1)"
    by (simp add: GetServerApiUrl_eq discover_def demo_split demo_env_def probeWellKnown_def classifyWellKnown_def demo_404_def act_bind_def
      without_delegation_def lookupSrv_def https_url_def Let_def demo_world_def list_cache_get_def last_set_def)
  obtain w2 where "FederatedGet demo_env (''https://s:8448'' @ ''/_matrix/key/v2/server'') ''s'' w1 = (Ret demo_404, w2)"
    using FederatedGet_call [of demo_env "''https://s:8448'' @ ''/_matrix/key/v2/server''" "''s''" w1]
    by (cases "FederatedGet demo_env (''https://s:8448'' @ ''/_matrix/key/v2/server'') ''s'' w1") (auto simp: demo_env_def)
  moreover have "hr_StatusCode demo_404 = 404" by (simp add: demo_404_def)
  ultimately have "fetchDirectFromOrigin demo_env ''s'' ?w = (Fail (OriginStatus ''s'' 404), w2)"
    using g by (simp add: fetchDirectFromOrigin_def act_bind_app(1))
  then show ?thesis by (simp add: probe_eq)
qed

theorem query_direct_branches_witness:
  "\<exists>c. fst (queryRemoteKeys demo_env (\<lambda>_ _. act_ret None) ''s'' 0 False demo_world) = Ret (Some c) \<and> ck_Keys c = [] \<and>
     w_outcomes (snd (queryRemoteKeys demo_env (\<lambda>_ _. act_ret None) ''s'' 0 False demo_world)) = [OutcomeAllFailedEmpty]"
proof -
  have "(0 :: int) = go_div (env_now demo_env (w_tick demo_world)) 1000000" by (simp add: demo_env_def demo_world_def go_div_def)
  from query_direct_branches [OF demo_load_none this, of False 0 "\<lambda>_ _. act_ret None"] demo_probe_fails_again
  show ?thesis by (auto simp: shouldProbeOrigin_def) (simp add: demo_world_def)
qed

text \<open>
  C11: when a query stays off the network. A fresh record is served at once; and inside the
  origin's standoff, what is held is served unless it does not satisfy the request and the
  server's next notary walk is due. In both cases no request is sent, nothing is discovered and
  the database is only read.
\<close>

theorem query_without_network:
  assumes "loadHeld n (w_db w) = (Ret (s, held), d)" and "now = go_div (env_now E (w_tick w)) 1000000"
    and "held \<noteq> None \<and> isFresh (rs_UpdatedTs (the s)) (rs_ValidUntilTs (the s)) m now \<or>
      \<not> shouldProbeOrigin s now \<and> (\<not> allow \<or> heldSatisfies held m \<or> \<not> fst (walk_take (w_walks w) n now))"
  shows "\<exists>w'. queryRemoteKeys E walk n m allow w = (Ret held, w') \<and> w_calls w' = w_calls w \<and> w_urls w' = w_urls w \<and>
    w_db w' = d \<and> remote_servers d = remote_servers (w_db w) \<and> remote_keys d = remote_keys (w_db w) \<and>
    remote_signatures d = remote_signatures (w_db w)"
  using query_quiet [OF assms] loadHeld_tables [of "w_db w" n] assms(1) by (auto simp: same_tables_def)

lemma demo_load_held:
  "\<exists>s held d. loadHeld ''s'' (demo_held_db (\<lambda>_. Works)) = (Ret (Some s, Some held), d) \<and> rs_UpdatedTs s = 0 \<and> rs_ValidUntilTs s = 900 \<and>
     rs_NextOriginAttemptTs s = 0 \<and> length (ck_Keys held) = 1"
proof -
  have "db_healthy (demo_held_db (\<lambda>_. Works))" by (simp add: db_healthy_def demo_held_db_def empty_db_def)
  moreover have "pg_text ''s''" by (simp add: pg_text_def utf8_ok_ascii)
  moreover have "map_of (remote_servers (demo_held_db (\<lambda>_. Works))) ''s'' = Some ((demo_row 0)\<lparr>sr_valid_until_ts := 900\<rparr>)"
    by (simp add: demo_held_db_def)
  ultimately obtain addl where "loadHeld ''s'' (demo_held_db (\<lambda>_. Works)) =
      (Ret (Some (server_of_row ''s'' ((demo_row 0)\<lparr>sr_valid_until_ts := 900\<rparr>) addl),
        Some (held_in (demo_held_db (\<lambda>_. Works)) (server_of_row ''s'' ((demo_row 0)\<lparr>sr_valid_until_ts := 900\<rparr>) addl))),
       tick (tick (tick (demo_held_db (\<lambda>_. Works)))))"
    using loadHeld_healthy [of "demo_held_db (\<lambda>_. Works)" "''s''"] demo_held_ok by auto
  then show ?thesis by (auto simp: server_of_row_def demo_row_def held_in_def demo_held_db_def selectRemoteKeys_def)
qed

theorem query_without_network_witness:
  "\<exists>held w'. queryRemoteKeys demo_env (\<lambda>_ _. act_ret None) ''s'' 500 True (demo_world\<lparr>w_db := demo_held_db (\<lambda>_. Works)\<rparr>) = (Ret (Some held), w') \<and>
     ck_ValidUntilTs held = 900 \<and> w_calls w' = []"
proof -
  let ?w = "demo_world\<lparr>w_db := demo_held_db (\<lambda>_. Works)\<rparr>"
  obtain s held d where l: "loadHeld ''s'' (w_db ?w) = (Ret (Some s, Some held), d)" "rs_UpdatedTs s = 0" "rs_ValidUntilTs s = 900"
    using demo_load_held by auto
  have now: "(0 :: int) = go_div (env_now demo_env (w_tick ?w)) 1000000" by (simp add: demo_env_def demo_world_def go_div_def)
  have "isFresh 0 900 500 0" by (simp add: isFresh_def remoteKeyLifespanMs_def int64_range_def go_div_def Let_def)
  moreover have "ck_RemoteServer held = s" using loadHeld_pair [OF l(1)] by auto
  ultimately show ?thesis
    using query_without_network [OF l(1) now, of 500 True "\<lambda>_ _. act_ret None"] l(2,3) by (auto simp: demo_world_def)
qed
end
