(* ===== verification/NotaryFallback.thy ===== *)
theory NotaryFallback
  imports Query
begin

text \<open>
  Trusted notaries (\<open>keys/notaryFallback.go\<close>): the walk over the configured notaries, the query
  to one of them, and the verification of its answer under the origin's and the notary's keys.
\<close>

subsection \<open>The walk\<close>

text \<open>
  \<open>best\<close> is the longest-valid verified answer so far. The result is \<^term>\<open>None\<close> when no notary
  could help and none reported an error.
\<close>

fun walk_loop ::
  "string \<Rightarrow> string \<Rightarrow> Timestamp \<Rightarrow> (string \<Rightarrow> CachedRemoteKeys option io) \<Rightarrow> string list
   \<Rightarrow> CachedRemoteKeys option \<Rightarrow> goerr option \<Rightarrow> CachedRemoteKeys option io" where
  "walk_loop self target minValidUntilTs query [] best lastErr =
     (case best of
        Some b \<Rightarrow> act_ret (Some b)
      | None \<Rightarrow> (case lastErr of None \<Rightarrow> act_ret None | Some e \<Rightarrow> act_fail e))"
| "walk_loop self target minValidUntilTs query (notary # notaries) best lastErr =
     (if notary = [] \<or> notary = self \<or> notary = target
      then walk_loop self target minValidUntilTs query notaries best lastErr
      else act_bind (act_try (query notary)) (\<lambda>result.
        (case result of
           Ret (Some cached) \<Rightarrow>
             let best = (if best = None \<or> ck_ValidUntilTs cached > ck_ValidUntilTs (the best) then Some cached else best)
             in if heldSatisfies (Some cached) minValidUntilTs then act_ret (Some cached)
                else walk_loop self target minValidUntilTs query notaries best lastErr
         | Ret None \<Rightarrow> walk_loop self target minValidUntilTs query notaries best lastErr
         | Fail err \<Rightarrow> walk_loop self target minValidUntilTs query notaries best (Some err)
         | Panic p \<Rightarrow> act_pure (Panic p))))"

definition walkNotaries ::
  "string \<Rightarrow> string list \<Rightarrow> ServerName \<Rightarrow> Timestamp \<Rightarrow> (string \<Rightarrow> CachedRemoteKeys option io) \<Rightarrow> CachedRemoteKeys option io" where
  "walkNotaries self notaries serverName minValidUntilTs query =
     walk_loop self serverName minValidUntilTs query notaries None None"

subsection \<open>Verifying an answer\<close>

text \<open>The keys of a cached set, current and old, of which a repeated id keeps the last.\<close>

fun notary_keys_loop :: "RemoteKey list \<Rightarrow> string gomap \<Rightarrow> string gomap go" where
  "notary_keys_loop [] out = Ret out"
| "notary_keys_loop (k # ks) out =
     go_bind (DecodeUnpaddedBase64String (rk_PublicKey k)) (\<lambda>b. notary_keys_loop ks (AList.update (rk_ID k) b out))"

definition notaryVerifyKeys :: "CachedRemoteKeys \<Rightarrow> string gomap go" where
  "notaryVerifyKeys cached = notary_keys_loop (ck_Keys cached) []"

text \<open>The signatures that a domain has in a key object; of a nil or missing map there are none.\<close>

definition signatures_by :: "ServerKeyResult \<Rightarrow> string \<Rightarrow> string gomap" where
  "signatures_by keyInfo domain =
     (case map_of (nil_entries (skr_Signatures keyInfo)) domain of None \<Rightarrow> [] | Some s \<Rightarrow> nil_entries s)"

definition keep_signatures :: "string \<Rightarrow> string \<Rightarrow> json gomap \<Rightarrow> json gomap" where
  "keep_signatures target notary m =
     (case map_of m ''signatures'' of
        Some (JObj sigs) \<Rightarrow> AList.update ''signatures'' (JObj (filter (\<lambda>(domain, _). domain = target \<or> domain = notary) sigs)) m
      | _ \<Rightarrow> m)"

definition verifyNotaryResult ::
  "crypto \<Rightarrow> string \<Rightarrow> ServerKeyResult \<Rightarrow> json \<Rightarrow> string gomap \<Rightarrow> (ServerKeyResult \<times> AdditionalJSON) go" where
  "verifyNotaryResult C notary keyInfo raw notaryPubKeys =
     (case skr_Unsigned keyInfo of
        None \<Rightarrow> Panic ''nil pointer dereference''
      | Some u \<Rightarrow>
          let target = sku_ServerName u in
          if length (signatures_by keyInfo target) = 0
          then Fail (Err (''notary response is missing the self-signature of '' @ target))
          else if length (signatures_by keyInfo notary) = 0
          then Fail (Err (''notary '' @ notary @ '' did not sign its response''))
          else
            go_bind (map_of_json raw) (\<lambda>fullyUnmarshalled.
            go_bind (InterfaceToMap (json_of_server_key keyInfo)) (\<lambda>m.
              case merge_fields fullyUnmarshalled m [] of (m, additionalFields) \<Rightarrow>
                go_bind (grabPublicKeys keyInfo) (\<lambda>publicKeys.
                  let publicKeys = AList.update notary notaryPubKeys publicKeys;
                      m = keep_signatures target notary m
                  in go_bind (wrapf ''signature verification failed'' (VerifySignatures C (JObj m) publicKeys)) (\<lambda>_.
                     Ret (keyInfo\<lparr>skr_Signatures := Some [(target, Some (signatures_by keyInfo target))]\<rparr>, additionalFields))))))"

definition verifyAndStoreNotaryResult ::
  "env \<Rightarrow> string \<Rightarrow> ServerKeyResult \<Rightarrow> json \<Rightarrow> string gomap \<Rightarrow> CachedRemoteKeys io" where
  "verifyAndStoreNotaryResult E notary keyInfo raw notaryPubKeys =
     act_bind (act_pure (verifyNotaryResult (env_crypto E) notary keyInfo raw notaryPubKeys)) (\<lambda>(verified, additionalFields).
       storeRemoteKeys E verified additionalFields notary)"

subsection \<open>Asking one notary\<close>

text \<open>\<open>url.PathEscape\<close>.\<close>

definition path_char :: "char \<Rightarrow> bool" where
  "path_char c \<longleftrightarrow> (CHR ''a'' \<le> c \<and> c \<le> CHR ''z'') \<or> (CHR ''A'' \<le> c \<and> c \<le> CHR ''Z'') \<or> (CHR ''0'' \<le> c \<and> c \<le> CHR ''9'') \<or>
     c \<in> set ''-_.~$&+:=@''"

definition upper_hex :: "nat \<Rightarrow> char" where
  "upper_hex d = (if d < 10 then char_of (48 + d) else char_of (55 + d))"

definition PathEscape :: "string \<Rightarrow> string" where
  "PathEscape s = concat (map (\<lambda>c. if path_char c then [c]
     else [CHR ''%'', upper_hex (of_char c div 16), upper_hex (of_char c mod 16)]) s)"

text \<open>The elements of \<open>server_keys\<close>, each still a document of its own.\<close>

definition unmarshal_envelope :: "string \<Rightarrow> json list go" where
  "unmarshal_envelope body =
     (case json_parse body of
        None \<Rightarrow> Fail (Err ''invalid JSON'')
      | Some j \<Rightarrow>
          (case dec_struct (\<lambda>k v x. if field_named [''server_keys''] k = None then Some x
             else (case v of JNull \<Rightarrow> Some [] | JArr vs \<Rightarrow> Some vs | _ \<Rightarrow> None)) j [] of
             None \<Rightarrow> Fail (Err ''cannot unmarshal envelope'')
           | Some raws \<Rightarrow> Ret raws))"

text \<open>The first element that decodes, validates and carries the name asked for.\<close>

fun find_answer :: "string \<Rightarrow> json list \<Rightarrow> (ServerKeyResult \<times> json) option" where
  "find_answer target [] = None"
| "find_answer target (raw # raws) =
     (case server_key_of_json raw of
        Ret keyInfo \<Rightarrow>
          (if Validate keyInfo = Ret () \<and> map_option sku_ServerName (skr_Unsigned keyInfo) = Some target
           then Some (keyInfo, raw) else find_answer target raws)
      | _ \<Rightarrow> find_answer target raws)"

definition notary_query_url :: "string \<Rightarrow> string \<Rightarrow> Timestamp \<Rightarrow> string" where
  "notary_query_url baseUrl target minValidUntilTs =
     baseUrl @ ''/_matrix/key/v2/query/'' @ PathEscape target @ ''?minimum_valid_until_ts='' @ show_int minValidUntilTs"

text \<open>The notary's own keys are resolved without a walk: the argument for it is never called.\<close>

definition no_walk :: notary_walk where
  "no_walk serverName minValidUntilTs = act_ret None"

definition own_keys_of_notary :: "env \<Rightarrow> string \<Rightarrow> string gomap io" where
  "own_keys_of_notary E notary =
     act_bind (NowMillis E) (\<lambda>now.
     act_bind (act_try (queryRemoteKeys E no_walk notary now False)) (\<lambda>result.
       (case result of
          Fail e \<Rightarrow> act_fail (Wrapped (''could not fetch notary '' @ notary @ '' own keys'') e)
        | Panic p \<Rightarrow> act_pure (Panic p)
        | Ret None \<Rightarrow> act_pure (Panic ''nil pointer dereference'')
        | Ret (Some notaryKeys) \<Rightarrow>
            act_bind (act_pure (notaryVerifyKeys notaryKeys)) (\<lambda>notaryPubKeys.
              if length notaryPubKeys = 0 then act_fail (Err (''notary '' @ notary @ '' has no usable verify keys''))
              else act_ret notaryPubKeys))))"

definition queryOneNotary :: "env \<Rightarrow> string \<Rightarrow> ServerName \<Rightarrow> Timestamp \<Rightarrow> CachedRemoteKeys io" where
  "queryOneNotary E notary serverName minValidUntilTs =
     act_bind (own_keys_of_notary E notary) (\<lambda>notaryPubKeys.
     act_bind (GetServerApiUrl E notary) (\<lambda>(baseUrl, hostname).
     act_bind (FederatedGet E (notary_query_url baseUrl serverName minValidUntilTs) hostname) (\<lambda>resp.
       if hr_StatusCode resp \<noteq> 200
       then act_fail (Err (''notary '' @ notary @ '' returned status '' @ show_int (hr_StatusCode resp)))
       else
         act_bind (act_pure (ReadResponseBody resp)) (\<lambda>body.
         act_bind (act_pure (unmarshal_envelope body)) (\<lambda>raws.
           (case find_answer serverName raws of
              None \<Rightarrow> act_fail (Err (''notary '' @ notary @ '' did not return keys for '' @ serverName))
            | Some (keyInfo, raw) \<Rightarrow> verifyAndStoreNotaryResult E notary keyInfo raw notaryPubKeys))))))"

definition queryViaTrustedNotaries :: "env \<Rightarrow> notary_walk" where
  "queryViaTrustedNotaries E serverName minValidUntilTs =
     walkNotaries (env_SelfDomainName E) (env_TrustedNotaries E) serverName minValidUntilTs
       (\<lambda>notary.
         act_bind (time_Now E) (\<lambda>notaryStart.
         act_bind (act_try (queryOneNotary E notary serverName minValidUntilTs)) (\<lambda>result.
           (case result of
              Ret cached \<Rightarrow>
                act_bind (time_Since E notaryStart) (\<lambda>d.
                act_bind (ObserveNotaryFetch notary ResultSuccess d) (\<lambda>_. act_ret (Some cached)))
            | Fail err \<Rightarrow>
                act_bind (time_Since E notaryStart) (\<lambda>d.
                act_bind (ObserveNotaryFetch notary ResultFailure d) (\<lambda>_. act_fail err))
            | Panic p \<Rightarrow> act_pure (Panic p)))))"

definition QueryRemoteKeys :: "env \<Rightarrow> ServerName \<Rightarrow> Timestamp \<Rightarrow> CachedRemoteKeys option io" where
  "QueryRemoteKeys E serverName minValidUntilTs =
     queryRemoteKeys E (queryViaTrustedNotaries E) serverName minValidUntilTs True"

subsection \<open>The walk, from the answers it got\<close>

text \<open>The notaries that may be asked, and the answers in the order they came.\<close>

definition eligible :: "string \<Rightarrow> string \<Rightarrow> string list \<Rightarrow> string list" where
  "eligible self target notaries = filter (\<lambda>n. n \<noteq> [] \<and> n \<noteq> self \<and> n \<noteq> target) notaries"

definition settles :: "Timestamp \<Rightarrow> CachedRemoteKeys option go \<Rightarrow> bool" where
  "settles m r = (case r of Ret c \<Rightarrow> heldSatisfies c m | Panic _ \<Rightarrow> True | Fail _ \<Rightarrow> False)"

fun ask_all :: "(string \<Rightarrow> CachedRemoteKeys option io) \<Rightarrow> Timestamp \<Rightarrow> string list \<Rightarrow> world \<Rightarrow> CachedRemoteKeys option go list \<times> world" where
  "ask_all query m [] w = ([], w)"
| "ask_all query m (n # ns) w =
     (case query n w of (r, w') \<Rightarrow>
        if settles m r then ([r], w') else (case ask_all query m ns w' of (rs, w'') \<Rightarrow> (r # rs, w'')))"

definition longer :: "CachedRemoteKeys option \<Rightarrow> CachedRemoteKeys \<Rightarrow> CachedRemoteKeys option" where
  "longer best c = (if best = None \<or> ck_ValidUntilTs c > ck_ValidUntilTs (the best) then Some c else best)"

text \<open>The choice among the answers: the settling one, else the longest-valid, else the last error.\<close>

fun choice :: "Timestamp \<Rightarrow> CachedRemoteKeys option go list \<Rightarrow> CachedRemoteKeys option \<Rightarrow> goerr option \<Rightarrow> CachedRemoteKeys option go" where
  "choice m [] best err = (case best of Some b \<Rightarrow> Ret (Some b) | None \<Rightarrow> (case err of None \<Rightarrow> Ret None | Some e \<Rightarrow> Fail e))"
| "choice m (r # rs) best err =
     (if settles m r then r
      else case r of
        Ret (Some c) \<Rightarrow> choice m rs (longer best c) err
      | Ret None \<Rightarrow> choice m rs best err
      | Fail e \<Rightarrow> choice m rs best (Some e)
      | Panic p \<Rightarrow> Panic p)"

lemma walk_loop_choice:
  "walk_loop self target m query ns best err w =
     (case ask_all query m (eligible self target ns) w of (rs, w') \<Rightarrow> (choice m rs best err, w'))"
proof (induction ns arbitrary: best err w)
  case Nil
  show ?case by (simp add: eligible_def split: option.split)
next
  case (Cons n ns)
  show ?case
  proof (cases "n = [] \<or> n = self \<or> n = target")
    case True
    then show ?thesis using Cons.IH by (auto simp: eligible_def)
  next
    case False
    obtain r w' where r: "query n w = (r, w')" by force
    have e: "eligible self target (n # ns) = n # eligible self target ns" using False by (simp add: eligible_def)
    show ?thesis
    proof (cases r)
      case (Ret x)
      then show ?thesis using False r e Cons.IH
        by (cases x) (auto simp: act_bind_def act_try_def settles_def longer_def Let_def heldSatisfies_def split: prod.split)
    qed (use False r e Cons.IH in \<open>auto simp: act_bind_def act_try_def settles_def split: prod.split\<close>)
  qed
qed

definition answers :: "CachedRemoteKeys option go list \<Rightarrow> CachedRemoteKeys list" where
  "answers rs = concat (map (\<lambda>r. case r of Ret (Some c) \<Rightarrow> [c] | _ \<Rightarrow> []) rs)"

lemma answers_Cons: "answers (r # rs) = (case r of Ret (Some c) \<Rightarrow> [c] | _ \<Rightarrow> []) @ answers rs"
  by (simp add: answers_def)

lemma answers_Nil [simp]: "answers [] = []"
  by (simp add: answers_def)

text \<open>What the choice is when no answer settled the walk.\<close>

lemma choose_best:
  "\<forall>r \<in> set rs. \<not> settles m r \<Longrightarrow>
   (case choice m rs best err of
      Ret (Some c) \<Rightarrow> c \<in> set (answers rs) \<union> set_option best \<and> (\<forall>c' \<in> set (answers rs) \<union> set_option best. ck_ValidUntilTs c' \<le> ck_ValidUntilTs c)
    | Ret None \<Rightarrow> answers rs = [] \<and> best = None \<and> err = None \<and> (\<forall>e. Fail e \<notin> set rs)
    | Fail e \<Rightarrow> answers rs = [] \<and> best = None \<and> (Fail e \<in> set rs \<or> err = Some e)
    | Panic p \<Rightarrow> False)"
proof (induction rs arbitrary: best err)
  case Nil
  show ?case by (auto split: option.split)
next
  case (Cons r rs)
  have rest: "\<forall>r \<in> set rs. \<not> settles m r" and r: "\<not> settles m r" using Cons.prems by simp_all
  show ?case
  proof (cases r)
    case (Ret x)
    show ?thesis
    proof (cases x)
      case None
      then show ?thesis using Cons.IH [OF rest, of best err] Ret r by (auto simp: answers_Cons split: go.splits option.splits)
    next
      case (Some c)
      then have ch: "choice m (r # rs) best err = choice m rs (longer best c) err" using Ret r by simp
      have l: "\<exists>b. longer best c = Some b \<and> (b = c \<or> best = Some b) \<and> ck_ValidUntilTs c \<le> ck_ValidUntilTs b \<and>
          (\<forall>b'. best = Some b' \<longrightarrow> ck_ValidUntilTs b' \<le> ck_ValidUntilTs b)"
        by (cases best) (auto simp: longer_def)
      show ?thesis unfolding ch using Cons.IH [OF rest, of "longer best c" err] l Ret Some
        by (auto simp: answers_Cons split: go.splits option.splits intro: order_trans)
    qed
  next
    case (Fail e)
    then show ?thesis using Cons.IH [OF rest, of best "Some e"] r by (auto simp: answers_Cons split: go.splits option.splits)
  next
    case (Panic p)
    then show ?thesis using r by (simp add: settles_def)
  qed
qed

lemma choose_settled:
  "\<forall>r \<in> set rs. \<not> settles m r \<Longrightarrow> settles m r \<Longrightarrow> choice m (rs @ [r]) best err = r"
  by (induction rs arbitrary: best err) (auto simp: settles_def split: go.splits option.splits)

text \<open>All but the last answer did not settle the walk, and it asked everybody unless the last one did.\<close>

lemma ask_all_shape:
  "ask_all query m ns w = (rs, w') \<Longrightarrow> length rs \<le> length ns \<and>
   ((\<forall>r \<in> set rs. \<not> settles m r) \<and> length rs = length ns \<or>
    (\<exists>rs' r. rs = rs' @ [r] \<and> settles m r \<and> (\<forall>r \<in> set rs'. \<not> settles m r)))"
proof (induction ns arbitrary: w rs w')
  case (Cons n ns)
  obtain r v where r: "query n w = (r, v)" by force
  show ?case
  proof (cases "settles m r")
    case True
    then show ?thesis using Cons.prems r by auto
  next
    case False
    obtain rs' where rs': "ask_all query m ns v = (rs', w')" "rs = r # rs'"
      using Cons.prems r False by (auto split: prod.splits)
    from Cons.IH [OF rs'(1)] show ?thesis
    proof (elim conjE disjE exE)
      fix xs x assume "rs' = xs @ [x]" "settles m x" "\<forall>r \<in> set xs. \<not> settles m r" "length rs' \<le> length ns"
      then show ?thesis using rs'(2) False by (intro conjI disjI2 exI [of _ "r # xs"] exI [of _ x]) auto
    qed (use rs'(2) False in auto)
  qed
qed simp

subsection \<open>Path segments\<close>

definition upper_hex_val :: "char \<Rightarrow> nat option" where
  "upper_hex_val c = (if CHR ''0'' \<le> c \<and> c \<le> CHR ''9'' then Some (of_char c - 48)
     else if CHR ''A'' \<le> c \<and> c \<le> CHR ''F'' then Some (of_char c - 55) else None)"

fun PathUnescape :: "string \<Rightarrow> string option" where
  "PathUnescape [] = Some []"
| "PathUnescape (c # s) =
     (if c \<noteq> CHR ''%'' then map_option ((#) c) (PathUnescape s)
      else case s of
        a # b # r \<Rightarrow> (case (upper_hex_val a, upper_hex_val b) of
            (Some x, Some y) \<Rightarrow> map_option ((#) (char_of (16 * x + y))) (PathUnescape r) | _ \<Rightarrow> None)
      | _ \<Rightarrow> None)"

lemma upper_hex_val: "d < 16 \<Longrightarrow> upper_hex_val (upper_hex d) = Some d"
proof -
  assume "d < 16"
  then have "d \<in> set [0..<16]" by simp
  moreover have "list_all (\<lambda>d. upper_hex_val (upper_hex d) = Some d) [0..<16]" by code_simp
  ultimately show ?thesis by (simp only: list_all_iff)
qed

lemma byte_digits: "(of_char (c :: char) :: nat) div 16 < 16" "(of_char c :: nat) mod 16 < 16"
proof -
  have "(of_char c :: nat) < 256" by (rule of_char_less_256)
  then show "(of_char c :: nat) div 16 < 16" by (simp add: less_mult_imp_div_less)
qed simp

lemma PathUnescape_Escape: "PathUnescape (PathEscape s) = Some s"
proof (induction s)
  case Nil
  show ?case by (simp add: PathEscape_def)
next
  case (Cons c s)
  have percent: "\<not> path_char (CHR ''%'')" by code_simp
  have "char_of (16 * (of_char c div 16) + of_char c mod 16 :: nat) = c" by simp
  then show ?case using Cons percent byte_digits [of c] by (auto simp: PathEscape_def upper_hex_val)
qed

interpretation path_segment: codec PathEscape PathUnescape "\<lambda>_. True"
  by unfold_locales (rule PathUnescape_Escape)

lemma PathEscape_chars: "c \<in> set (PathEscape s) \<Longrightarrow> path_char c \<or> c = CHR ''%''"
proof -
  have hex: "path_char (upper_hex d)" if "d < 16" for d
  proof -
    have "d \<in> set [0..<16]" using that by simp
    moreover have "list_all (\<lambda>d. path_char (upper_hex d)) [0..<16]" by code_simp
    ultimately show ?thesis by (simp only: list_all_iff)
  qed
  assume "c \<in> set (PathEscape s)"
  then obtain a where "a \<in> set s" "c \<in> set (if path_char a then [a] else [CHR ''%'', upper_hex (of_char a div 16), upper_hex (of_char a mod 16)])"
    unfolding PathEscape_def set_concat set_map by blast
  then show ?thesis using hex byte_digits [of a] by (auto split: if_splits)
qed

subsection \<open>What a notary's answer must prove\<close>

text \<open>A document that came out of the reader, at its place inside another.\<close>

definition raw_ok :: "json \<Rightarrow> bool" where
  "raw_ok raw \<longleftrightarrow> json_ok raw \<and> json_depth raw \<le> 10000"

lemma raw_ok_go_json: "raw_ok raw \<Longrightarrow> go_json (go_value raw)"
  by (simp add: raw_ok_def go_json_go_value)

lemma map_of_keep_signatures:
  "map_of (keep_signatures t n m) x = (if x = ''signatures'' then (case map_of m ''signatures'' of
      Some (JObj sigs) \<Rightarrow> Some (JObj (filter (\<lambda>(d, _). d = t \<or> d = n) sigs)) | v \<Rightarrow> v) else map_of m x)"
  by (auto simp: keep_signatures_def split: option.split json.split)

lemma keep_signatures_signed_part: "wf_gomap m \<Longrightarrow> signed_part (keep_signatures t n m) = signed_part m"
proof -
  have delete_update: "AList.delete k (AList.update k v m) = AList.delete k m" for k and v :: json and m
    by (induction m) auto
  have swap: "AList.delete ''signatures'' (AList.delete ''unsigned'' m) = AList.delete ''unsigned'' (AList.delete ''signatures'' m)" for m :: "json gomap"
    by (rule delete_twist)
  show ?thesis by (auto simp: keep_signatures_def signed_part_def swap delete_update split: option.split json.split)
qed

lemma go_json_keep_signatures:
  assumes "go_json (JObj m)"
  shows "go_json (JObj (keep_signatures t n m))"
proof (cases "map_of m ''signatures''")
  case (Some v)
  show ?thesis
  proof (cases v)
    case (JObj sigs)
    have "go_json_upto 9999 (JObj sigs)" using go_json_upto_lookup [of 10000 m] assms Some JObj by (fastforce simp: go_json_upto)
    then have "go_json_upto 9999 (JObj (filter (\<lambda>(d, _). d = t \<or> d = n) sigs))"
      by (auto simp: go_json_upto_JObj wf_gomap_filter)
    then show ?thesis using assms Some JObj by (simp add: keep_signatures_def go_json_update utf8_ok_ascii)
  qed (use assms Some in \<open>simp_all add: keep_signatures_def\<close>)
qed (use assms in \<open>simp add: keep_signatures_def\<close>)

lemma verifyNotaryResult_Ret:
  assumes "verifyNotaryResult C notary k raw pubs = Ret (v, addl)" "server_key_ok k" "raw_ok raw"
  obtains u fully ks where "skr_Unsigned k = Some u" "signatures_by k (sku_ServerName u) \<noteq> []" "signatures_by k notary \<noteq> []"
    "map_of_json raw = Ret fully" "addl = extra_fields (server_key_members k) fully" "go_json (JObj addl)"
    "decode_keys (nil_entries (sku_VerifyKeys u)) [] = Ret ks" "go_json (JObj (server_key_members k @ addl))"
    "VerifySignatures C (JObj (keep_signatures (sku_ServerName u) notary (server_key_members k @ addl)))
       (AList.update notary pubs [(sku_ServerName u, ks)]) = Ret ()"
    "v = k\<lparr>skr_Signatures := Some [(sku_ServerName u, Some (signatures_by k (sku_ServerName u)))]\<rparr>"
proof -
  obtain u where u: "skr_Unsigned k = Some u" using assms(1) by (auto simp: verifyNotaryResult_def split: option.splits)
  have m: "InterfaceToMap (json_of_server_key k) = Ret (server_key_members k)" "go_json (JObj (server_key_members k))"
    using InterfaceToMap_server_key [OF assms(2)] by simp_all
  have s: "signatures_by k (sku_ServerName u) \<noteq> []" "signatures_by k notary \<noteq> []"
    using assms(1) u by (auto simp: verifyNotaryResult_def Let_def split: if_splits)
  obtain fully where f: "map_of_json raw = Ret fully"
    using assms(1) u s by (auto simp: verifyNotaryResult_def Let_def go_bind_eq_Ret_iff)
  have g: "go_json (JObj fully)" using map_of_json_go_json [OF f raw_ok_go_json [OF assms(3)]] .
  let ?a = "extra_fields (server_key_members k) fully"
  have merge: "merge_fields fully (server_key_members k) [] = (server_key_members k @ ?a, ?a)"
    using g by (simp add: merge_fields_Nil)
  obtain pk where pk: "grabPublicKeys k = Ret pk"
    "VerifySignatures C (JObj (keep_signatures (sku_ServerName u) notary (server_key_members k @ ?a))) (AList.update notary pubs pk) = Ret ()"
    "v = k\<lparr>skr_Signatures := Some [(sku_ServerName u, Some (signatures_by k (sku_ServerName u)))]\<rparr>" "addl = ?a"
    using assms(1) u s f m(1) merge by (auto simp: verifyNotaryResult_def Let_def go_bind_eq_Ret_iff)
  obtain ks where "decode_keys (nil_entries (sku_VerifyKeys u)) [] = Ret ks" "pk = [(sku_ServerName u, ks)]"
    using pk(1) u by (auto simp: grabPublicKeys_Ret)
  with u s f pk go_json_extra_fields [OF g] go_json_append_extra [OF m(2) g] show ?thesis
    by (intro that [of u fully ks]) simp_all
qed

lemma signatures_by_JObj:
  assumes "server_key_ok k" "signatures_by k d \<noteq> []"
  shows "\<exists>sigs. map_of (server_key_members k) ''signatures'' = Some (JObj sigs) \<and>
    map_of sigs d = Some (JObj (sorted_members (map (\<lambda>(i, s). (i, JStr s)) (signatures_by k d))))"
proof -
  obtain es where es: "skr_Signatures k = Some es" using assms(2) by (cases "skr_Signatures k") (auto simp: signatures_by_def)
  have wf: "wf_gomap es" using assms(1) es by (simp add: server_key_ok_def nilmap_ok_def)
  obtain ss where ss: "map_of es d = Some (Some ss)" "signatures_by k d = ss"
    using assms(2) es by (auto simp: signatures_by_def nil_entries_def split: option.splits)
  let ?o = "map (\<lambda>(d, v). (d, json_of_map JStr v)) es"
  have "map_of ?o d = map_option (json_of_map JStr) (map_of es d)" by (induction es) auto
  then have "map_of ?o d = Some (JObj (map (\<lambda>(i, s). (i, JStr s)) ss))" using ss(1) by (simp add: json_of_map_def)
  moreover have "wf_gomap ?o" using wf by (simp add: wf_gomap_def comp_def split_def)
  ultimately have "map_of (sorted_members ?o) d = Some (JObj (sorted_members (map (\<lambda>(i, s). (i, JStr s)) ss)))"
    by (simp add: map_of_sorted_members)
  moreover have "map_of (server_key_members k) ''signatures'' = Some (JObj (sorted_members ?o))"
    unfolding map_of_server_key_members [OF assms(1)] es by (simp add: json_of_map_def)
  ultimately show ?thesis using ss(2) by blast
qed

lemma notary_signatures:
  assumes "verifyNotaryResult C notary k raw pubs = Ret (v, addl)" "server_key_ok k" "raw_ok raw" "skr_Unsigned k = Some u"
    and "d = notary \<and> dk = pubs \<or> d = sku_ServerName u \<and> d \<noteq> notary \<and> decode_keys (nil_entries (sku_VerifyKeys u)) [] = Ret dk"
    and "(i, s) \<in> set (signatures_by k d)"
  shows "key_sig_ok C (EncodeCanonicalJson (signed_part (server_key_members k @ addl))) dk i (JStr s)"
proof -
  obtain fully ks where w: "signatures_by k notary \<noteq> []" "go_json (JObj (server_key_members k @ addl))"
    "decode_keys (nil_entries (sku_VerifyKeys u)) [] = Ret ks"
    "VerifySignatures C (JObj (keep_signatures (sku_ServerName u) notary (server_key_members k @ addl)))
       (AList.update notary pubs [(sku_ServerName u, ks)]) = Ret ()"
    using verifyNotaryResult_Ret [OF assms(1-3)] assms(4) by (metis option.inject)
  let ?m = "server_key_members k @ addl"
  have ne: "signatures_by k d \<noteq> []" using assms(6) by auto
  obtain sigs where sigs: "map_of (server_key_members k) ''signatures'' = Some (JObj sigs)"
    "map_of sigs d = Some (JObj (sorted_members (map (\<lambda>(i, s). (i, JStr s)) (signatures_by k d))))"
    using signatures_by_JObj [OF assms(2) ne] by blast
  have kept: "map_of (keep_signatures (sku_ServerName u) notary ?m) ''signatures'' =
      Some (JObj (filter (\<lambda>(d, _). d = sku_ServerName u \<or> d = notary) sigs))"
    using map_of_append_extra [OF sigs(1), of addl] by (simp add: map_of_keep_signatures del: map_of_append)
  have "(d, JObj (sorted_members (map (\<lambda>(i, s). (i, JStr s)) (signatures_by k d)))) \<in> set (filter (\<lambda>(d, _). d = sku_ServerName u \<or> d = notary) sigs)"
    using sigs(2) assms(5) by (auto dest: map_of_SomeD)
  then have "domain_sigs_ok C (EncodeCanonicalJson (signed_part (keep_signatures (sku_ServerName u) notary ?m)))
      (AList.update notary pubs [(sku_ServerName u, ks)]) d (JObj (sorted_members (map (\<lambda>(i, s). (i, JStr s)) (signatures_by k d))))"
    using w(4) kept unfolding VerifySignatures_Ret [OF go_json_keep_signatures [OF w(2)]] by auto
  then obtain dk' where dk': "map_of (AList.update notary pubs [(sku_ServerName u, ks)]) d = Some dk'"
    "\<forall>(i, s) \<in> set (sorted_members (map (\<lambda>(i, s). (i, JStr s)) (signatures_by k d))).
       key_sig_ok C (EncodeCanonicalJson (signed_part (keep_signatures (sku_ServerName u) notary ?m))) dk' i s"
    by (auto simp only: domain_sigs_ok_def json.inject)
  have "dk' = dk" using dk'(1) assms(5) w(3) by (auto split: if_splits)
  moreover have "(i, JStr s) \<in> set (sorted_members (map (\<lambda>(i, s). (i, JStr s)) (signatures_by k d)))"
    using assms(6) by force
  moreover have "wf_gomap ?m" using w(2) by (rule wf_gomap_go_json)
  ultimately show ?thesis using dk'(2) by (auto simp: keep_signatures_signed_part simp del: set_sorted_members)
qed

subsection \<open>The answer of one notary\<close>

lemma unmarshal_envelope_ok:
  assumes "unmarshal_envelope body = Ret raws" "raw \<in> set raws"
  shows "raw_ok raw"
proof -
  let ?f = "\<lambda>k v x. if field_named [''server_keys''] k = None then Some x
             else (case v of JNull \<Rightarrow> Some [] | JArr vs \<Rightarrow> Some vs | _ \<Rightarrow> None)"
  obtain j where j: "json_parse body = Some j" "dec_struct ?f j [] = Some raws"
    using assms(1) by (auto simp: unmarshal_envelope_def split: option.splits)
  have ok: "json_ok j" "json_depth j \<le> 10000" using json_parse_ok [OF j(1)] by simp_all
  show ?thesis
  proof (cases j)
    case (JObj kvs)
    then have d: "dec_members ?f kvs [] = Some raws" using j(2) by (simp add: dec_struct_def)
    have "\<forall>raw \<in> set raws. raw_ok raw"
    proof (rule dec_members_inv [OF d, where P = "\<lambda>rs. \<forall>r \<in> set rs. raw_ok r"])
      fix k v x x' assume kv: "(k, v) \<in> set kvs" "?f k v x = Some x'" "\<forall>r \<in> set x. raw_ok r"
      have v: "json_ok v" "json_depth v \<le> 10000"
        using json_ok_members [of kvs k v] ok JObj kv(1) by (auto simp: fold_max_le)
      show "\<forall>r \<in> set x'. raw_ok r"
      proof (cases v)
        case (JArr vs)
        then show ?thesis using kv(2,3) v by (auto simp: raw_ok_def list_all_iff fold_max_le split: if_splits)
      qed (use kv(2,3) in \<open>auto split: if_splits\<close>)
    qed simp
    then show ?thesis using assms(2) by blast
  qed (use j(2) assms(2) in \<open>auto simp: dec_struct_def\<close>)
qed

lemma find_answer_Some:
  "find_answer target raws = Some (k, raw) \<Longrightarrow> raw \<in> set raws \<and> server_key_of_json raw = Ret k \<and> Validate k = Ret () \<and>
     map_option sku_ServerName (skr_Unsigned k) = Some target"
  by (induction target raws rule: find_answer.induct) (auto split: go.splits if_splits)

lemma verified_go_json:
  assumes "verifyNotaryResult C notary k raw pubs = Ret (v, addl)" "server_key_ok k" "raw_ok raw"
  shows "go_json (JObj addl)"
  by (rule verifyNotaryResult_Ret [OF assms])

subsection \<open>What a resolution does\<close>

context serving
begin

lemma moves_verifyAndStore:
  assumes "server_key_ok k" "raw_ok raw"
  shows "moves (verifyAndStoreNotaryResult E notary k raw pubs) (\<lambda>_. True)"
  unfolding verifyAndStoreNotaryResult_def
  by (rule moves_bind [OF moves_act]) (auto intro!: moves_store verified_go_json [OF _ assms])

lemma moves_no_walk: "moves (no_walk n m) (\<lambda>_. True)"
  unfolding no_walk_def by (rule moves_ret) simp

lemma moves_own_keys: "moves (own_keys_of_notary E notary) (\<lambda>_. True)"
  unfolding own_keys_of_notary_def
  by (intro moves_bind [OF moves_now] moves_bind [OF moves_try [OF moves_query [OF moves_no_walk]]])
    (auto intro!: moves_fail moves_pure moves_ret moves_bind [OF moves_act] moves_if split: go.split option.split)

lemma moves_queryOneNotary: "moves (queryOneNotary E notary n m) (\<lambda>_. True)"
  unfolding queryOneNotary_def
proof (intro moves_bind [OF moves_own_keys] moves_bind [OF moves_discovery], clarify,
    intro moves_bind [OF moves_get] moves_if moves_fail moves_bind [OF moves_act])
  fix pubs resp body raws
  assume raws: "unmarshal_envelope body = Ret raws"
  have "moves (verifyAndStoreNotaryResult E notary k raw pubs) (\<lambda>_. True)" if "find_answer n raws = Some (k, raw)" for k raw
    using find_answer_Some [OF that] unmarshal_envelope_ok [OF raws, of raw] moves_verifyAndStore [of k raw]
    by (auto simp: raw_ok_def dest: server_key_of_json_ok)
  then show "moves (case find_answer n raws of None \<Rightarrow> act_fail (Err (''notary '' @ notary @ '' did not return keys for '' @ n))
      | Some (keyInfo, raw) \<Rightarrow> verifyAndStoreNotaryResult E notary keyInfo raw pubs) (\<lambda>_. True)"
    by (auto intro: moves_fail split: option.split)
qed

lemma moves_walk_loop:
  assumes "\<And>x. x \<in> set ns \<Longrightarrow> moves (query x) (\<lambda>_. True)"
  shows "moves (walk_loop self target m query ns best err) (\<lambda>_. True)"
  using assms
proof (induction ns arbitrary: best err)
  case Nil
  show ?case by (auto intro!: moves_ret moves_fail split: option.split)
next
  case (Cons n ns)
  show ?case
    by (auto simp: Let_def intro!: Cons.IH Cons.prems moves_bind [OF moves_try [OF Cons.prems]] moves_ret moves_pure split: go.split option.split)
qed

lemma moves_trusted: "moves (queryViaTrustedNotaries E n m) (\<lambda>_. True)"
  unfolding queryViaTrustedNotaries_def walkNotaries_def
  by (rule moves_walk_loop, rule moves_bind [OF moves_clock(1)], rule moves_bind [OF moves_try [OF moves_queryOneNotary]])
    (auto intro!: moves_bind [OF moves_clock(2)] moves_bind [OF moves_asked] moves_ret moves_fail moves_pure split: go.split)

lemma moves_QueryRemoteKeys: "moves (QueryRemoteKeys E n m) (\<lambda>_. True)"
  unfolding QueryRemoteKeys_def by (intro moves_query moves_trusted)

end

subsection \<open>Properties\<close>

text \<open>
  C12: the choice among the trusted notaries. The walk asks the notaries in their order, never
  the server itself, the server asked about or an empty name, and stops at the first answer that
  satisfies the request; if none does, it has asked them all and returns an answer valid at least
  as long as every other, and an error only when no notary answered at all.
\<close>

theorem notary_walk_choice:
  assumes "walkNotaries self notaries target m query w = (r, w')"
  shows "\<exists>rs. ask_all query m (filter (\<lambda>n. n \<noteq> [] \<and> n \<noteq> self \<and> n \<noteq> target) notaries) w = (rs, w') \<and>
    ((\<exists>rs'. rs = rs' @ [r] \<and> settles m r \<and> (\<forall>x \<in> set rs'. \<not> settles m x)) \<or>
     (length rs = length (filter (\<lambda>n. n \<noteq> [] \<and> n \<noteq> self \<and> n \<noteq> target) notaries) \<and> (\<forall>x \<in> set rs. \<not> settles m x) \<and>
      (case r of
         Ret (Some c) \<Rightarrow> Ret (Some c) \<in> set rs \<and> (\<forall>c'. Ret (Some c') \<in> set rs \<longrightarrow> ck_ValidUntilTs c' \<le> ck_ValidUntilTs c)
       | Ret None \<Rightarrow> set rs \<subseteq> {Ret None}
       | Fail e \<Rightarrow> Fail e \<in> set rs \<and> (\<forall>c. Ret (Some c) \<notin> set rs)
       | Panic p \<Rightarrow> False)))"
proof -
  let ?ns = "eligible self target notaries"
  obtain rs where rs: "ask_all query m ?ns w = (rs, w')" "r = choice m rs None None"
    using assms by (auto simp: walkNotaries_def walk_loop_choice split: prod.splits)
  have mem: "c \<in> set (answers rs) \<longleftrightarrow> Ret (Some c) \<in> set rs" for c
    by (force simp: answers_def split: go.splits option.splits)
  have panics: "Panic p \<notin> set rs" if "\<forall>x \<in> set rs. \<not> settles m x" for p
    using that by (auto simp: settles_def)
  have nil: "answers rs = [] \<longleftrightarrow> (\<forall>c. Ret (Some c) \<notin> set rs)"
    using mem by (metis all_not_in_conv empty_set set_empty)
  from ask_all_shape [OF rs(1)] show ?thesis
  proof (elim conjE disjE exE)
    assume n: "\<forall>x \<in> set rs. \<not> settles m x" "length rs = length ?ns"
    have only_none: "set rs \<subseteq> {Ret None}" if "answers rs = []" "\<forall>e. Fail e \<notin> set rs"
    proof
      fix x assume "x \<in> set rs"
      then show "x \<in> {Ret None}" using that nil panics [OF n(1)] by (cases x; cases "the_elem {x}") (metis go.exhaust option.exhaust insertI1)+
    qed
    have "case r of Ret (Some c) \<Rightarrow> Ret (Some c) \<in> set rs \<and> (\<forall>c'. Ret (Some c') \<in> set rs \<longrightarrow> ck_ValidUntilTs c' \<le> ck_ValidUntilTs c)
       | Ret None \<Rightarrow> set rs \<subseteq> {Ret None}
       | Fail e \<Rightarrow> Fail e \<in> set rs \<and> (\<forall>c. Ret (Some c) \<notin> set rs) | Panic p \<Rightarrow> False"
      using choose_best [OF n(1), of None None] only_none unfolding rs(2) [symmetric]
      by (simp add: mem nil split: go.splits option.splits)
    then show ?thesis using rs(1) n by (auto simp: eligible_def)
  next
    fix rs' x assume s: "rs = rs' @ [x]" "settles m x" "\<forall>x \<in> set rs'. \<not> settles m x"
    then have "r = x" using choose_settled rs(2) by blast
    then show ?thesis using s rs(1) by (auto simp: eligible_def)
  qed
qed

definition demo_cached :: "Timestamp \<Rightarrow> CachedRemoteKeys" where
  "demo_cached v = \<lparr>ck_RemoteServer = \<lparr>rs_ServerName = ''t'', rs_UpdatedTs = 0, rs_ValidUntilTs = v, rs_NonStandardJSON = [],
     rs_ObtainedViaNotary = ''n'', rs_OriginFailures = 0, rs_NextOriginAttemptTs = 0\<rparr>, ck_Signatures = [],
     ck_Keys = [\<lparr>rk_ServerName = ''t'', rk_ID = ''k'', rk_PublicKey = ''AA'', rk_ExpiresTs = 0\<rparr>]\<rparr>"

definition demo_notaries :: "string \<Rightarrow> CachedRemoteKeys option io" where
  "demo_notaries n = (if n = ''a'' then act_ret (Some (demo_cached 5)) else if n = ''b'' then act_ret (Some (demo_cached 8))
     else act_fail (Err ''down''))"

theorem notary_walk_choice_witness:
  "fst (walkNotaries ''me'' [''a'', ''me'', ''b'', ''c''] ''t'' 9 demo_notaries demo_world) = Ret (Some (demo_cached 8)) \<and>
   Ret (Some (demo_cached 8)) \<in> set (fst (ask_all demo_notaries 9 [''a'', ''b'', ''c''] demo_world))"
proof -
  obtain w' where w': "walkNotaries ''me'' [''a'', ''me'', ''b'', ''c''] ''t'' 9 demo_notaries demo_world = (Ret (Some (demo_cached 8)), w')"
    by (simp add: walkNotaries_def demo_notaries_def demo_cached_def heldSatisfies_def act_bind_def act_try_def Let_def)
  from notary_walk_choice [OF this] show ?thesis unfolding w' by auto
qed

text \<open>
  The path segment. The name in the request to a notary is escaped so that it stays one
  segment of the path and can be read back exactly, whatever bytes it has.
\<close>

theorem path_segment_roundtrip:
  "PathUnescape (PathEscape s) = Some s \<and>
   (\<forall>c \<in> set (PathEscape s). c \<noteq> CHR ''/'' \<and> c \<noteq> CHR ''?'' \<and> c \<noteq> CHR ''#'' \<and> c \<noteq> CHR '' '')"
proof -
  have "\<not> path_char (CHR ''/'') \<and> \<not> path_char (CHR ''?'') \<and> \<not> path_char (CHR ''#'') \<and> \<not> path_char (CHR '' '')" by code_simp
  then show ?thesis using path_segment.dec_enc [of s] PathEscape_chars [of _ s] by fastforce
qed

theorem path_segment_roundtrip_witness:
  "PathUnescape (PathEscape ''a/../b?c'') = Some ''a/../b?c''"
  using path_segment_roundtrip [of "''a/../b?c''"] by (rule conjunct1)

text \<open>A notary's answer in the form this program itself would print it.\<close>

lemma notary_answer_accepted:
  assumes "server_key_ok k" "skr_Unsigned k = Some u" "decode_keys (nil_entries (sku_VerifyKeys u)) [] = Ret ks"
    and "signatures_by k (sku_ServerName u) \<noteq> []" "signatures_by k notary \<noteq> []"
    and "VerifySignatures C (JObj (keep_signatures (sku_ServerName u) notary (server_key_members k)))
      (AList.update notary pubs [(sku_ServerName u, ks)]) = Ret ()"
  shows "verifyNotaryResult C notary k (json_of_server_key k) pubs =
    Ret (k\<lparr>skr_Signatures := Some [(sku_ServerName u, Some (signatures_by k (sku_ServerName u)))]\<rparr>, [])"
proof -
  obtain m where m: "json_of_server_key k = JObj m" using json_of_server_key_JObj by blast
  have g: "go_json (JObj m)" using go_json_server_key [OF assms(1)] m by simp
  then have "go_value (JObj m) = JObj m" by (intro go_value_id) (simp only: go_json_def)
  then have "map_of_json (JObj m) = Ret m" by (simp add: map_of_json_def)
  moreover have sm: "server_key_members k = sorted_members m" using m by (simp add: server_key_members_def)
  have "extra_fields (server_key_members k) m = []"
    using g by (force simp: extra_fields_def sm map_of_sorted_members filter_empty_conv map_of_eq_None_iff)
  then have "merge_fields m (server_key_members k) [] = (server_key_members k, [])" using g by (simp add: merge_fields_Nil)
  moreover have "InterfaceToMap (json_of_server_key k) = Ret (server_key_members k)"
    using InterfaceToMap_server_key [OF assms(1)] by simp
  moreover have "grabPublicKeys k = Ret [(sku_ServerName u, ks)]" using assms(2,3) by (simp add: grabPublicKeys_Ret)
  ultimately show ?thesis using assms by (simp add: verifyNotaryResult_def m Let_def wrapf_def del: update.simps)
qed

definition demo_stamps :: crypto where
  "demo_stamps = demo_crypto\<lparr>cr_verify := (\<lambda>pub msg sig. sig = pub)\<rparr>"

definition demo_pub2 :: string where "demo_pub2 = replicate 32 (CHR ''q'')"

definition demo_notary_key :: ServerKeyResult where
  "demo_notary_key = \<lparr>skr_Unsigned = Some \<lparr>sku_ServerName = ''t'', sku_ValidUntilTs = 900,
     sku_VerifyKeys = Some [(''k'', \<lparr>vk_Key = EncodeUnpaddedBase64ToString demo_pub\<rparr>)], sku_OldVerifyKeys = Some []\<rparr>,
     skr_Signatures = Some [(''n'', Some [(''nk'', EncodeUnpaddedBase64ToString demo_pub2)]), (''t'', Some [(''k'', EncodeUnpaddedBase64ToString demo_pub)]),
       (''x'', Some [(''k'', ''AA'')])]\<rparr>"

lemma demo_notary_simps [simp]:
  "skr_Unsigned demo_notary_key = Some \<lparr>sku_ServerName = ''t'', sku_ValidUntilTs = 900,
     sku_VerifyKeys = Some [(''k'', \<lparr>vk_Key = EncodeUnpaddedBase64ToString demo_pub\<rparr>)], sku_OldVerifyKeys = Some []\<rparr>"
  "signatures_by demo_notary_key ''t'' = [(''k'', EncodeUnpaddedBase64ToString demo_pub)]"
  "signatures_by demo_notary_key ''n'' = [(''nk'', EncodeUnpaddedBase64ToString demo_pub2)]"
  by (simp_all add: demo_notary_key_def signatures_by_def)

lemma demo_notary_ok: "server_key_ok demo_notary_key"
  by code_simp

lemma demo_notary_answer:
  "verifyNotaryResult demo_stamps ''n'' demo_notary_key (json_of_server_key demo_notary_key) [(''nk'', demo_pub2)] =
     Ret (demo_notary_key\<lparr>skr_Signatures := Some [(''t'', Some [(''k'', EncodeUnpaddedBase64ToString demo_pub)])]\<rparr>, [])"
proof -
  have sigs: "map_of (keep_signatures ''t'' ''n'' (server_key_members demo_notary_key)) ''signatures'' =
      Some (JObj [(''n'', JObj [(''nk'', JStr (EncodeUnpaddedBase64ToString demo_pub2))]), (''t'', JObj [(''k'', JStr (EncodeUnpaddedBase64ToString demo_pub))])])"
    by code_simp
  have "go_json (JObj (server_key_members demo_notary_key))" using InterfaceToMap_server_key [OF demo_notary_ok] by simp
  then have "VerifySignatures demo_stamps (JObj (keep_signatures ''t'' ''n'' (server_key_members demo_notary_key)))
      (AList.update ''n'' [(''nk'', demo_pub2)] [(''t'', [(''k'', demo_pub)])]) = Ret ()"
    by (subst VerifySignatures_Ret [OF go_json_keep_signatures])
      (simp_all add: sigs domain_sigs_ok_def key_sig_ok_def b64_decode_encode demo_stamps_def demo_pub_def demo_pub2_def)
  moreover have "decode_keys [(''k'', \<lparr>vk_Key = EncodeUnpaddedBase64ToString demo_pub\<rparr>)] [] = Ret [(''k'', demo_pub)]"
    by code_simp
  ultimately show ?thesis
    using notary_answer_accepted [OF demo_notary_ok demo_notary_simps(1), of "[(''k'', demo_pub)]" "''n''" demo_stamps] by simp
qed

text \<open>
  C5: what a notary's answer must prove. When an answer is stored, the object was the first of
  the answer in the name asked for; that server had signed it, and so had the notary, and every
  signature of the two was checked: over the same canonical bytes of all members but
  \<open>signatures\<close> and \<open>unsigned\<close>, the server's under its keys in the object, the notary's under the
  notary's own. What is stored is that object without any signature but the server's.
\<close>

theorem notary_answer_verified:
  assumes "unmarshal_envelope body = Ret raws" and "find_answer target raws = Some (k, raw)"
    and "verifyAndStoreNotaryResult E notary k raw pubs w = (Ret c, w')" and "notary \<noteq> target"
  shows "\<exists>u addl ks kept.
    skr_Unsigned k = Some u \<and> sku_ServerName u = target \<and> decode_keys (nil_entries (sku_VerifyKeys u)) [] = Ret ks \<and>
    signatures_by k target \<noteq> [] \<and> signatures_by k notary \<noteq> [] \<and>
    (\<forall>(i, s) \<in> set (signatures_by k target).
      key_sig_ok (env_crypto E) (EncodeCanonicalJson (signed_part (server_key_members k @ addl))) ks i (JStr s)) \<and>
    (\<forall>(i, s) \<in> set (signatures_by k notary).
      key_sig_ok (env_crypto E) (EncodeCanonicalJson (signed_part (server_key_members k @ addl))) pubs i (JStr s)) \<and>
    kept = k\<lparr>skr_Signatures := Some [(target, Some (signatures_by k target))]\<rparr> \<and>
    storeRemoteKeys E kept addl notary w = (Ret c, w')"
proof -
  have raw: "raw_ok raw" "server_key_ok k" "map_option sku_ServerName (skr_Unsigned k) = Some target"
    using find_answer_Some [OF assms(2)] unmarshal_envelope_ok [OF assms(1), of raw]
    by (auto simp: raw_ok_def dest: server_key_of_json_ok)
  obtain v addl where v: "verifyNotaryResult (env_crypto E) notary k raw pubs = Ret (v, addl)" "storeRemoteKeys E v addl notary w = (Ret c, w')"
    using assms(3) by (auto simp: verifyAndStoreNotaryResult_def act_bind_eq_Ret_iff)
  obtain u ks where u: "skr_Unsigned k = Some u" "signatures_by k (sku_ServerName u) \<noteq> []" "signatures_by k notary \<noteq> []"
    "decode_keys (nil_entries (sku_VerifyKeys u)) [] = Ret ks"
    "v = k\<lparr>skr_Signatures := Some [(sku_ServerName u, Some (signatures_by k (sku_ServerName u)))]\<rparr>"
    by (rule verifyNotaryResult_Ret [OF v(1) raw(2,1)])
  have t: "sku_ServerName u = target" using raw(3) u(1) by simp
  note signed = notary_signatures [OF v(1) raw(2,1) u(1)]
  show ?thesis
    using u v(2) t assms(4) signed [of target ks] signed [of notary pubs] by (intro exI [of _ u] exI [of _ addl] exI [of _ ks]) auto
qed

theorem notary_answer_verified_witness:
  "\<exists>c w' addl ks. verifyAndStoreNotaryResult (demo_env\<lparr>env_crypto := demo_stamps\<rparr>) ''n'' demo_notary_key
       (json_of_server_key demo_notary_key) [(''nk'', demo_pub2)] demo_world = (Ret c, w') \<and>
     storeRemoteKeys (demo_env\<lparr>env_crypto := demo_stamps\<rparr>)
       (demo_notary_key\<lparr>skr_Signatures := Some [(''t'', Some [(''k'', EncodeUnpaddedBase64ToString demo_pub)])]\<rparr>) addl ''n'' demo_world = (Ret c, w')"
proof -
  let ?E = "demo_env\<lparr>env_crypto := demo_stamps\<rparr>" and ?k = demo_notary_key
  let ?j = "JObj [(''server_keys'', JArr [json_of_server_key demo_notary_key])]"
  let ?kept = "?k\<lparr>skr_Signatures := Some [(''t'', Some [(''k'', EncodeUnpaddedBase64ToString demo_pub)])]\<rparr>"
  have e: "unmarshal_envelope (json_text ?j) = Ret [json_of_server_key ?k]"
  proof -
    have "json_parse (json_text ?j) = Some ?j" by (intro json_parse_text) code_simp+
    moreover have "field_named [''server_keys''] ''server_keys'' \<noteq> None" by code_simp
    ultimately show ?thesis by (simp add: unmarshal_envelope_def dec_struct_def)
  qed
  have f: "find_answer ''t'' [json_of_server_key ?k] = Some (?k, json_of_server_key ?k)"
    by code_simp
  have fits: "key_info_fits (the (skr_Unsigned ?kept)) (skr_Signatures ?kept) ''n''" by code_simp
  obtain c d' where "store_at 0 (the (skr_Unsigned ?kept)) (skr_Signatures ?kept) [] ''n'' (w_db demo_world) = (Ret c, d')"
    using store_at_refines [OF demo_world_db fits] by blast
  then have "\<exists>w'. storeRemoteKeys ?E ?kept [] ''n'' demo_world = (Ret c, w')"
    by (simp add: storeRemoteKeys_eq Let_def demo_env_def demo_world_def go_div_def)
  then obtain w' where s: "verifyAndStoreNotaryResult ?E ''n'' ?k (json_of_server_key ?k) [(''nk'', demo_pub2)] demo_world = (Ret c, w')"
    using demo_notary_answer by (auto simp: verifyAndStoreNotaryResult_def act_bind_def)
  from notary_answer_verified [OF e f s] s show ?thesis by auto
qed

end
