(* ===== verification/SelfKeys.thy ===== *)
theory SelfKeys
  imports Evolution
begin

text \<open>
  The server's own signing key (\<open>keys/self.go\<close>, \<open>util/rand.go\<close>): it is generated once, stored,
  and kept for the life of the process. The random source and \<open>ed25519.GenerateKey\<close> belong to
  the environment.
\<close>

definition GenerateRandomBytes :: "env \<Rightarrow> nat \<Rightarrow> string io" where
  "GenerateRandomBytes E n = ask_go (\<lambda>t. env_random E t n)"

definition GenerateRandomString :: "env \<Rightarrow> nat \<Rightarrow> string io" where
  "GenerateRandomString E s =
     act_bind (GenerateRandomBytes E s) (\<lambda>b. act_ret (EncodeUnpaddedBase64ToString b))"

definition LoadKey :: "OwnKey \<Rightarrow> SelfKey go" where
  "LoadKey key =
     go_bind (DecodeUnpaddedBase64String (ok_PublicKey key)) (\<lambda>pubDecoded.
     go_bind (DecodeUnpaddedBase64String (ok_PrivateKey key)) (\<lambda>privDecoded.
       Ret \<lparr>sk_RawKey = key, sk_ID = ok_ID key, sk_Pub = pubDecoded, sk_Priv = privDecoded\<rparr>))"

definition generate_own_key :: "env \<Rightarrow> SelfKey io" where
  "generate_own_key E =
     act_bind (ask_go (env_genkey E)) (\<lambda>(pub, priv).
     act_bind (GenerateRandomString E 8) (\<lambda>s.
       let dbKey = \<lparr>ok_ID = ''ed25519:'' @ s, ok_PublicKey = EncodeUnpaddedBase64ToString pub,
             ok_PrivateKey = EncodeUnpaddedBase64ToString priv, ok_ExpiresTs = 0\<rparr>
       in act_bind (lift_db (AddOwnActiveKey (ok_ID dbKey) (ok_PublicKey dbKey) (ok_PrivateKey dbKey))) (\<lambda>_.
          act_ret \<lparr>sk_RawKey = dbKey, sk_ID = ok_ID dbKey, sk_Pub = pub, sk_Priv = priv\<rparr>)))"

definition load_own_key :: "KeyID \<Rightarrow> SelfKey io" where
  "load_own_key keyId =
     act_bind (lift_db (GetOwnKey keyId)) (\<lambda>k.
       (case k of None \<Rightarrow> act_fail (Err ''failed to fetch active key'') | Some k \<Rightarrow> act_pure (LoadKey k)))"

definition GetSelfKey :: "env \<Rightarrow> SelfKey io" where
  "GetSelfKey E =
     act_bind get_world (\<lambda>w.
       (case w_own w of
          Some k \<Rightarrow> act_ret k
        | None \<Rightarrow>
            act_bind (lift_db GetOwnActiveKeyIds) (\<lambda>activeKeyIds.
            act_bind (if length activeKeyIds = 0 then generate_own_key E else load_own_key (activeKeyIds ! 0)) (\<lambda>k.
            act_bind (modify (\<lambda>w. w\<lparr>w_own := Some k\<rparr>)) (\<lambda>_. act_ret k)))))"

subsection \<open>The key in the table\<close>

text \<open>The key that a process without one takes from the table: that of the first active row.\<close>

definition stored_own_key :: "db \<Rightarrow> SelfKey go option" where
  "stored_own_key d = (case selectActiveSelfKeyIds d of [] \<Rightarrow> None
     | i # _ \<Rightarrow> (case selectSelfKey i d of [] \<Rightarrow> None | r # _ \<Rightarrow> Some (LoadKey ((scan_own_key r)\<lparr>ok_ID := i\<rparr>))))"

lemma active_ids_healthy: "db_healthy d \<Longrightarrow> GetOwnActiveKeyIds d = (Ret (selectActiveSelfKeyIds d), tick d)"
  by (simp add: GetOwnActiveKeyIds_def rows_unchecked_def query_stmt_healthy act_bind_def selectActiveSelfKeyIds_def)

lemma GetOwnKey_eq: "GetOwnKey i d = (Ret k, d') \<longleftrightarrow> db_up d \<and> pg_text i \<and> d' = tick d \<and>
    k = map_option (\<lambda>r. (scan_own_key r)\<lparr>ok_ID := i\<rparr>) (case selectSelfKey i d of [] \<Rightarrow> None | r # _ \<Rightarrow> Some r)"
  by (auto simp: GetOwnKey_def act_bind_eq_Ret_iff query_row_Ret selectSelfKey_def)

lemma GetOwnKey_snd: "snd (GetOwnKey i d) = tick d"
  using query_snd(2) [of "[i]" "selectSelfKey i" d]
  by (cases "query_row [i] (selectSelfKey i) d"; cases "fst (query_row [i] (selectSelfKey i) d)") (auto simp: GetOwnKey_def act_bind_def)

lemma active_ids_snd: "snd (GetOwnActiveKeyIds d) = tick d"
  by (simp add: GetOwnActiveKeyIds_def)

lemma self_tables_tick [simp]: "selectActiveSelfKeyIds (d\<lparr>db_tick := t\<rparr>) = selectActiveSelfKeyIds d" "selectSelfKey i (d\<lparr>db_tick := t\<rparr>) = selectSelfKey i d"
  by (simp_all add: selectActiveSelfKeyIds_def selectSelfKey_def)

text \<open>A process without a key, and a table that has one.\<close>

lemma GetSelfKey_stored:
  assumes "w_own w = None" "db_healthy (w_db w)" "stored_own_key (w_db w) = Some (Ret k)"
    and "pg_text (hd (selectActiveSelfKeyIds (w_db w)))"
  shows "GetSelfKey E w = (Ret k, w\<lparr>w_db := tick (tick (w_db w)), w_own := Some k\<rparr>)"
proof -
  obtain i is' r rs where i: "selectActiveSelfKeyIds (w_db w) = i # is'" "selectSelfKey i (w_db w) = r # rs"
    "LoadKey ((scan_own_key r)\<lparr>ok_ID := i\<rparr>) = Ret k"
    using assms(3) by (auto simp: stored_own_key_def split: list.splits)
  have "GetOwnKey i (tick (w_db w)) = (Ret (Some ((scan_own_key r)\<lparr>ok_ID := i\<rparr>)), tick (tick (w_db w)))"
    using assms(2,4) i by (simp add: GetOwnKey_eq db_healthy_up)
  then show ?thesis
    using assms(1) i active_ids_healthy [OF assms(2)]
    by (simp add: GetSelfKey_def load_own_key_def act_bind_app lift_db_def act_bind_def)
qed

text \<open>What a process that had no key did to get one.\<close>

lemma GetSelfKey_got:
  assumes "GetSelfKey E w = (Ret k, w')" "w_own w = None" "db_healthy (w_db w)"
  shows "w_own w' = Some k \<and> stored_own_key (w_db w') = Some (Ret k) \<and> db_healthy (w_db w') \<and>
    pg_text (hd (selectActiveSelfKeyIds (w_db w')))"
proof (cases "selectActiveSelfKeyIds (w_db w)")
  case Nil
  obtain u where u: "generate_own_key E (w\<lparr>w_db := tick (w_db w)\<rparr>) = (Ret k, u)" "w' = u\<lparr>w_own := Some k\<rparr>"
    using assms(1,2) Nil active_ids_healthy [OF assms(3)]
    by (auto simp: GetSelfKey_def act_bind_eq_Ret_iff lift_db_Ret)
  obtain pub priv s t d where g: "insertActiveSelfKey (''ed25519:'' @ s) (EncodeUnpaddedBase64ToString pub) (EncodeUnpaddedBase64ToString priv) (tick (tick (w_db w))) = Some d"
    "pg_text (''ed25519:'' @ s)" "w_db u = d"
    "k = \<lparr>sk_RawKey = \<lparr>ok_ID = ''ed25519:'' @ s, ok_PublicKey = EncodeUnpaddedBase64ToString pub, ok_PrivateKey = EncodeUnpaddedBase64ToString priv, ok_ExpiresTs = 0\<rparr>,
       sk_ID = ''ed25519:'' @ s, sk_Pub = pub, sk_Priv = priv\<rparr>"
    using u(1) by (auto simp: generate_own_key_def GenerateRandomString_def GenerateRandomBytes_def act_bind_eq_Ret_iff lift_db_Ret
        AddOwnActiveKey_def exec_stmt_Ret Let_def)
  have fresh: "''ed25519:'' @ s \<notin> set (map sf_key_id (self_keys (w_db w)))" and
    d: "d = (tick (tick (w_db w)))\<lparr>self_keys := self_keys (w_db w) @ [\<lparr>sf_key_id = ''ed25519:'' @ s,
      sf_public_key_b64 = EncodeUnpaddedBase64ToString pub, sf_private_key_b64 = EncodeUnpaddedBase64ToString priv, sf_expires_ts = 0\<rparr>]\<rparr>"
    using g(1) by (auto simp: insertActiveSelfKey_def split: if_splits)
  have "filter (\<lambda>r. sf_key_id r = ''ed25519:'' @ s) (self_keys (w_db w)) = []"
    using fresh by (force simp: filter_empty_conv image_iff)
  then have "selectSelfKey (''ed25519:'' @ s) d = [\<lparr>sf_key_id = ''ed25519:'' @ s,
      sf_public_key_b64 = EncodeUnpaddedBase64ToString pub, sf_private_key_b64 = EncodeUnpaddedBase64ToString priv, sf_expires_ts = 0\<rparr>]"
    by (simp add: selectSelfKey_def d)
  moreover have "selectActiveSelfKeyIds d = [''ed25519:'' @ s]"
    using Nil by (simp add: selectActiveSelfKeyIds_def d)
  ultimately have "stored_own_key d = Some (Ret k)"
    by (simp add: stored_own_key_def LoadKey_def scan_own_key_def g(4))
  then show ?thesis using u(2) g(2,3) assms(3) \<open>selectActiveSelfKeyIds d = _\<close> by (simp add: d db_healthy_def)
next
  case (Cons i is')
  obtain y d where y: "GetOwnKey i (tick (w_db w)) = (Ret (Some y), d)" "LoadKey y = Ret k" "w' = w\<lparr>w_db := d, w_own := Some k\<rparr>"
    using assms(1,2) Cons active_ids_healthy [OF assms(3)]
    by (auto simp: GetSelfKey_def act_bind_eq_Ret_iff lift_db_Ret load_own_key_def split: option.splits)
  then obtain r rs where "w_db w' = tick (tick (w_db w))" "pg_text i" "selectSelfKey i (w_db w) = r # rs" "LoadKey ((scan_own_key r)\<lparr>ok_ID := i\<rparr>) = Ret k"
    by (cases "selectSelfKey i (w_db w)") (auto simp: GetOwnKey_eq)
  then show ?thesis using Cons y(3) assms(3) by (simp add: stored_own_key_def db_healthy_def)
qed

subsection \<open>The invariant\<close>

text \<open>The tables stay well formed, a working database keeps working, and no request is counted.\<close>

definition alive :: "world \<Rightarrow> world \<Rightarrow> bool" where
  "alive w w' \<longleftrightarrow> keeps_ok w w' \<and> later (w_db w) (w_db w') \<and>
     w_notary_fetches w' = w_notary_fetches w \<and> w_requests w' = w_requests w"

interpretation alive: evolution alive
  by unfold_locales (auto simp: alive_def intro: ok.refl later.refl ok.trans later.trans)

lemma alive_quiet: "w_db w' = w_db w \<Longrightarrow> w_walks w' = w_walks w \<Longrightarrow> w_clients w' = w_clients w \<Longrightarrow>
  w_notary_fetches w' = w_notary_fetches w \<Longrightarrow> w_requests w' = w_requests w \<Longrightarrow> alive w w'"
  by (simp add: alive_def keeps_ok_frame later.refl)

lemma alive_ask: "alive.moves (ask_go g) (\<lambda>_. True)" "alive.moves get_world (\<lambda>_. True)" "alive.moves (modify (\<lambda>w. w\<lparr>w_own := k\<rparr>)) (\<lambda>_. True)"
  by (auto intro!: alive.movesI alive_quiet)

lemma alive_lift_db:
  assumes "\<And>d. db_ok d \<Longrightarrow> db_ok (snd (m d))" and "later.moves m (\<lambda>_. True)"
  shows "alive.moves (lift_db m) (\<lambda>_. True)"
  by (rule alive.movesI) (use assms(1) later.moves_step [OF assms(2)] in \<open>auto simp: alive_def keeps_ok_def world_ok_def clients_ok_def\<close>)

lemma alive_generate: "alive.moves (generate_own_key E) (\<lambda>_. True)"
  unfolding generate_own_key_def GenerateRandomString_def GenerateRandomBytes_def
  by (rule alive.moves_bind [OF alive_ask(1)]) (auto simp: Let_def intro!: alive.moves_bind [OF alive.moves_bind [OF alive_ask(1)]]
      alive.moves_bind [OF alive_lift_db] alive.moves_ret writes_ok(1) exec_later)

lemma alive_GetSelfKey: "alive.moves (GetSelfKey E) (\<lambda>_. True)"
proof -
  have "later.moves GetOwnActiveKeyIds (\<lambda>_. True)" "later.moves (GetOwnKey i) (\<lambda>_. True)" for i
    by (auto intro!: later.movesI simp: active_ids_snd GetOwnKey_snd)
  note reads = alive_lift_db [OF _ this(1)] alive_lift_db [OF _ this(2)]
  have load: "alive.moves (load_own_key i) (\<lambda>_. True)" for i
    unfolding load_own_key_def
    by (rule alive.moves_bind [OF reads(2)]) (auto intro!: alive.moves_fail alive.moves_pure simp: GetOwnKey_snd split: option.split)
  show ?thesis
    unfolding GetSelfKey_def
    by (rule alive.moves_bind [OF alive_ask(2)])
      (auto intro!: alive.moves_ret alive.moves_bind [OF reads(1)] alive.moves_bind [OF alive.moves_if] alive.moves_bind [OF alive_ask(3)]
        alive_generate load simp: active_ids_snd split: option.split)
qed

lemma GetSelfKey_own: "GetSelfKey E w = (Ret k, w') \<Longrightarrow> w_own w' = Some k"
  by (auto simp: GetSelfKey_def act_bind_eq_Ret_iff split: option.splits)

lemma stored_own_key_same:
  assumes "self_keys e = self_keys d"
  shows "stored_own_key e = stored_own_key d" "selectActiveSelfKeyIds e = selectActiveSelfKeyIds d"
  using assms by (simp_all add: stored_own_key_def selectActiveSelfKeyIds_def selectSelfKey_def split: list.split)

subsection \<open>Properties\<close>

text \<open>
  The identity of the server is stable. Whichever way a process got its signing key, the next
  call returns the same key and touches nothing; and every later process that starts from the
  same database takes exactly that key, both halves byte for byte, whatever random source it has.
\<close>

theorem own_key_survives_restart:
  assumes "GetSelfKey E w = (Ret k, w')" and "w_own w = None" and "db_healthy (w_db w)"
    and "w_db v = w_db w'" and "w_own v = None"
  shows "GetSelfKey E' w' = (Ret k, w') \<and> fst (GetSelfKey E'' v) = Ret k \<and>
    remote_servers (w_db (snd (GetSelfKey E'' v))) = remote_servers (w_db v) \<and> self_keys (w_db (snd (GetSelfKey E'' v))) = self_keys (w_db v)"
proof -
  note got = GetSelfKey_got [OF assms(1-3)]
  have "GetSelfKey E'' v = (Ret k, v\<lparr>w_db := tick (tick (w_db v)), w_own := Some k\<rparr>)"
    using GetSelfKey_stored [OF assms(5)] got assms(4) by simp
  moreover have "GetSelfKey E' w' = (Ret k, w')" using got by (simp add: GetSelfKey_def act_bind_def)
  ultimately show ?thesis by simp
qed

text \<open>What a new process with an empty table does.\<close>

lemma GetSelfKey_generates:
  assumes "w_own w = None" "rows = fst (GetOwnActiveKeyIds (w_db w))" "rows = Ret []" "snd (GetOwnActiveKeyIds (w_db w)) = tick (w_db w)"
    and "db_up (tick (w_db w))" "env_genkey E (w_tick w) = Ret (pub, priv)" "env_random E (Suc (w_tick w)) 8 = Ret s"
    and "i = ''ed25519:'' @ EncodeUnpaddedBase64ToString s" "i \<notin> sf_key_id ` set (self_keys (w_db w))"
    and "varchar_ok i" "varchar_ok (EncodeUnpaddedBase64ToString pub)" "varchar_ok (EncodeUnpaddedBase64ToString priv)"
  shows "\<exists>k w'. GetSelfKey E w = (Ret k, w') \<and> sk_ID k = i \<and> sk_Pub k = pub \<and> sk_Priv k = priv \<and>
    self_keys (w_db w') = self_keys (w_db w) @ [\<lparr>sf_key_id = i, sf_public_key_b64 = EncodeUnpaddedBase64ToString pub,
      sf_private_key_b64 = EncodeUnpaddedBase64ToString priv, sf_expires_ts = 0\<rparr>]"
proof -
  let ?row = "\<lparr>sf_key_id = i, sf_public_key_b64 = EncodeUnpaddedBase64ToString pub, sf_private_key_b64 = EncodeUnpaddedBase64ToString priv, sf_expires_ts = 0\<rparr>"
  have ids: "GetOwnActiveKeyIds (w_db w) = (Ret [], tick (w_db w))" using assms(2-4) by (simp add: prod_eq_iff)
  have "AddOwnActiveKey i (EncodeUnpaddedBase64ToString pub) (EncodeUnpaddedBase64ToString priv) (tick (w_db w)) =
      (Ret (), (tick (tick (w_db w)))\<lparr>self_keys := self_keys (w_db w) @ [?row]\<rparr>)"
    unfolding AddOwnActiveKey_def
    by (rule exec_stmt_up [OF assms(5)]) (use assms(9-12) in \<open>simp_all add: insertActiveSelfKey_def varchar_ok_text\<close>)
  then show ?thesis using assms(1,6-8) ids
    by (simp add: GetSelfKey_def act_bind_def lift_db_def generate_own_key_def GenerateRandomString_def GenerateRandomBytes_def Let_def)
qed

lemma demo_generates:
  assumes "w_own w = None" "self_keys (w_db w) = []" "db_healthy (w_db w)"
  shows "\<exists>k w'. GetSelfKey demo_env w = (Ret k, w') \<and> sk_Pub k = demo_pub"
proof -
  have v: "varchar_ok (''ed25519:'' @ EncodeUnpaddedBase64ToString (replicate 8 (CHR ''r'')))"
    "varchar_ok (EncodeUnpaddedBase64ToString demo_pub)" "varchar_ok (EncodeUnpaddedBase64ToString demo_key)" by code_simp+
  have "db_up (tick (w_db w))" using assms(3) by (simp add: db_healthy_up)
  from GetSelfKey_generates [OF assms(1) refl _ _ this, of demo_env, OF _ _ _ _ refl _ v(1) v(2) v(3)] show ?thesis
    using active_ids_healthy [OF assms(3)] assms(2) by (auto simp: demo_env_def selectActiveSelfKeyIds_def)
qed

theorem own_key_survives_restart_witness:
  "\<exists>k w'. GetSelfKey demo_env demo_world = (Ret k, w') \<and> sk_Pub k = demo_pub \<and>
     fst (GetSelfKey (demo_env\<lparr>env_genkey := (\<lambda>_. Ret ([], []))\<rparr>) (w'\<lparr>w_own := None\<rparr>)) = Ret k"
proof -
  have "w_own demo_world = None" "self_keys (w_db demo_world) = []" by (simp_all add: demo_world_def empty_db_def)
  then obtain k w' where k: "GetSelfKey demo_env demo_world = (Ret k, w')" "sk_Pub k = demo_pub"
    using demo_generates [of demo_world] empty_db_healthy by (auto simp: demo_world_def)
  have "db_healthy (w_db demo_world)" by (simp add: demo_world_def empty_db_healthy)
  from own_key_survives_restart [OF k(1) \<open>w_own demo_world = None\<close> this, of "w'\<lparr>w_own := None\<rparr>"] k show ?thesis by simp
qed

text \<open>
  C33: what an incomplete list of active keys does. \<open>GetOwnActiveKeyIds\<close> does not look at the
  error of the row loop, so when the connection breaks before the first row, a server that has an
  active key sees none, and makes, stores and uses a second one.
\<close>

theorem broken_list_mints_second_key:
  assumes "w_own w = None" and "db_fault (w_db w) (db_tick (w_db w)) = Cut 0" and "db_up (tick (w_db w))"
    and "env_genkey E (w_tick w) = Ret (pub, priv)" and "env_random E (Suc (w_tick w)) 8 = Ret s"
    and "i = ''ed25519:'' @ EncodeUnpaddedBase64ToString s" and "i \<notin> sf_key_id ` set (self_keys (w_db w))"
    and "varchar_ok i" and "varchar_ok (EncodeUnpaddedBase64ToString pub)" and "varchar_ok (EncodeUnpaddedBase64ToString priv)"
  shows "\<exists>k w'. GetSelfKey E w = (Ret k, w') \<and> sk_ID k = i \<and> sk_Pub k = pub \<and> sk_Priv k = priv \<and>
    self_keys (w_db w') = self_keys (w_db w) @ [\<lparr>sf_key_id = i, sf_public_key_b64 = EncodeUnpaddedBase64ToString pub,
      sf_private_key_b64 = EncodeUnpaddedBase64ToString priv, sf_expires_ts = 0\<rparr>]"
proof -
  have "GetOwnActiveKeyIds (w_db w) = (Ret [], tick (w_db w))"
    using assms(2) by (simp add: GetOwnActiveKeyIds_def rows_unchecked_def query_stmt_def run_stmt_def act_bind_def)
  then show ?thesis
    using GetSelfKey_generates [OF assms(1) refl _ _ assms(3-10)] by simp
qed

theorem broken_list_mints_second_key_witness:
  "\<exists>k w'. GetSelfKey demo_env (demo_world\<lparr>w_db := (empty_db (\<lambda>t. if t = 0 then Cut 0 else Works))\<lparr>self_keys :=
       [\<lparr>sf_key_id = ''ed25519:a'', sf_public_key_b64 = ''AA'', sf_private_key_b64 = ''AA'', sf_expires_ts = 0\<rparr>]\<rparr>\<rparr>) = (Ret k, w') \<and>
     length (selectActiveSelfKeyIds (w_db w')) = 2"
proof -
  let ?w = "demo_world\<lparr>w_db := (empty_db (\<lambda>t. if t = 0 then Cut 0 else Works))\<lparr>self_keys :=
       [\<lparr>sf_key_id = ''ed25519:a'', sf_public_key_b64 = ''AA'', sf_private_key_b64 = ''AA'', sf_expires_ts = 0\<rparr>]\<rparr>\<rparr>"
  have v: "varchar_ok (''ed25519:'' @ EncodeUnpaddedBase64ToString (replicate 8 (CHR ''r'')))"
    "varchar_ok (EncodeUnpaddedBase64ToString demo_pub)" "varchar_ok (EncodeUnpaddedBase64ToString demo_key)"
    "''ed25519:'' @ EncodeUnpaddedBase64ToString (replicate 8 (CHR ''r'')) \<noteq> ''ed25519:a''" by code_simp+
  have "w_own ?w = None" "db_fault (w_db ?w) (db_tick (w_db ?w)) = Cut 0" "db_up (tick (w_db ?w))"
    by (simp_all add: demo_world_def empty_db_def db_up_def)
  from broken_list_mints_second_key [OF this, of demo_env, OF _ _ refl _ v(1) v(2) v(3)] show ?thesis
    using v(4) by (force simp: demo_env_def selectActiveSelfKeyIds_def)
qed
end
