(* ===== verification/Api.thy ===== *)
theory Api
  imports NotaryFallback SelfKeys
begin

text \<open>
  The HTTP interface (\<open>api/\<close>): the replies of \<open>common/responses.go\<close>, the handlers of
  \<open>keys_v2/query.go\<close>, \<open>keys_v2/local.go\<close>, \<open>custom/verify.go\<close>, \<open>health\<close> and \<open>federation_v1\<close>, and
  the wrapper of \<open>route_handler.go\<close>. Matching a path to a route is done by the router package.
\<close>

subsection \<open>Requests and replies\<close>

record http_request =
  rq_Method :: string
  rq_vars :: "string gomap"
  rq_query :: "string gomap"
  rq_header :: "string gomap"
  rq_body :: string
  rq_body_broken :: bool

record ErrorResponse =
  er_Code :: string
  er_Message :: string
  er_HttpStatus :: int

text \<open>What a handler returns: a value that is encoded as JSON, an error response, or nil.\<close>

datatype reply = JsonReply json | ErrorReply ErrorResponse | NilReply

definition EmptyResponse :: json where
  "EmptyResponse = JObj []"

definition InternalServerError :: "string \<Rightarrow> ErrorResponse" where
  "InternalServerError message = \<lparr>er_Code = ''M_UNKNOWN'', er_Message = message, er_HttpStatus = 500\<rparr>"

definition MethodNotAllowed :: ErrorResponse where
  "MethodNotAllowed = \<lparr>er_Code = ''M_UNKNOWN'', er_Message = ''Method Not Allowed'', er_HttpStatus = 405\<rparr>"

definition NotFoundError :: ErrorResponse where
  "NotFoundError = \<lparr>er_Code = ''M_NOT_FOUND'', er_Message = ''Resource Not Found'', er_HttpStatus = 404\<rparr>"

definition UnauthorizedError :: ErrorResponse where
  "UnauthorizedError = \<lparr>er_Code = ''M_UNAUTHORIZED'', er_Message = ''Authentication Failed'', er_HttpStatus = 401\<rparr>"

definition BadRequest :: "string \<Rightarrow> ErrorResponse" where
  "BadRequest message = \<lparr>er_Code = ''M_UNKNOWN'', er_Message = message, er_HttpStatus = 400\<rparr>"

definition json_of_error :: "ErrorResponse \<Rightarrow> json" where
  "json_of_error e = JObj [(''errcode'', JStr (er_Code e)), (''error'', JStr (er_Message e)), (''http_status'', JNum (er_HttpStatus e))]"

text \<open>A missing query or header value reads as the empty string.\<close>

definition get_value :: "string gomap \<Rightarrow> string \<Rightarrow> string" where
  "get_value m k = (case map_of m k of None \<Rightarrow> [] | Some v \<Rightarrow> v)"

definition read_body :: "http_request \<Rightarrow> string go" where
  "read_body r = (if rq_body_broken r then Fail (Err ''unexpected EOF'') else Ret (rq_body r))"

subsection \<open>Preparing an answer\<close>

text \<open>
  A helper of a handler returns its result or the error response to send. \<open>or_refuse\<close> is
  \<open>if err != nil { return nil, response }\<close>.
\<close>

type_synonym 'a answer = "ErrorResponse + 'a"

definition or_refuse :: "ErrorResponse \<Rightarrow> 'a io \<Rightarrow> 'a answer io" where
  "or_refuse response m = act_bind (act_try m) (\<lambda>r.
     (case r of Ret x \<Rightarrow> act_ret (Inr x) | _ \<Rightarrow> act_ret (Inl response)))"

definition ans_bind :: "'a answer io \<Rightarrow> ('a \<Rightarrow> 'b answer io) \<Rightarrow> 'b answer io" where
  "ans_bind m f = act_bind m (\<lambda>r. (case r of Inl e \<Rightarrow> act_ret (Inl e) | Inr x \<Rightarrow> f x))"

text \<open>\<open>findAndPrepareKeys\<close> sorts the keys it holds into current and old ones.\<close>

fun sort_held_keys ::
  "RemoteKey list \<Rightarrow> VerifyKey gomap \<times> OldVerifyKey gomap \<times> (string gomap) gomap
   \<Rightarrow> (VerifyKey gomap \<times> OldVerifyKey gomap \<times> (string gomap) gomap) go" where
  "sort_held_keys [] acc = Ret acc"
| "sort_held_keys (k # ks) (verify, old, publicKeys) =
     (if rk_ExpiresTs k > 0
      then sort_held_keys ks
        (verify, AList.update (rk_ID k) \<lparr>ov_Key = rk_PublicKey k, ov_ExpiredTs = rk_ExpiresTs k\<rparr> old, publicKeys)
      else go_bind (DecodeUnpaddedBase64String (rk_PublicKey k)) (\<lambda>b.
        (case map_of publicKeys (rk_ServerName k) of
           None \<Rightarrow> Panic ''assignment to entry in nil map''
         | Some m \<Rightarrow> sort_held_keys ks (AList.update (rk_ID k) \<lparr>vk_Key = rk_PublicKey k\<rparr> verify, old,
             AList.update (rk_ServerName k) (AList.update (rk_ID k) b m) publicKeys))))"

text \<open>An entry of a map of maps; the inner map must have been made.\<close>

definition put_entry :: "string \<Rightarrow> string \<Rightarrow> 'v \<Rightarrow> ('v gomap) gomap \<Rightarrow> ('v gomap) gomap go" where
  "put_entry outer inner v m =
     (case map_of m outer of
        None \<Rightarrow> Panic ''assignment to entry in nil map''
      | Some entries \<Rightarrow> Ret (AList.update outer (AList.update inner v entries) m))"

text \<open>Each of the server's own keys signs the object; the object itself does not change.\<close>

fun sign_with_own_keys ::
  "crypto \<Rightarrow> string \<Rightarrow> json \<Rightarrow> OwnKey list \<Rightarrow> (string gomap) gomap \<times> (string gomap) gomap
   \<Rightarrow> ((string gomap) gomap \<times> (string gomap) gomap) answer go" where
  "sign_with_own_keys C self obj [] acc = Ret (Inr acc)"
| "sign_with_own_keys C self obj (key # ks) (sigs, publicKeys) =
     (case LoadKey key of
        Panic p \<Rightarrow> Panic p
      | Fail _ \<Rightarrow> Ret (Inl (InternalServerError ''Failed to load private key''))
      | Ret loaded \<Rightarrow>
          (case GetSignatureOfObject C obj (sk_Priv loaded) of
             Panic p \<Rightarrow> Panic p
           | Fail _ \<Rightarrow> Ret (Inl (InternalServerError ''Failed to sign response''))
           | Ret signature \<Rightarrow>
               go_bind (put_entry self (sk_ID loaded) signature sigs) (\<lambda>sigs.
               go_bind (put_entry self (sk_ID loaded) (sk_Pub loaded) publicKeys) (\<lambda>publicKeys.
                 sign_with_own_keys C self obj ks (sigs, publicKeys)))))"

fun append_signatures :: "RemoteSignature list \<Rightarrow> (string gomap) gomap \<Rightarrow> (string gomap) gomap go" where
  "append_signatures [] sigs = Ret sigs"
| "append_signatures (sig # rest) sigs =
     go_bind (put_entry (sg_ServerName sig) (sg_KeyID sig) (sg_Signature sig) sigs) (append_signatures rest)"

definition made :: "('v gomap) gomap \<Rightarrow> 'v nilmap nilmap" where
  "made m = Some (map (\<lambda>(k, v). (k, Some v)) m)"

text \<open>A map literal with two keys, which may be equal, and fresh inner maps.\<close>

definition two_maps :: "string \<Rightarrow> string \<Rightarrow> ('v gomap) gomap" where
  "two_maps a b = AList.update b [] [(a, [])]"

text \<open>The object to sign: the key object rebuilt from the held keys, and the extra fields over it.\<close>

definition expand_held :: "RemoteServer \<Rightarrow> VerifyKey gomap \<Rightarrow> OldVerifyKey gomap \<Rightarrow> (string gomap) gomap \<Rightarrow> json gomap go" where
  "expand_held s verify old sigs =
     (let resp = \<lparr>skr_Unsigned = Some \<lparr>sku_ServerName = rs_ServerName s, sku_ValidUntilTs = rs_ValidUntilTs s,
                    sku_VerifyKeys = Some verify, sku_OldVerifyKeys = Some old\<rparr>,
                  skr_Signatures = made sigs\<rparr>
      in go_bind (InterfaceToMap (json_of_server_key resp)) (\<lambda>expanded.
           Ret (fold (\<lambda>(k, v). AList.update k v) (rs_NonStandardJSON s) expanded)))"

text \<open>The last-minute check: what does not verify is never served, and its record is invalidated.\<close>

definition verify_or_invalidate :: "env \<Rightarrow> ServerName \<Rightarrow> json gomap \<Rightarrow> (string gomap) gomap \<Rightarrow> json gomap answer io" where
  "verify_or_invalidate E server expanded publicKeys =
     (case VerifySignatures (env_crypto E) (JObj expanded) publicKeys of
        Panic p \<Rightarrow> act_pure (Panic p)
      | Fail _ \<Rightarrow> act_bind (act_try (lift_db (InvalidateHeld server)))
          (\<lambda>_. act_ret (Inl (InternalServerError ''Failed last-minute signature verifications'')))
      | Ret _ \<Rightarrow> act_ret (Inr expanded))"

definition prepare_answer :: "env \<Rightarrow> CachedRemoteKeys \<Rightarrow> json gomap answer io" where
  "prepare_answer E remoteKeys =
     (let s = ck_RemoteServer remoteKeys; self = env_SelfDomainName E; fresh = two_maps self (rs_ServerName s) in
      ans_bind (or_refuse (InternalServerError ''Failed to read remote public keys'')
        (act_pure (sort_held_keys (ck_Keys remoteKeys) ([], [], fresh)))) (\<lambda>(verify, old, publicKeys).
      ans_bind (or_refuse (InternalServerError ''Failed to convert response'')
        (act_pure (expand_held s verify old fresh))) (\<lambda>expanded.
      ans_bind (or_refuse (InternalServerError ''Failed to get own keys'') (lift_db GetAllOwnKeys)) (\<lambda>ownKeys.
      ans_bind (act_pure (sign_with_own_keys (env_crypto E) self (JObj expanded) ownKeys (fresh, publicKeys))) (\<lambda>(sigs, publicKeys).
      act_bind (act_pure (append_signatures (ck_Signatures remoteKeys) sigs)) (\<lambda>sigs.
        let expanded = AList.update ''signatures'' (json_of_map (json_of_map JStr) (made sigs)) expanded
        in verify_or_invalidate E (rs_ServerName s) expanded publicKeys))))))"

definition findAndPrepareKeys :: "env \<Rightarrow> string \<Rightarrow> int \<Rightarrow> json gomap answer io" where
  "findAndPrepareKeys E serverName minValidTs =
     ans_bind (or_refuse (InternalServerError ''Fatal error retrieving keys'') (QueryRemoteKeys E serverName minValidTs))
       (\<lambda>result.
         (case result of
            None \<Rightarrow> act_pure (Panic ''nil pointer dereference'')
          | Some remoteKeys \<Rightarrow>
              if length (ck_Keys remoteKeys) = 0 then act_ret (Inr [])
              else if rs_ServerName (ck_RemoteServer remoteKeys) \<noteq> serverName
              then act_ret (Inl (InternalServerError ''Unexpected server_name''))
              else prepare_answer E remoteKeys))"

subsection \<open>The query handlers\<close>

definition batched :: "(json gomap) list \<Rightarrow> json" where
  "batched ks = JObj [(''server_keys'', JArr (map JObj ks))]"

definition QueryKeysSingle :: "env \<Rightarrow> http_request \<Rightarrow> reply io" where
  "QueryKeysSingle E r =
     (let serverName = get_value (rq_vars r) ''serverName'';
          minValidTsRaw = get_value (rq_query r) ''minimum_valid_until_ts''
      in act_bind (NowMillis E) (\<lambda>now.
           case (if minValidTsRaw \<noteq> [] then Atoi minValidTsRaw else Some now) of
             None \<Rightarrow> act_ret (ErrorReply (BadRequest ''invalid minimum timestamp''))
           | Some minValidTs \<Rightarrow>
               act_bind (findAndPrepareKeys E serverName minValidTs) (\<lambda>res.
                 (case res of Inl e \<Rightarrow> act_ret (ErrorReply e)
                  | Inr expanded \<Rightarrow> act_ret (JsonReply (batched [expanded]))))))"

record LookupCriteria =
  lc_MinValidTs :: int

type_synonym BatchKeyLookup = "LookupCriteria nilmap nilmap"

definition dec_LookupCriteria :: "json \<Rightarrow> LookupCriteria option" where
  "dec_LookupCriteria j = dec_struct (\<lambda>k v x.
     (if field_named [''minimum_valid_until_ts''] k = None then Some x
      else map_option (\<lambda>t. x\<lparr>lc_MinValidTs := t\<rparr>) (dec_int64 v (lc_MinValidTs x)))) j \<lparr>lc_MinValidTs = 0\<rparr>"

text \<open>
  The handler unmarshals into the address of a pointer: the document \<open>null\<close> makes the pointer
  itself nil, which is the outer \<^term>\<open>None\<close> of the result.
\<close>

definition unmarshal_lookup :: "string \<Rightarrow> BatchKeyLookup option go" where
  "unmarshal_lookup b =
     (case json_parse b of
        None \<Rightarrow> Fail (Err ''invalid JSON'')
      | Some JNull \<Rightarrow> Ret None
      | Some j \<Rightarrow>
          (case dec_struct (\<lambda>k v x. if field_named [''server_keys''] k = None then Some x
             else dec_map (\<lambda>v. dec_map dec_LookupCriteria v None) v x) j None of
             None \<Rightarrow> Fail (Err ''cannot unmarshal into BatchKeyLookup'')
           | Some keys \<Rightarrow> Ret (Some keys)))"

fun max_min_valid :: "(string \<times> LookupCriteria) list \<Rightarrow> int \<Rightarrow> int" where
  "max_min_valid [] m = m"
| "max_min_valid ((_, q) # qs) m = max_min_valid qs (if lc_MinValidTs q > m then lc_MinValidTs q else m)"

fun lookup_items :: "env \<Rightarrow> (string \<times> LookupCriteria nilmap) list \<Rightarrow> (string \<times> int) list io" where
  "lookup_items E [] = act_ret []"
| "lookup_items E ((domain, keySearches) # rest) =
     (let m = max_min_valid (nil_entries keySearches) 0 in
      act_bind (if m \<le> 0 then NowMillis E else act_ret m) (\<lambda>minValidTs.
      act_bind (lookup_items E rest) (\<lambda>items. act_ret ((domain, minValidTs) # items))))"

text \<open>
  Two orders are not the program's to choose. The servers of a request are the keys of a Go map,
  which a loop visits in any order; and the lookups of a batch run concurrently, each writing its
  own slot: here, one after the other, in any order. Both are given as indices for each length
  of list; indices that are no permutation count as the order of the list.
\<close>

record batch_order =
  bo_iteration :: "nat \<Rightarrow> nat list"
  bo_schedule :: "nat \<Rightarrow> nat list"

definition iterate :: "(nat \<Rightarrow> nat list) \<Rightarrow> 'a list \<Rightarrow> 'a list" where
  "iterate order xs = (let p = order (length xs) in if sort p = [0..<length xs] then map (\<lambda>i. xs ! i) p else xs)"

fun run_lookups ::
  "env \<Rightarrow> (string \<times> int) list \<Rightarrow> nat list \<Rightarrow> json gomap answer list \<Rightarrow> json gomap answer list io" where
  "run_lookups E items [] results = act_ret results"
| "run_lookups E items (i # schedule) results =
     act_bind (findAndPrepareKeys E (fst (items ! i)) (snd (items ! i))) (\<lambda>res.
       run_lookups E items schedule (results[i := res]))"

definition answered :: "json gomap answer list \<Rightarrow> (json gomap) list" where
  "answered results = concat (map (\<lambda>res. (case res of Inl _ \<Rightarrow> [] | Inr expanded \<Rightarrow> [expanded])) results)"

definition batchResolveConcurrency :: nat where
  "batchResolveConcurrency = 8"

definition QueryKeysBatch :: "env \<Rightarrow> batch_order \<Rightarrow> http_request \<Rightarrow> reply io" where
  "QueryKeysBatch E order r =
     (case read_body r of
        Panic p \<Rightarrow> act_pure (Panic p)
      | Fail _ \<Rightarrow> act_ret (ErrorReply (InternalServerError ''Failed to read body''))
      | Ret b \<Rightarrow>
          (case unmarshal_lookup b of
             Panic p \<Rightarrow> act_pure (Panic p)
           | Fail _ \<Rightarrow> act_ret (ErrorReply (BadRequest ''Body not JSON''))
           | Ret None \<Rightarrow> act_pure (Panic ''nil pointer dereference'')
           | Ret (Some keys) \<Rightarrow>
               act_bind (lookup_items E (iterate (bo_iteration order) (nil_entries keys))) (\<lambda>items.
               act_bind (run_lookups E items (bo_schedule order (length items)) (replicate (length items) (Inr []))) (\<lambda>results.
                 act_ret (JsonReply (batched (answered results)))))))"

subsection \<open>The server's own keys\<close>

fun sort_own_keys :: "OwnKey list \<Rightarrow> VerifyKey gomap \<times> OldVerifyKey gomap \<Rightarrow> VerifyKey gomap \<times> OldVerifyKey gomap" where
  "sort_own_keys [] acc = acc"
| "sort_own_keys (k # ks) (verify, old) =
     (if ok_ExpiresTs k > 0
      then sort_own_keys ks (verify, AList.update (ok_ID k) \<lparr>ov_Key = ok_PublicKey k, ov_ExpiredTs = ok_ExpiresTs k\<rparr> old)
      else sort_own_keys ks (AList.update (ok_ID k) \<lparr>vk_Key = ok_PublicKey k\<rparr> verify, old))"

fun sign_own_keys :: "crypto \<Rightarrow> json \<Rightarrow> OwnKey list \<Rightarrow> string gomap \<Rightarrow> string gomap answer go" where
  "sign_own_keys C obj [] sigs = Ret (Inr sigs)"
| "sign_own_keys C obj (key # ks) sigs =
     (case LoadKey key of
        Panic p \<Rightarrow> Panic p
      | Fail _ \<Rightarrow> Ret (Inl (InternalServerError ''Failed to load private key''))
      | Ret loaded \<Rightarrow>
          (case GetSignatureOfObject C obj (sk_Priv loaded) of
             Panic p \<Rightarrow> Panic p
           | Fail _ \<Rightarrow> Ret (Inl (InternalServerError ''Failed to sign response''))
           | Ret signature \<Rightarrow> sign_own_keys C obj ks (AList.update (sk_ID loaded) signature sigs)))"

definition GetLocalKeys :: "env \<Rightarrow> http_request \<Rightarrow> reply io" where
  "GetLocalKeys E r =
     act_bind (or_refuse (InternalServerError ''Failed to get keys'') (lift_db GetAllOwnKeys)) (\<lambda>res.
       (case res of
          Inl e \<Rightarrow> act_ret (ErrorReply e)
        | Inr ownKeys \<Rightarrow>
            act_bind (NowMillis E) (\<lambda>now.
              case sort_own_keys ownKeys ([], []) of (verify, old) \<Rightarrow>
                let unsignedResp = \<lparr>sku_ServerName = env_SelfDomainName E, sku_ValidUntilTs = wrap64 (now + 86400000),
                      sku_VerifyKeys = Some verify, sku_OldVerifyKeys = Some old\<rparr>
                in act_bind (act_pure (sign_own_keys (env_crypto E) (JObj (json_of_unsigned unsignedResp)) ownKeys [])) (\<lambda>signed.
                  (case signed of
                     Inl e \<Rightarrow> act_ret (ErrorReply e)
                   | Inr sigs \<Rightarrow> act_ret (JsonReply (json_of_server_key
                       \<lparr>skr_Unsigned = Some unsignedResp, skr_Signatures = made [(env_SelfDomainName E, sigs)]\<rparr>)))))))"

subsection \<open>Checking a request's authorization\<close>

text \<open>A parameter value: without its quotes, if it starts with one. An empty value panics.\<close>

definition unquote :: "string \<Rightarrow> string go" where
  "unquote v =
     (case v of
        [] \<Rightarrow> Panic ''index out of range''
      | c # r \<Rightarrow> if c \<noteq> CHR 0x22 then Ret v
                 else if r = [] then Panic ''slice bounds out of range'' else Ret (butlast r))"

fun parse_auth_params :: "string list \<Rightarrow> string gomap \<Rightarrow> string gomap go" where
  "parse_auth_params [] params = Ret params"
| "parse_auth_params (p # ps) params =
     (case split_on (CHR ''='') p of
        [k, v] \<Rightarrow> go_bind (unquote v) (\<lambda>v. parse_auth_params ps (AList.update k v params))
      | _ \<Rightarrow> parse_auth_params ps params)"

text \<open>
  The body as a content object: a body that is no object leaves the content out. Bodies with numbers
  that the reader does not take are outside the model (\<open>exact_numbers\<close> below).
\<close>

definition parsed_content :: "string \<Rightarrow> json option" where
  "parsed_content b =
     (case json_parse b of
        None \<Rightarrow> None
      | Some j \<Rightarrow> (case go_value j of JObj m \<Rightarrow> Some (JObj m) | JNull \<Rightarrow> Some JNull | _ \<Rightarrow> None))"

definition auth_object :: "string \<Rightarrow> string \<Rightarrow> string \<Rightarrow> string \<Rightarrow> string gomap \<Rightarrow> json gomap" where
  "auth_object method uri destination b params =
     (let origin = get_value params ''origin'';
          obj = [(''method'', JStr method), (''uri'', JStr uri), (''origin'', JStr origin), (''destination'', JStr destination),
            (''signatures'', JObj [(origin, JObj [(get_value params ''key'', JStr (get_value params ''sig''))])])]
      in if length b > 0
         then (case parsed_content b of None \<Rightarrow> obj | Some c \<Rightarrow> AList.update ''content'' c obj)
         else obj)"

fun all_public_keys :: "RemoteKey list \<Rightarrow> (string gomap) gomap \<Rightarrow> (string gomap) gomap go" where
  "all_public_keys [] publicKeys = Ret publicKeys"
| "all_public_keys (k # ks) publicKeys =
     go_bind (DecodeUnpaddedBase64String (rk_PublicKey k)) (\<lambda>b.
     go_bind (put_entry (rk_ServerName k) (rk_ID k) b publicKeys) (all_public_keys ks))"

definition check_auth :: "crypto \<Rightarrow> json gomap \<Rightarrow> CachedRemoteKeys \<Rightarrow> reply go" where
  "check_auth C obj validKeys =
     (case all_public_keys (ck_Keys validKeys) [(rs_ServerName (ck_RemoteServer validKeys), [])] of
        Panic p \<Rightarrow> Panic p
      | Fail _ \<Rightarrow> Ret (ErrorReply (InternalServerError ''Failed to parse remote server keys''))
      | Ret publicKeys \<Rightarrow>
          (case VerifySignatures C (JObj obj) publicKeys of
             Panic p \<Rightarrow> Panic p
           | Fail _ \<Rightarrow> Ret (ErrorReply UnauthorizedError)
           | Ret _ \<Rightarrow> Ret (JsonReply EmptyResponse)))"

definition VerifyAuthHeader :: "env \<Rightarrow> http_request \<Rightarrow> reply io" where
  "VerifyAuthHeader E r =
     (let method = get_value (rq_header r) ''X-Keys-Method'';
          uri = trim_suffix ''?'' (get_value (rq_header r) ''X-Keys-Uri'');
          destination = get_value (rq_header r) ''X-Keys-Destination''
      in case read_body r of
           Panic p \<Rightarrow> act_pure (Panic p)
         | Fail _ \<Rightarrow> act_ret (ErrorReply (InternalServerError ''Failed to read body''))
         | Ret b \<Rightarrow>
             let auth = get_value (rq_header r) ''Authorization'' in
             if \<not> has_prefix ''X-Matrix '' auth then act_ret (ErrorReply UnauthorizedError)
             else
               act_bind (act_pure (parse_auth_params (split_on (CHR '','') (split_on (CHR '' '') auth ! 1)) [])) (\<lambda>params.
               let obj = auth_object method uri destination b params in
               act_bind (or_refuse (InternalServerError ''Failed to get remote server keys'')
                   (QueryRemoteKeys E (get_value params ''origin'') 0)) (\<lambda>res.
                 (case res of
                    Inl e \<Rightarrow> act_ret (ErrorReply e)
                  | Inr None \<Rightarrow> act_pure (Panic ''nil pointer dereference'')
                  | Inr (Some validKeys) \<Rightarrow> act_pure (check_auth (env_crypto E) obj validKeys)))))"

subsection \<open>The other handlers and the wrapper\<close>

definition Healthz :: "http_request \<Rightarrow> reply io" where
  "Healthz r = act_ret (JsonReply (JObj [(''ok'', JBool True), (''status'', JStr ''Probably not dead'')]))"

definition AppVersion :: string where
  "AppVersion = ''0.1.0''"

definition FederationVersion :: "http_request \<Rightarrow> reply io" where
  "FederationVersion r = act_ret (JsonReply (JObj [(''server'',
     JObj [(''name'', JStr ''matrix-key-server''), (''version'', JStr AppVersion)])]))"

definition NotFoundHandler :: "http_request \<Rightarrow> reply io" where
  "NotFoundHandler r = act_ret (ErrorReply NotFoundError)"

definition MethodNotAllowedHandler :: "http_request \<Rightarrow> reply io" where
  "MethodNotAllowedHandler r = act_ret (ErrorReply MethodNotAllowed)"

record handler =
  h_h :: "http_request \<Rightarrow> reply io"
  h_action :: string

text \<open>The status code and the JSON value that are written; the request is counted after that.\<close>

definition response :: "reply \<Rightarrow> int \<times> json" where
  "response res =
     (case res of
        NilReply \<Rightarrow> (200, EmptyResponse)
      | JsonReply j \<Rightarrow> (200, j)
      | ErrorReply e \<Rightarrow> (er_HttpStatus e, json_of_error e))"

definition ServeHTTP :: "env \<Rightarrow> handler \<Rightarrow> http_request \<Rightarrow> (int \<times> json) io" where
  "ServeHTTP E h r =
     act_bind (time_Now E) (\<lambda>start.
     act_bind (h_h h r) (\<lambda>res.
     act_bind (time_Since E start) (\<lambda>d.
     act_bind (ObserveHTTPRequest (h_action h) (rq_Method r) (fst (response res)) d) (\<lambda>_.
       act_ret (response res)))))"

text \<open>The routes of \<open>webserver.go\<close>, each registered with and without a trailing slash.\<close>

definition api_routes :: "env \<Rightarrow> batch_order \<Rightarrow> (string \<times> string \<times> handler) list" where
  "api_routes E order =
     (let versionHandler = \<lparr>h_h = FederationVersion, h_action = ''federation_version''\<rparr>;
          localKeysHandler = \<lparr>h_h = GetLocalKeys E, h_action = ''local_keys''\<rparr>;
          querySingleHandler = \<lparr>h_h = QueryKeysSingle E, h_action = ''query_keys_single''\<rparr>;
          queryBatchHandler = \<lparr>h_h = QueryKeysBatch E order, h_action = ''query_keys_batch''\<rparr>;
          verifyAuthHandler = \<lparr>h_h = VerifyAuthHeader E, h_action = ''verify_auth_header''\<rparr>
      in [(''/_matrix/federation/v1/version'', ''GET'', versionHandler),
          (''/_matrix/key/v2/server'', ''GET'', localKeysHandler),
          (''/_matrix/key/v2/server/{keyId:[^/]+}'', ''GET'', localKeysHandler),
          (''/_matrix/key/v2/query/{serverName:[^/]+}'', ''GET'', querySingleHandler),
          (''/_matrix/key/v2/query/{serverName:[^/]+}/{keyId:[^/]+}'', ''GET'', querySingleHandler),
          (''/_matrix/key/v2/query'', ''POST'', queryBatchHandler),
          (''/_matrix/key/unstable/check_auth'', ''POST'', verifyAuthHandler)])"

definition registered_routes :: "env \<Rightarrow> batch_order \<Rightarrow> (string \<times> string \<times> handler) list" where
  "registered_routes E order =
     concat (map (\<lambda>(path, meth, h). [(path, meth, h), (path @ ''/'', meth, h)]) (api_routes E order)) @
     (let healthzHandler = \<lparr>h_h = Healthz, h_action = ''healthz''\<rparr> in [(''/healthz'', ''OPTIONS'', healthzHandler), (''/healthz'', ''GET'', healthzHandler)])"

text \<open>The handlers of a request that matches no route, or only routes of other methods.\<close>

definition fallback_handlers :: "handler list" where
  "fallback_handlers =
     [\<lparr>h_h = NotFoundHandler, h_action = ''not_found''\<rparr>, \<lparr>h_h = MethodNotAllowedHandler, h_action = ''method_not_allowed''\<rparr>]"

subsection \<open>What the helpers return\<close>

lemma ans_bind_Inr:
  "ans_bind m f w = (Ret (Inr y), w'') \<longleftrightarrow> (\<exists>x w'. m w = (Ret (Inr x), w') \<and> f x w' = (Ret (Inr y), w''))"
proof -
  have "(case r of Inl e \<Rightarrow> act_ret (Inl e) | Inr x \<Rightarrow> f x) v = (Ret (Inr y), w'') \<longleftrightarrow> (\<exists>x. r = Inr x \<and> f x v = (Ret (Inr y), w''))" for r v
    by (cases r) simp_all
  then show ?thesis by (auto simp: ans_bind_def act_bind_eq_Ret_iff)
qed

lemma or_refuse_Inr: "or_refuse e m w = (Ret (Inr x), w') \<longleftrightarrow> m w = (Ret x, w')"
  by (auto simp: or_refuse_def act_bind_try split: go.splits prod.splits)

text \<open>The key or signature that a map of maps has under two names.\<close>

definition entry :: "('v gomap) gomap \<Rightarrow> string \<Rightarrow> string \<Rightarrow> 'v option" where
  "entry m d i = (case map_of m d of None \<Rightarrow> None | Some es \<Rightarrow> map_of es i)"

lemma entry_update: "entry (AList.update d (AList.update i v es) m) x y =
    (if x = d then if y = i then Some v else map_of es y else entry m x y)"
  by (simp add: entry_def update_conv')

lemma put_entry_Ret: "put_entry d i v m = Ret m' \<Longrightarrow> entry m' x y = (if x = d \<and> y = i then Some v else entry m x y)"
  by (auto simp: put_entry_def entry_update entry_def [of m] split: option.splits)

lemma put_entry_dom: "put_entry d i v m = Ret m' \<Longrightarrow> map_of m' x = None \<longleftrightarrow> map_of m x = None"
  by (auto simp: put_entry_def update_conv' split: option.splits if_splits)

lemma sort_held_keys_entry:
  "sort_held_keys ks (verify, old, pks) = Ret (verify', old', pks') \<Longrightarrow> entry pks' d i = Some b \<Longrightarrow>
     entry pks d i = Some b \<or> (\<exists>k \<in> set ks. rk_ServerName k = d \<and> rk_ID k = i \<and> rk_ExpiresTs k \<le> 0 \<and> DecodeUnpaddedBase64String (rk_PublicKey k) = Ret b)"
proof (induction ks arbitrary: verify old pks)
  case (Cons k ks)
  show ?case
  proof (cases "rk_ExpiresTs k > 0")
    case True
    then show ?thesis using Cons by auto
  next
    case False
    then obtain c m where c: "DecodeUnpaddedBase64String (rk_PublicKey k) = Ret c" "map_of pks (rk_ServerName k) = Some m"
      "sort_held_keys ks (AList.update (rk_ID k) \<lparr>vk_Key = rk_PublicKey k\<rparr> verify, old, AList.update (rk_ServerName k) (AList.update (rk_ID k) c m) pks)
        = Ret (verify', old', pks')"
      using Cons.prems(1) by (auto simp: go_bind_eq_Ret_iff split: option.splits)
    from Cons.IH [OF c(3) Cons.prems(2)] show ?thesis
      using c(1,2) False by (auto simp: entry_update entry_def [of pks] split: if_splits)
  qed
qed simp

lemma sign_with_own_keys_Cons:
  assumes "sign_with_own_keys C self obj (k # ks) (sigs, pks) = Ret (Inr res)"
  obtains l s sigs1 pks1 where "LoadKey k = Ret l" "GetSignatureOfObject C obj (sk_Priv l) = Ret s"
    "put_entry self (ok_ID k) s sigs = Ret sigs1" "put_entry self (ok_ID k) (sk_Pub l) pks = Ret pks1"
    "DecodeUnpaddedBase64String (ok_PublicKey k) = Ret (sk_Pub l)"
    "sign_with_own_keys C self obj ks (sigs1, pks1) = Ret (Inr res)"
proof -
  obtain l s sigs1 pks1 where l: "LoadKey k = Ret l" "GetSignatureOfObject C obj (sk_Priv l) = Ret s"
    "put_entry self (sk_ID l) s sigs = Ret sigs1" "put_entry self (sk_ID l) (sk_Pub l) pks = Ret pks1"
    "sign_with_own_keys C self obj ks (sigs1, pks1) = Ret (Inr res)"
    using assms by (auto simp: go_bind_eq_Ret_iff split: go.splits)
  moreover have "sk_ID l = ok_ID k" "DecodeUnpaddedBase64String (ok_PublicKey k) = Ret (sk_Pub l)"
    using l(1) by (auto simp: LoadKey_def go_bind_eq_Ret_iff)
  ultimately show ?thesis using that by simp
qed

lemma own_public_keys:
  "sign_with_own_keys C self obj ks (sigs, pks) = Ret (Inr (sigs', pks')) \<Longrightarrow> entry pks' d i = Some b \<Longrightarrow>
     entry pks d i = Some b \<or> (d = self \<and> (\<exists>k \<in> set ks. ok_ID k = i \<and> DecodeUnpaddedBase64String (ok_PublicKey k) = Ret b))"
proof (induction ks arbitrary: sigs pks)
  case (Cons k ks)
  from Cons.prems(1) show ?case
  proof (rule sign_with_own_keys_Cons)
    fix l s sigs1 pks1
    assume k: "put_entry self (ok_ID k) (sk_Pub l) pks = Ret pks1" "DecodeUnpaddedBase64String (ok_PublicKey k) = Ret (sk_Pub l)"
      and rest: "sign_with_own_keys C self obj ks (sigs1, pks1) = Ret (Inr (sigs', pks'))"
    show ?thesis using Cons.IH [OF rest Cons.prems(2)] put_entry_Ret [OF k(1), of d i] k(2) by (auto split: if_splits)
  qed
qed simp

lemma own_signatures:
  "sign_with_own_keys C self obj ks (sigs, pks) = Ret (Inr (sigs', pks')) \<Longrightarrow> entry sigs d i \<noteq> None \<or> d = self \<and> i \<in> ok_ID ` set ks \<Longrightarrow>
     entry sigs' d i \<noteq> None"
proof (induction ks arbitrary: sigs pks)
  case (Cons k ks)
  from Cons.prems(1) show ?case
  proof (rule sign_with_own_keys_Cons)
    fix l s sigs1 pks1
    assume k: "put_entry self (ok_ID k) s sigs = Ret sigs1" and rest: "sign_with_own_keys C self obj ks (sigs1, pks1) = Ret (Inr (sigs', pks'))"
    show ?thesis using Cons.IH [OF rest] put_entry_Ret [OF k, of d i] Cons.prems(2) by (auto split: if_splits)
  qed
qed auto

lemma appended_signatures:
  "append_signatures ss sigs = Ret sigs' \<Longrightarrow> entry sigs d i \<noteq> None \<or> (\<exists>s \<in> set ss. sg_ServerName s = d \<and> sg_KeyID s = i) \<Longrightarrow> entry sigs' d i \<noteq> None"
proof (induction ss arbitrary: sigs)
  case (Cons s ss)
  obtain sigs1 where s: "put_entry (sg_ServerName s) (sg_KeyID s) (sg_Signature s) sigs = Ret sigs1" "append_signatures ss sigs1 = Ret sigs'"
    using Cons.prems(1) by (auto simp: go_bind_eq_Ret_iff)
  show ?case using Cons.IH [OF s(2)] put_entry_Ret [OF s(1), of d i] Cons.prems(2) by (auto split: if_splits)
qed auto

lemma entry_two_maps [simp]: "entry (two_maps a b) d i = None"
  by (auto simp: entry_def two_maps_def)

text \<open>The steps of an answer that was prepared.\<close>

lemma prepared:
  assumes "prepare_answer E c w = (Ret (Inr expanded), w')"
  obtains verify old pks0 base own d sigs0 pks sigs where
    "sort_held_keys (ck_Keys c) ([], [], two_maps (env_SelfDomainName E) (rs_ServerName (ck_RemoteServer c))) = Ret (verify, old, pks0)"
    "expand_held (ck_RemoteServer c) verify old (two_maps (env_SelfDomainName E) (rs_ServerName (ck_RemoteServer c))) = Ret base"
    "GetAllOwnKeys (w_db w) = (Ret own, d)"
    "sign_with_own_keys (env_crypto E) (env_SelfDomainName E) (JObj base) own (two_maps (env_SelfDomainName E) (rs_ServerName (ck_RemoteServer c)), pks0)
      = Ret (Inr (sigs0, pks))"
    "append_signatures (ck_Signatures c) sigs0 = Ret sigs"
    "expanded = AList.update ''signatures'' (json_of_map (json_of_map JStr) (made sigs)) base"
    "VerifySignatures (env_crypto E) (JObj expanded) pks = Ret ()" "w' = w\<lparr>w_db := d\<rparr>"
proof -
  let ?fresh = "two_maps (env_SelfDomainName E) (rs_ServerName (ck_RemoteServer c)) :: ('v gomap) gomap"
  obtain v1 o1 p1 base own w1 sigs0 pks sigs where
    s: "sort_held_keys (ck_Keys c) ([], [], two_maps (env_SelfDomainName E) (rs_ServerName (ck_RemoteServer c))) = Ret (v1, o1, p1)"
    "expand_held (ck_RemoteServer c) v1 o1 (two_maps (env_SelfDomainName E) (rs_ServerName (ck_RemoteServer c))) = Ret base"
    "lift_db GetAllOwnKeys w = (Ret own, w1)"
    "sign_with_own_keys (env_crypto E) (env_SelfDomainName E) (JObj base) own (two_maps (env_SelfDomainName E) (rs_ServerName (ck_RemoteServer c)), p1)
      = Ret (Inr (sigs0, pks))"
    "append_signatures (ck_Signatures c) sigs0 = Ret sigs"
    "verify_or_invalidate E (rs_ServerName (ck_RemoteServer c)) (AList.update ''signatures'' (json_of_map (json_of_map JStr) (made sigs)) base) pks w1
       = (Ret (Inr expanded), w')"
    using assms unfolding prepare_answer_def Let_def
    by (auto simp: ans_bind_Inr or_refuse_Inr act_bind_eq_Ret_iff)
  have "expanded = AList.update ''signatures'' (json_of_map (json_of_map JStr) (made sigs)) base \<and>
      VerifySignatures (env_crypto E) (JObj expanded) pks = Ret () \<and> w' = w1"
    using s(6) by (auto simp: verify_or_invalidate_def act_bind_eq_Ret_iff split: go.splits)
  with s that show ?thesis by (auto simp: lift_db_Ret)
qed

lemma own_keys_up: "db_up d \<Longrightarrow> GetAllOwnKeys d = (Ret own, d') \<Longrightarrow> own = map scan_own_key (self_keys d)"
  by (auto simp: GetAllOwnKeys_def rows_unchecked_def act_bind_eq_Ret_iff query_stmt_Ret db_up_def split: prod.splits)

lemma GetAllOwnKeys_healthy: "db_healthy d \<Longrightarrow> GetAllOwnKeys d = (Ret (map scan_own_key (self_keys d)), tick d)"
  by (simp add: GetAllOwnKeys_def rows_unchecked_def act_bind_def query_stmt_healthy)

lemma own_keys_stored: "GetAllOwnKeys d = (Ret own, d') \<Longrightarrow> set own \<subseteq> scan_own_key ` set (self_keys d)"
  by (auto simp: GetAllOwnKeys_def rows_unchecked_def act_bind_eq_Ret_iff query_stmt_def run_stmt_def Let_def
      intro!: imageI dest: in_set_takeD split: prod.splits fault.splits if_splits)

lemma found:
  assumes "findAndPrepareKeys E n m w = (Ret (Inr expanded), w')" "expanded \<noteq> []"
  obtains c w1 where "QueryRemoteKeys E n m w = (Ret (Some c), w1)" "rs_ServerName (ck_RemoteServer c) = n" "ck_Keys c \<noteq> []"
    "prepare_answer E c w1 = (Ret (Inr expanded), w')"
  using assms by (auto simp: findAndPrepareKeys_def ans_bind_Inr or_refuse_Inr split: option.splits if_splits)

subsection \<open>Properties\<close>

text \<open>
  C1: what is served. A non-empty answer is an object that verifies as a whole, under public keys
  that are, each of them, either a current key of the record that was resolved for the name asked
  for or a key from the server's own table; it carries every signature that is held of the server,
  and, when the table of own keys could be read, one of its own under each of these keys.
\<close>

theorem served_answers_verify:
  assumes "findAndPrepareKeys E n m w = (Ret (Inr expanded), w')" and "expanded \<noteq> []"
  shows "\<exists>c w1 pks sigs.
    QueryRemoteKeys E n m w = (Ret (Some c), w1) \<and> rs_ServerName (ck_RemoteServer c) = n \<and> ck_Keys c \<noteq> [] \<and>
    VerifySignatures (env_crypto E) (JObj expanded) pks = Ret () \<and>
    (\<forall>d i b. entry pks d i = Some b \<longrightarrow>
       (\<exists>k \<in> set (ck_Keys c). rk_ServerName k = d \<and> rk_ID k = i \<and> rk_ExpiresTs k \<le> 0 \<and> DecodeUnpaddedBase64String (rk_PublicKey k) = Ret b) \<or>
       d = env_SelfDomainName E \<and> (\<exists>r \<in> set (self_keys (w_db w1)). sf_key_id r = i \<and> DecodeUnpaddedBase64String (sf_public_key_b64 r) = Ret b)) \<and>
    map_of expanded ''signatures'' = Some (json_of_map (json_of_map JStr) (made sigs)) \<and>
    (\<forall>s \<in> set (ck_Signatures c). entry sigs (sg_ServerName s) (sg_KeyID s) \<noteq> None) \<and>
    (db_up (w_db w1) \<longrightarrow> (\<forall>r \<in> set (self_keys (w_db w1)). entry sigs (env_SelfDomainName E) (sf_key_id r) \<noteq> None))"
proof -
  obtain c w1 where c: "QueryRemoteKeys E n m w = (Ret (Some c), w1)" "rs_ServerName (ck_RemoteServer c) = n" "ck_Keys c \<noteq> []"
    "prepare_answer E c w1 = (Ret (Inr expanded), w')"
    using assms by (rule found)
  let ?self = "env_SelfDomainName E" and ?n = "rs_ServerName (ck_RemoteServer c)"
  obtain verify old pks0 base own d sigs0 pks sigs where p:
    "sort_held_keys (ck_Keys c) ([], [], two_maps ?self ?n) = Ret (verify, old, pks0)"
    "GetAllOwnKeys (w_db w1) = (Ret own, d)"
    "sign_with_own_keys (env_crypto E) ?self (JObj base) own (two_maps ?self ?n, pks0) = Ret (Inr (sigs0, pks))"
    "append_signatures (ck_Signatures c) sigs0 = Ret sigs"
    "expanded = AList.update ''signatures'' (json_of_map (json_of_map JStr) (made sigs)) base"
    "VerifySignatures (env_crypto E) (JObj expanded) pks = Ret ()"
    using c(4) by (rule prepared)
  have "(\<exists>k \<in> set (ck_Keys c). rk_ServerName k = d' \<and> rk_ID k = i \<and> rk_ExpiresTs k \<le> 0 \<and> DecodeUnpaddedBase64String (rk_PublicKey k) = Ret b) \<or>
       d' = ?self \<and> (\<exists>r \<in> set (self_keys (w_db w1)). sf_key_id r = i \<and> DecodeUnpaddedBase64String (sf_public_key_b64 r) = Ret b)"
    if "entry pks d' i = Some b" for d' i b
    using own_public_keys [OF p(3) that] sort_held_keys_entry [OF p(1), of d' i b] own_keys_stored [OF p(2)]
    by (fastforce simp: scan_own_key_def)
  moreover have "entry sigs (sg_ServerName s) (sg_KeyID s) \<noteq> None" if "s \<in> set (ck_Signatures c)" for s
    using appended_signatures [OF p(4)] that by blast
  moreover have "entry sigs ?self (sf_key_id r) \<noteq> None" if "db_up (w_db w1)" "r \<in> set (self_keys (w_db w1))" for r
  proof -
    have "sf_key_id r \<in> ok_ID ` set own" using own_keys_up [OF that(1) p(2)] that(2) by (force simp: scan_own_key_def image_iff)
    then show ?thesis using own_signatures [OF p(3)] appended_signatures [OF p(4)] by blast
  qed
  moreover have "map_of expanded ''signatures'' = Some (json_of_map (json_of_map JStr) (made sigs))" by (simp add: p(5) update_conv')
  ultimately show ?thesis using c(1-3) p(6) by blast
qed

text \<open>
  C22: what does not verify. Such an object is not served, the request gets status 500, and while
  the database answers the record loses its freshness, so that the next lookup of the server goes
  back to the network; the held keys stay for the case that this fails.
\<close>

theorem unverifiable_answer_invalidated:
  assumes "VerifySignatures (env_crypto E) (JObj expanded) pks = Fail e" and "db_healthy (w_db w)" and "db_ok (w_db w)" and "pg_text n"
    and "map_of (remote_servers (w_db w)) n = Some r"
  shows "\<exists>err w'. verify_or_invalidate E n expanded pks w = (Ret (Inl err), w') \<and> er_HttpStatus err = 500 \<and>
    remote_keys (w_db w') = remote_keys (w_db w) \<and>
    (\<exists>s held d. loadHeld n (w_db w') = (Ret (Some s, Some held), d) \<and> ck_Keys held = map key_of_row (selectRemoteKeys n (w_db w)) \<and>
      (\<forall>m now. 0 < now \<longrightarrow> \<not> isFresh (rs_UpdatedTs s) (rs_ValidUntilTs s) m now))"
proof -
  let ?d = "update_server n (\<lambda>r. r\<lparr>sr_valid_until_ts := 0, sr_updated_ts := 0\<rparr>) (tick (w_db w))"
  have inv: "InvalidateHeld n (w_db w) = (Ret (), ?d)"
    unfolding InvalidateHeld_def InvalidateRemoteServer_def
    by (rule exec_stmt_up [OF db_healthy_up [OF assms(2)]]) (simp_all add: assms(4) invalidateRemoteServer_def)
  have ok: "db_ok ?d" using writes_ok(5) [OF assms(3), of n] inv by (simp add: InvalidateHeld_def)
  have row: "map_of (remote_servers ?d) n = Some (r\<lparr>sr_valid_until_ts := 0, sr_updated_ts := 0\<rparr>)"
    unfolding map_of_update_server using assms(5) by simp
  have h: "db_healthy ?d" using assms(2) by simp
  from loadHeld_healthy [OF h assms(4) ok] row obtain addl where
    "loadHeld n ?d = (Ret (Some (server_of_row n (r\<lparr>sr_valid_until_ts := 0, sr_updated_ts := 0\<rparr>) addl),
       Some (held_in ?d (server_of_row n (r\<lparr>sr_valid_until_ts := 0, sr_updated_ts := 0\<rparr>) addl))), tick (tick (tick ?d)))"
    by auto
  moreover have "\<not> isFresh 0 0 m now" if "0 < now" for m now
    using that by (simp add: isFresh_def Let_def go_div_def int64_range_def)
  moreover have "verify_or_invalidate E n expanded pks w = (Ret (Inl (InternalServerError ''Failed last-minute signature verifications'')), w\<lparr>w_db := ?d\<rparr>)"
    using assms(1) inv by (simp add: verify_or_invalidate_def act_bind_def act_try_def lift_db_def)
  ultimately show ?thesis
    by (auto simp: InternalServerError_def held_in_def server_of_row_def selectRemoteKeys_def)
qed

theorem unverifiable_answer_invalidated_witness:
  "\<exists>err w'. verify_or_invalidate demo_env ''s'' [(''signatures'', JObj [])] [] (demo_world\<lparr>w_db := demo_held_db (\<lambda>_. Works)\<rparr>) = (Ret (Inl err), w') \<and>
     er_HttpStatus err = 500 \<and> length (remote_keys (w_db w')) = 1"
proof -
  let ?w = "demo_world\<lparr>w_db := demo_held_db (\<lambda>_. Works)\<rparr>"
  have "case VerifySignatures demo_crypto (JObj [(''signatures'', JObj [])]) [] of Fail _ \<Rightarrow> True | _ \<Rightarrow> False" by code_simp
  then obtain e where v: "VerifySignatures (env_crypto demo_env) (JObj [(''signatures'', JObj [])]) [] = Fail e"
    by (auto simp: demo_env_def split: go.splits)
  have "db_healthy (w_db ?w)" "db_ok (w_db ?w)" "pg_text ''s''"
    by (simp_all add: demo_held_ok pg_text_def utf8_ok_ascii) (simp add: db_healthy_def demo_held_db_def empty_db_def)
  moreover have "map_of (remote_servers (w_db ?w)) ''s'' = Some ((demo_row 0)\<lparr>sr_valid_until_ts := 900\<rparr>)" by (simp add: demo_held_db_def)
  ultimately show ?thesis
    using unverifiable_answer_invalidated [OF v, of ?w "''s''"] by (auto simp: demo_held_db_def)
qed

text \<open>A record with one key, and no signatures, in the name of a server.\<close>

lemma demo_prepared:
  assumes "ck_RemoteServer c = server_of_row ''s'' ((demo_row 0)\<lparr>sr_valid_until_ts := 900\<rparr>) []" "ck_Signatures c = []"
    and "ck_Keys c = [\<lparr>rk_ServerName = ''s'', rk_ID = ''k'', rk_PublicKey = ''AA'', rk_ExpiresTs = 0\<rparr>]"
    and "GetAllOwnKeys (w_db w) = (Ret [], d)"
  shows "\<exists>m. prepare_answer demo_env c w = (Ret (Inr m), w\<lparr>w_db := d\<rparr>) \<and> m \<noteq> []"
proof -
  let ?k = "\<lparr>skr_Unsigned = Some \<lparr>sku_ServerName = ''s'', sku_ValidUntilTs = 900, sku_VerifyKeys = Some [(''k'', \<lparr>vk_Key = ''AA''\<rparr>)],
     sku_OldVerifyKeys = Some []\<rparr>, skr_Signatures = made (two_maps ''self'' ''s'' :: (string gomap) gomap)\<rparr>"
  have "server_key_ok ?k" by code_simp
  note k = InterfaceToMap_server_key [OF this]
  have s: "sort_held_keys (ck_Keys c) ([], [], two_maps ''self'' ''s'') = Ret ([(''k'', \<lparr>vk_Key = ''AA''\<rparr>)], [], [(''self'', []), (''s'', [(''k'', [CHR 0x00])])])"
    unfolding assms(3) by code_simp
  have x: "expand_held (server_of_row ''s'' ((demo_row 0)\<lparr>sr_valid_until_ts := 900\<rparr>) []) [(''k'', \<lparr>vk_Key = ''AA''\<rparr>)] [] (two_maps ''self'' ''s'') = Ret (server_key_members ?k)"
    using k by (simp add: expand_held_def server_of_row_def demo_row_def)
  let ?m = "AList.update ''signatures'' (json_of_map (json_of_map JStr) (made (two_maps ''self'' ''s''))) (server_key_members ?k)"
  have "go_json_upto 9999 (json_of_map (json_of_map JStr) (made (two_maps ''self'' ''s'')))" by code_simp
  then have g: "go_json (JObj ?m)" using k by (intro go_json_update) (simp_all add: utf8_ok_ascii)
  have sg: "json_of_map (json_of_map JStr) (made (two_maps ''self'' ''s'')) = JObj [(''self'', JObj []), (''s'', JObj [])]" by code_simp
  have "VerifySignatures demo_crypto (JObj ?m) [(''self'', []), (''s'', [(''k'', [CHR 0x00])])] = Ret ()"
    using g by (subst VerifySignatures_Ret) (auto simp: sg domain_sigs_ok_def update_conv')
  then show ?thesis using assms(1,2,4) s x
    by (simp add: prepare_answer_def Let_def ans_bind_def or_refuse_def act_bind_def act_try_def lift_db_def verify_or_invalidate_def
        server_of_row_def demo_env_def)
qed

lemma demo_held_fresh:
  assumes "db_healthy d" "db_ok d" "map_of (remote_servers d) ''s'' = Some ((demo_row 0)\<lparr>sr_valid_until_ts := 900\<rparr>)"
    and "env_now E 0 = 0" "m \<le> 900" "s = server_of_row ''s'' ((demo_row 0)\<lparr>sr_valid_until_ts := 900\<rparr>) []"
  shows "\<exists>w1. QueryRemoteKeys E ''s'' m (demo_world\<lparr>w_db := d\<rparr>) = (Ret (Some (held_in d s)), w1) \<and> w_db w1 = tick (tick (tick d))"
proof -
  have t: "pg_text ''s''" by (simp add: pg_text_def utf8_ok_ascii)
  have l: "loadHeld ''s'' (w_db (demo_world\<lparr>w_db := d\<rparr>)) = (Ret (Some s, Some (held_in d s)), tick (tick (tick d)))"
    using loadHeld_healthy [OF assms(1) t assms(2)] assms(3) by (auto simp: assms(6) demo_row_def unmarshal_empty)
  have now: "(0 :: int) = go_div (env_now E (w_tick (demo_world\<lparr>w_db := d\<rparr>))) 1000000" using assms(4) by (simp add: demo_world_def go_div_def)
  have "isFresh (rs_UpdatedTs s) (rs_ValidUntilTs s) m 0"
    using assms(5) by (simp add: assms(6) server_of_row_def demo_row_def isFresh_def remoteKeyLifespanMs_def int64_range_def go_div_def Let_def)
  then show ?thesis using query_quiet [OF l now, of m True "queryViaTrustedNotaries E"] by (auto simp: QueryRemoteKeys_def)
qed

lemma demo_found:
  "\<exists>c w1. QueryRemoteKeys demo_env ''s'' 500 (demo_world\<lparr>w_db := demo_held_db (\<lambda>_. Works)\<rparr>) = (Ret (Some c), w1) \<and>
     ck_RemoteServer c = server_of_row ''s'' ((demo_row 0)\<lparr>sr_valid_until_ts := 900\<rparr>) [] \<and> ck_Signatures c = [] \<and>
     ck_Keys c = [\<lparr>rk_ServerName = ''s'', rk_ID = ''k'', rk_PublicKey = ''AA'', rk_ExpiresTs = 0\<rparr>] \<and> GetAllOwnKeys (w_db w1) = (Ret [], tick (w_db w1))"
proof -
  let ?d = "demo_held_db (\<lambda>_. Works)" and ?s = "server_of_row ''s'' ((demo_row 0)\<lparr>sr_valid_until_ts := 900\<rparr>) []"
  have h: "db_healthy ?d" by (simp add: db_healthy_def demo_held_db_def empty_db_def)
  have "map_of (remote_servers ?d) ''s'' = Some ((demo_row 0)\<lparr>sr_valid_until_ts := 900\<rparr>)" "env_now demo_env 0 = 0"
    by (simp_all add: demo_held_db_def demo_env_def)
  then obtain w1 where w1: "QueryRemoteKeys demo_env ''s'' 500 (demo_world\<lparr>w_db := ?d\<rparr>) = (Ret (Some (held_in ?d ?s)), w1)" "w_db w1 = tick (tick (tick ?d))"
    using demo_held_fresh [OF h demo_held_ok, of demo_env 500 ?s] by auto
  have "held_in ?d ?s = \<lparr>ck_RemoteServer = ?s, ck_Signatures = [], ck_Keys = [\<lparr>rk_ServerName = ''s'', rk_ID = ''k'', rk_PublicKey = ''AA'', rk_ExpiresTs = 0\<rparr>]\<rparr>"
    by (simp add: held_in_def selectRemoteKeys_def selectRemoteSignatures_def server_of_row_def) (simp add: demo_held_db_def empty_db_def key_of_row_def)
  moreover have "GetAllOwnKeys (w_db w1) = (Ret [], tick (w_db w1))"
  proof -
    have "db_healthy (w_db w1)" "self_keys (w_db w1) = []" using h by (simp_all add: w1(2) db_healthy_def) (simp add: demo_held_db_def empty_db_def)
    then show ?thesis by (simp add: GetAllOwnKeys_healthy)
  qed
  ultimately show ?thesis using w1(1) by auto
qed

lemma demo_served:
  "\<exists>m w'. findAndPrepareKeys demo_env ''s'' 500 (demo_world\<lparr>w_db := demo_held_db (\<lambda>_. Works)\<rparr>) = (Ret (Inr m), w') \<and> m \<noteq> []"
proof -
  obtain c w1 where c: "QueryRemoteKeys demo_env ''s'' 500 (demo_world\<lparr>w_db := demo_held_db (\<lambda>_. Works)\<rparr>) = (Ret (Some c), w1)"
    "ck_RemoteServer c = server_of_row ''s'' ((demo_row 0)\<lparr>sr_valid_until_ts := 900\<rparr>) []" "ck_Signatures c = []"
    "ck_Keys c = [\<lparr>rk_ServerName = ''s'', rk_ID = ''k'', rk_PublicKey = ''AA'', rk_ExpiresTs = 0\<rparr>]" "GetAllOwnKeys (w_db w1) = (Ret [], tick (w_db w1))"
    using demo_found by blast
  obtain m where m: "prepare_answer demo_env c w1 = (Ret (Inr m), w1\<lparr>w_db := tick (w_db w1)\<rparr>)" "m \<noteq> []"
    using demo_prepared [OF c(2-5)] by blast
  have "findAndPrepareKeys demo_env ''s'' 500 (demo_world\<lparr>w_db := demo_held_db (\<lambda>_. Works)\<rparr>) = (Ret (Inr m), w1\<lparr>w_db := tick (w_db w1)\<rparr>)"
    using c m(1) by (simp add: findAndPrepareKeys_def ans_bind_Inr or_refuse_Inr server_of_row_def)
  with m(2) show ?thesis by blast
qed

theorem served_answers_verify_witness:
  "\<exists>expanded w' pks. findAndPrepareKeys demo_env ''s'' 500 (demo_world\<lparr>w_db := demo_held_db (\<lambda>_. Works)\<rparr>) = (Ret (Inr expanded), w') \<and>
     expanded \<noteq> [] \<and> VerifySignatures demo_crypto (JObj expanded) pks = Ret ()"
proof -
  obtain m w' where f: "findAndPrepareKeys demo_env ''s'' 500 (demo_world\<lparr>w_db := demo_held_db (\<lambda>_. Works)\<rparr>) = (Ret (Inr m), w')" "m \<noteq> []"
    using demo_served by blast
  have "env_crypto demo_env = demo_crypto" by (simp add: demo_env_def)
  with served_answers_verify [OF f] f show ?thesis by auto
qed

subsection \<open>A batch\<close>

text \<open>Preparing an answer reports its errors as responses: it never fails itself.\<close>

definition no_fail :: "'a io \<Rightarrow> bool" where
  "no_fail m \<longleftrightarrow> (\<forall>w e. fst (m w) \<noteq> Fail e)"

lemma no_fail_bind:
  assumes "no_fail m" "\<And>x. no_fail (g x)"
  shows "no_fail (act_bind m g)"
  unfolding no_fail_def
proof (intro allI)
  fix w e
  have m: "fst (m w) \<noteq> Fail e'" for e' using assms(1) by (simp add: no_fail_def)
  show "fst (act_bind m g w) \<noteq> Fail e"
  proof (cases "m w")
    case (Pair r w')
    then show ?thesis using m assms(2) by (cases r) (auto simp: act_bind_def no_fail_def)
  qed
qed

lemma no_fail_ans_bind: "no_fail m \<Longrightarrow> (\<And>x. no_fail (f x)) \<Longrightarrow> no_fail (ans_bind m f)"
  unfolding ans_bind_def by (rule no_fail_bind) (auto simp: no_fail_def split: sum.split)

lemma no_fail_or_refuse: "no_fail (or_refuse e m)"
proof -
  have "fst (or_refuse e m w) \<noteq> Fail e'" for w e'
    by (cases "m w"; cases "fst (m w)") (auto simp: or_refuse_def act_bind_try)
  then show ?thesis by (simp add: no_fail_def)
qed

lemma no_fail_pure: "(\<And>e. r \<noteq> Fail e) \<Longrightarrow> no_fail (act_pure r)" "no_fail (act_ret x)"
  by (simp_all add: no_fail_def)

lemma put_entry_no_Fail [simp]: "put_entry d i v m \<noteq> Fail e"
  by (simp add: put_entry_def split: option.split)

lemma sign_with_own_keys_no_Fail: "sign_with_own_keys C self obj ks acc \<noteq> Fail e"
proof (induction C self obj ks acc rule: sign_with_own_keys.induct)
  case (2 C self obj key ks sigs pks)
  show ?case
  proof (cases "LoadKey key")
    case (Ret l)
    show ?thesis
    proof (cases "GetSignatureOfObject C obj (sk_Priv l)")
      case s: (Ret s)
      show ?thesis
        using "2.IH" [OF Ret s] Ret s
        by (cases "put_entry self (sk_ID l) s sigs"; cases "put_entry self (sk_ID l) (sk_Pub l) pks") auto
    qed (use Ret in simp_all)
  qed simp_all
qed simp

lemma append_signatures_no_Fail: "append_signatures ss sigs \<noteq> Fail e"
proof (induction ss arbitrary: sigs)
  case (Cons s ss)
  then show ?case by (cases "put_entry (sg_ServerName s) (sg_KeyID s) (sg_Signature s) sigs") auto
qed simp

lemma no_fail_find: "no_fail (findAndPrepareKeys E n m)"
proof -
  have v: "no_fail (verify_or_invalidate E n' x pks)" for n' x pks
  proof -
    have "fst (verify_or_invalidate E n' x pks w) \<noteq> Fail e" for w e
      by (cases "InvalidateHeld n' (w_db w)"; cases "fst (InvalidateHeld n' (w_db w))")
        (auto simp: verify_or_invalidate_def act_bind_try lift_db_def split: go.split)
    then show ?thesis by (simp add: no_fail_def)
  qed
  have "no_fail (prepare_answer E c)" for c
    unfolding prepare_answer_def Let_def
    by (auto intro!: no_fail_ans_bind no_fail_or_refuse no_fail_pure no_fail_bind v
        simp: sign_with_own_keys_no_Fail append_signatures_no_Fail split: prod.split)
  then show ?thesis
    unfolding findAndPrepareKeys_def
    by (auto intro!: no_fail_ans_bind no_fail_or_refuse no_fail_pure split: option.split)
qed

lemma find_outcome: "(\<exists>p. fst (findAndPrepareKeys E n m w) = Panic p) \<or> (\<exists>x. fst (findAndPrepareKeys E n m w) = Ret x)"
  using no_fail_find [of E n m] by (cases "fst (findAndPrepareKeys E n m w)") (auto simp: no_fail_def)

text \<open>The slots after a run of lookups, whatever their order was.\<close>

lemma run_lookups_slots:
  "run_lookups E items sch results w = (res, w') \<Longrightarrow> set sch \<subseteq> {..<length items} \<Longrightarrow> length results = length items \<Longrightarrow> distinct sch \<Longrightarrow>
   (\<exists>p. res = Panic p) \<or> (\<exists>rs. res = Ret rs \<and> length rs = length items \<and>
     (\<forall>i < length items. if i \<in> set sch then \<exists>u u'. findAndPrepareKeys E (fst (items ! i)) (snd (items ! i)) u = (Ret (rs ! i), u') else rs ! i = results ! i))"
proof (induction sch arbitrary: results w)
  case (Cons i sch)
  obtain r v where r: "findAndPrepareKeys E (fst (items ! i)) (snd (items ! i)) w = (r, v)" by force
  show ?case
  proof (cases r)
    case (Ret x)
    then have run: "run_lookups E items sch (results[i := x]) v = (res, w')" using Cons.prems(1) r by (simp add: act_bind_def)
    have "set sch \<subseteq> {..<length items}" "length (results[i := x]) = length items" "distinct sch" using Cons.prems(2-4) by simp_all
    from Cons.IH [OF run this] show ?thesis
    proof (elim disjE exE conjE)
      fix rs assume rs: "res = Ret rs" "length rs = length items"
        "\<forall>j < length items. if j \<in> set sch then \<exists>u u'. findAndPrepareKeys E (fst (items ! j)) (snd (items ! j)) u = (Ret (rs ! j), u')
           else rs ! j = results[i := x] ! j"
      have "if j \<in> set (i # sch) then \<exists>u u'. findAndPrepareKeys E (fst (items ! j)) (snd (items ! j)) u = (Ret (rs ! j), u') else rs ! j = results ! j"
        if "j < length items" for j
      proof (cases "j = i")
        case True
        then have "rs ! j = x" using rs(3) that Cons.prems(3,4) by auto
        then show ?thesis using True r Ret by auto
      next
        case False
        then show ?thesis using rs(3) that by auto
      qed
      then show ?thesis using rs(1,2) by blast
    qed auto
  next
    case (Fail e)
    then show ?thesis using r find_outcome [of E "fst (items ! i)" "snd (items ! i)" w] by auto
  next
    case (Panic p)
    then show ?thesis using Cons.prems(1) r by (auto simp: act_bind_def)
  qed
qed auto

text \<open>Any order of the map visits each of its entries once.\<close>

lemma mset_iterate: "mset (iterate order xs) = mset xs"
proof (cases "sort (order (length xs)) = [0..<length xs]")
  case True
  then have "mset (order (length xs)) = mset [0..<length xs]" by (metis mset_sort)
  then have "mset (map ((!) xs) (order (length xs))) = mset (map ((!) xs) [0..<length xs])" by simp
  then show ?thesis using True by (simp add: iterate_def map_nth)
qed (simp add: iterate_def)

lemma length_iterate [simp]: "length (iterate order xs) = length xs"
  using mset_iterate [of order xs] by (metis size_mset)

lemma max_min_valid_eq: "max_min_valid qs m = Max (insert m (set (map (\<lambda>(_, q). lc_MinValidTs q) qs)))"
proof (induction qs arbitrary: m)
  case (Cons q qs)
  obtain k c where q: "q = (k, c)" by force
  have "max_min_valid (q # qs) m = Max (insert (max m (lc_MinValidTs c)) (set (map (\<lambda>(_, q). lc_MinValidTs q) qs)))"
    using Cons by (simp add: q max_def)
  also have "\<dots> = Max (insert m (set (map (\<lambda>(_, q). lc_MinValidTs q) (q # qs))))"
    by (cases "set qs = {}") (simp_all add: q Max_insert ac_simps)
  finally show ?case .
qed simp

definition asked_validity :: "env \<Rightarrow> LookupCriteria nilmap \<Rightarrow> int \<Rightarrow> bool" where
  "asked_validity E c m \<longleftrightarrow>
     (let largest = Max (insert 0 (set (map (\<lambda>(_, q). lc_MinValidTs q) (nil_entries c))))
      in if 0 < largest then m = largest else \<exists>t. m = go_div (env_now E t) 1000000)"

lemma asked_validity_eq: "asked_validity E c m \<longleftrightarrow>
    (if 0 < max_min_valid (nil_entries c) 0 then m = max_min_valid (nil_entries c) 0 else \<exists>t. m = go_div (env_now E t) 1000000)"
  by (simp add: asked_validity_def max_min_valid_eq Let_def)

lemma lookup_items_names:
  "lookup_items E keys w = (Ret items, w') \<Longrightarrow> length items = length keys \<and>
    (\<forall>i < length keys. fst (items ! i) = fst (keys ! i) \<and> asked_validity E (snd (keys ! i)) (snd (items ! i)))"
proof (induction keys arbitrary: items w)
  case (Cons k keys)
  obtain d q where k: "k = (d, q)" by force
  obtain m rest v where m: "items = (d, m) # rest" "lookup_items E keys v = (Ret rest, w')" "asked_validity E q m"
    using Cons.prems
    by (cases "max_min_valid (nil_entries q) 0 \<le> 0") (auto simp: k Let_def act_bind_eq_Ret_iff NowMillis_def asked_validity_eq)
  have "fst (items ! i) = fst ((k # keys) ! i) \<and> asked_validity E (snd ((k # keys) ! i)) (snd (items ! i))" if "i < length (k # keys)" for i
    using that Cons.IH [OF m(2)] m(1,3) k by (cases i) auto
  then show ?case using Cons.IH [OF m(2)] m(1) by auto
qed simp

lemma lookup_items_total: "\<exists>items w'. lookup_items E keys w = (Ret items, w')"
proof (induction keys arbitrary: w)
  case (Cons k keys)
  obtain d q where k: "k = (d, q)" by force
  show ?case using Cons.IH [of w] Cons.IH [of "w\<lparr>w_tick := Suc (w_tick w)\<rparr>"]
    by (auto simp: k Let_def act_bind_eq_Ret_iff NowMillis_def)
qed simp

subsection \<open>Properties of the batch handler\<close>

text \<open>The servers of a request are the keys of a map, so no two are the same.\<close>

lemma dec_map_wf: "dec_map elem j old = Some m \<Longrightarrow> wf_gomap (nil_entries old) \<Longrightarrow> wf_gomap (nil_entries m)"
proof (cases j)
  case (JObj kvs)
  assume m: "dec_map elem j old = Some m" and old: "wf_gomap (nil_entries old)"
  obtain es where es: "m = Some es"
    "dec_members (\<lambda>k v m. map_option (\<lambda>x. AList.update k x m) (elem v)) kvs (nil_entries old) = Some es"
    using m by (auto simp: dec_map_def JObj)
  have "wf_gomap es" by (rule dec_members_inv [OF es(2), where P = wf_gomap]) (use old in auto)
  then show ?thesis using es(1) by simp
qed (auto simp: dec_map_def)

lemma unmarshal_lookup_wf: "unmarshal_lookup b = Ret (Some keys) \<Longrightarrow> wf_gomap (nil_entries keys)"
proof -
  assume u: "unmarshal_lookup b = Ret (Some keys)"
  obtain j where j: "dec_struct (\<lambda>k v x. if field_named [''server_keys''] k = None then Some x
             else dec_map (\<lambda>v. dec_map dec_LookupCriteria v None) v x) j None = Some keys"
    using u by (auto simp: unmarshal_lookup_def split: option.splits json.splits)
  show ?thesis
  proof (cases j)
    case (JObj kvs)
    then have "dec_members (\<lambda>k v x. if field_named [''server_keys''] k = None then Some x
             else dec_map (\<lambda>v. dec_map dec_LookupCriteria v None) v x) kvs None = Some keys"
      using j by (simp add: dec_struct_def)
    then show ?thesis
      by (rule dec_members_inv [where P = "\<lambda>x. wf_gomap (nil_entries x)"])
        (auto split: if_splits intro: dec_map_wf simp: wf_gomap_def [of "[]"])
  qed (use j in \<open>auto simp: dec_struct_def wf_gomap_def [of "[]"]\<close>)
qed

text \<open>
  C23: a batch is answered as a whole. The servers of a well-formed batch are visited in some order,
  since they are the keys of a map; whatever that order is, and whatever the order in which the
  lookups run, the answer has status 200 and lists, in the order of the visit, the answers of the
  lookups that produced one. Each server of the request is looked up for exactly one slot; a server
  that failed is left out and takes nobody else with it; and each is looked up with the largest
  validity that the request asks of any of its keys, or with the present time when that is not
  positive.
\<close>

theorem batch_answers_each_once:
  assumes "QueryKeysBatch E order r w = (res, w')" and "\<not> rq_body_broken r" and "unmarshal_lookup (rq_body r) = Ret (Some keys)"
    and "distinct (bo_schedule order (length (nil_entries keys)))" and "set (bo_schedule order (length (nil_entries keys))) = {..<length (nil_entries keys)}"
  shows "(\<exists>p. res = Panic p) \<or>
    (\<exists>qs rs. mset qs = mset (nil_entries keys) \<and> distinct (map fst qs) \<and> length rs = length qs \<and>
      res = Ret (JsonReply (JObj [(''server_keys'', JArr (concat (map (\<lambda>a. case a of Inl _ \<Rightarrow> [] | Inr expanded \<Rightarrow> [JObj expanded]) rs)))])) \<and>
      (\<forall>i < length qs. \<exists>m u u'. findAndPrepareKeys E (fst (qs ! i)) m u = (Ret (rs ! i), u') \<and>
        (let largest = Max (insert 0 (set (map (\<lambda>(_, q). lc_MinValidTs q) (nil_entries (snd (qs ! i))))))
         in if 0 < largest then m = largest else \<exists>t. m = go_div (env_now E t) 1000000)))"
proof -
  let ?qs = "iterate (bo_iteration order) (nil_entries keys)" and ?n = "length (nil_entries keys)"
  obtain items v where items: "lookup_items E ?qs w = (Ret items, v)" using lookup_items_total by blast
  note names = lookup_items_names [OF items, unfolded length_iterate]
  obtain out u where out: "run_lookups E items (bo_schedule order ?n) (replicate ?n (Inr [])) v = (out, u)" by force
  have eq: "(res, w') = (case out of Ret rs \<Rightarrow> (Ret (JsonReply (batched (answered rs))), u) | Fail e \<Rightarrow> (Fail e, u) | Panic p \<Rightarrow> (Panic p, u))"
    using assms(1-3) items names out by (auto simp: QueryKeysBatch_def read_body_def act_bind_def split: go.split)
  have "distinct (map fst ?qs)"
  proof -
    have "distinct (map fst (nil_entries keys))" using unmarshal_lookup_wf [OF assms(3)] by (simp add: wf_gomap_def)
    moreover have "mset (map fst ?qs) = mset (map fst (nil_entries keys))" by (simp add: mset_iterate)
    ultimately show ?thesis by (metis mset_eq_imp_distinct_iff)
  qed
  moreover have json: "batched (answered rs) = JObj [(''server_keys'', JArr (concat (map (\<lambda>a. case a of Inl _ \<Rightarrow> [] | Inr expanded \<Rightarrow> [JObj expanded]) rs)))]" for rs
    by (auto simp: batched_def answered_def map_concat comp_def intro!: arg_cong [where f = concat] split: sum.split)
  moreover from run_lookups_slots [OF out] names assms(4,5) have "(\<exists>p. out = Panic p) \<or> (\<exists>rs. out = Ret rs \<and> length rs = ?n \<and>
      (\<forall>i < ?n. \<exists>u u'. findAndPrepareKeys E (fst (items ! i)) (snd (items ! i)) u = (Ret (rs ! i), u')))"
    by auto
  ultimately show ?thesis
  proof (elim disjE exE conjE)
    fix rs assume rs: "out = Ret rs" "length rs = ?n"
      "\<forall>i < ?n. \<exists>u u'. findAndPrepareKeys E (fst (items ! i)) (snd (items ! i)) u = (Ret (rs ! i), u')"
    have slot: "\<exists>m u u'. findAndPrepareKeys E (fst (?qs ! i)) m u = (Ret (rs ! i), u') \<and> asked_validity E (snd (?qs ! i)) m" if "i < ?n" for i
      using rs(3) names that by metis
    show ?thesis
      using slot eq \<open>distinct (map fst ?qs)\<close> rs(1,2)
      by (intro disjI2 exI [of _ ?qs] exI [of _ rs]) (simp add: json mset_iterate asked_validity_def)
  qed (use eq in auto)
qed

text \<open>
  A batch that is not one. A body that cannot be read gets status 500, one that is no JSON
  status 400, before anything is looked up; but the document \<open>null\<close> makes the handler panic.
\<close>

theorem batch_body_errors:
  "(rq_body_broken r \<longrightarrow> QueryKeysBatch E order r w = (Ret (ErrorReply (InternalServerError ''Failed to read body'')), w)) \<and>
   (\<not> rq_body_broken r \<and> json_parse (rq_body r) = None \<longrightarrow>
     QueryKeysBatch E order r w = (Ret (ErrorReply (BadRequest ''Body not JSON'')), w)) \<and>
   (\<not> rq_body_broken r \<and> json_parse (rq_body r) = Some JNull \<longrightarrow> (\<exists>p. QueryKeysBatch E order r w = (Panic p, w)))"
  by (simp add: QueryKeysBatch_def read_body_def unmarshal_lookup_def)

definition demo_request :: "string \<Rightarrow> http_request" where
  "demo_request b = \<lparr>rq_Method = ''GET'', rq_vars = [], rq_query = [], rq_header = [], rq_body = b, rq_body_broken = False\<rparr>"

text \<open>The map is visited backwards, the lookups run forwards.\<close>

definition demo_order :: batch_order where
  "demo_order = \<lparr>bo_iteration = (\<lambda>n. rev [0..<n]), bo_schedule = (\<lambda>n. [0..<n])\<rparr>"

theorem batch_body_errors_witness:
  "\<exists>p. QueryKeysBatch demo_env demo_order (demo_request '' null'') demo_world = (Panic p, demo_world)"
proof -
  have "\<not> rq_body_broken (demo_request '' null'') \<and> json_parse (rq_body (demo_request '' null'')) = Some JNull" by code_simp
  then show ?thesis using batch_body_errors by blast
qed

definition demo_batch :: string where
  "demo_batch = json_text (JObj [(''server_keys'', JObj [(''s'', JObj [(''k'', JObj [(''minimum_valid_until_ts'', JNum 500)])])])])"

lemma demo_batch_read: "unmarshal_lookup demo_batch = Ret (Some (Some [(''s'', Some [(''k'', \<lparr>lc_MinValidTs = 500\<rparr>)])]))"
  by code_simp

theorem batch_answers_each_once_witness:
  "\<exists>m w'. QueryKeysBatch demo_env demo_order (demo_request demo_batch) (demo_world\<lparr>w_db := demo_held_db (\<lambda>_. Works)\<rparr>)
       = (Ret (JsonReply (JObj [(''server_keys'', JArr [JObj m])])), w') \<and> m \<noteq> [] \<and>
     (\<exists>rs u u'. findAndPrepareKeys demo_env ''s'' 500 u = (Ret (rs ! 0), u') \<and>
        [JObj m] = concat (map (\<lambda>a. case a of Inl _ \<Rightarrow> [] | Inr expanded \<Rightarrow> [JObj expanded]) rs))"
proof -
  let ?w = "demo_world\<lparr>w_db := demo_held_db (\<lambda>_. Works)\<rparr>" and ?ks = "Some [(''s'', Some [(''k'', \<lparr>lc_MinValidTs = 500\<rparr>)])]"
  obtain m w' where f: "findAndPrepareKeys demo_env ''s'' 500 ?w = (Ret (Inr m), w')" "m \<noteq> []"
    using demo_served by blast
  have b: "\<not> rq_body_broken (demo_request demo_batch)" "unmarshal_lookup (rq_body (demo_request demo_batch)) = Ret (Some ?ks)"
    using demo_batch_read by (simp_all add: demo_request_def)
  have q: "QueryKeysBatch demo_env demo_order (demo_request demo_batch) ?w = (Ret (JsonReply (JObj [(''server_keys'', JArr [JObj m])])), w')"
    using b f(1) by (simp add: QueryKeysBatch_def read_body_def act_bind_def answered_def batched_def iterate_def demo_order_def)
  have "distinct (bo_schedule demo_order (length (nil_entries ?ks)))"
    "set (bo_schedule demo_order (length (nil_entries ?ks))) = {..<length (nil_entries ?ks)}" by (auto simp: demo_order_def)
  from batch_answers_each_once [OF q b this] obtain qs rs where r: "mset qs = {#(''s'', Some [(''k'', \<lparr>lc_MinValidTs = 500\<rparr>)])#}"
    "[JObj m] = concat (map (\<lambda>a. case a of Inl _ \<Rightarrow> [] | Inr expanded \<Rightarrow> [JObj expanded]) rs)"
    "\<forall>i < length qs. \<exists>m u u'. findAndPrepareKeys demo_env (fst (qs ! i)) m u = (Ret (rs ! i), u') \<and>
        (let largest = Max (insert 0 (set (map (\<lambda>(_, q). lc_MinValidTs q) (nil_entries (snd (qs ! i))))))
         in if 0 < largest then m = largest else \<exists>t. m = go_div (env_now demo_env t) 1000000)"
    by auto
  have "qs = [(''s'', Some [(''k'', \<lparr>lc_MinValidTs = 500\<rparr>)])]" using r(1) by simp
  then have "\<exists>u u'. findAndPrepareKeys demo_env ''s'' 500 u = (Ret (rs ! 0), u')" using r(3) by simp
  with q f(2) r(2) show ?thesis by blast
qed

subsection \<open>Who may pass the authorization check\<close>

lemma all_public_keys_entry:
  "all_public_keys ks pks = Ret pks' \<Longrightarrow> entry pks' d i = Some b \<Longrightarrow>
     entry pks d i = Some b \<or> (\<exists>k \<in> set ks. rk_ServerName k = d \<and> rk_ID k = i \<and> DecodeUnpaddedBase64String (rk_PublicKey k) = Ret b)"
proof (induction ks arbitrary: pks)
  case (Cons k ks)
  obtain c p where c: "DecodeUnpaddedBase64String (rk_PublicKey k) = Ret c" "put_entry (rk_ServerName k) (rk_ID k) c pks = Ret p"
    "all_public_keys ks p = Ret pks'"
    using Cons.prems(1) by (auto simp: go_bind_eq_Ret_iff)
  from Cons.IH [OF c(3) Cons.prems(2)] show ?case
    using put_entry_Ret [OF c(2), of d i] c(1) by (auto split: if_splits)
qed simp

lemma entry_single: "entry [(x, [])] d i = None"
  by (simp add: entry_def)

lemma auth_signatures:
  "map_of (auth_object method uri destination b params) ''signatures'' =
     Some (JObj [(get_value params ''origin'', JObj [(get_value params ''key'', JStr (get_value params ''sig''))])])"
  by (simp add: auth_object_def Let_def update_conv' split: option.split)

lemma check_auth_accepts:
  assumes "check_auth C obj c = Ret (JsonReply j)"
  obtains pks where "all_public_keys (ck_Keys c) [(rs_ServerName (ck_RemoteServer c), [])] = Ret pks"
    "VerifySignatures C (JObj obj) pks = Ret ()" "j = JObj []"
  using assms by (auto simp: check_auth_def EmptyResponse_def split: go.splits)

lemma auth_key:
  assumes "go_json (JObj (auth_object method uri destination b params))"
    and "all_public_keys (ck_Keys c) [(rs_ServerName (ck_RemoteServer c), [])] = Ret pks"
    and "VerifySignatures C (JObj (auth_object method uri destination b params)) pks = Ret ()"
  shows "\<exists>k \<in> set (ck_Keys c). \<exists>pub sig. rk_ServerName k = get_value params ''origin'' \<and> rk_ID k = get_value params ''key'' \<and>
      DecodeUnpaddedBase64String (rk_PublicKey k) = Ret pub \<and> length pub = 32 \<and>
      DecodeUnpaddedBase64String (get_value params ''sig'') = Ret sig \<and>
      cr_verify C pub (EncodeCanonicalJson (signed_part (auth_object method uri destination b params))) sig"
proof -
  let ?n = "get_value params ''origin''"
  obtain dk pub sig where d: "map_of pks ?n = Some dk" "map_of dk (get_value params ''key'') = Some pub" "b64_decode (get_value params ''sig'') = Some sig"
    "length pub = 32" "cr_verify C pub (EncodeCanonicalJson (signed_part (auth_object method uri destination b params))) sig"
    using assms(3) unfolding VerifySignatures_Ret [OF assms(1)] auth_signatures by (auto simp: domain_sigs_ok_def key_sig_ok_def)
  have "entry pks ?n (get_value params ''key'') = Some pub" by (simp add: entry_def d)
  then obtain k where "k \<in> set (ck_Keys c)" "rk_ServerName k = ?n" "rk_ID k = get_value params ''key''" "DecodeUnpaddedBase64String (rk_PublicKey k) = Ret pub"
    using all_public_keys_entry [OF assms(2)] by (fastforce simp: entry_single)
  then show ?thesis using d by (auto simp: DecodeUnpaddedBase64String_def)
qed

text \<open>
  The bodies whose numbers the reader takes as Go does: outside of string literals there is no
  fraction, no exponent, no negative zero and no number of more than fifteen digits.
\<close>

fun outside_strings :: "bool \<Rightarrow> string \<Rightarrow> string" where
  "outside_strings inside [] = []"
| "outside_strings inside (c # s) =
     (if \<not> inside then c # outside_strings (c = dquote) s
      else if c = backslash then (case s of [] \<Rightarrow> [] | _ # s' \<Rightarrow> outside_strings True s')
      else outside_strings (c \<noteq> dquote) s)"

definition exact_numbers :: "string \<Rightarrow> bool" where
  "exact_numbers b \<longleftrightarrow> (let t = outside_strings False b in
     CHR ''.'' \<notin> set t \<and> CHR ''E'' \<notin> set t \<and>
     list_all (\<lambda>i. case drop i t of
         a # c # _ \<Rightarrow> \<not> (digit_val a \<noteq> None \<and> c = CHR ''e'') \<and> \<not> (a = CHR ''-'' \<and> c = CHR ''0'')
       | _ \<Rightarrow> True) [0..<length t] \<and>
     list_all (\<lambda>i. length (takeWhile (\<lambda>c. digit_val c \<noteq> None) (drop i t)) \<le> 15) [0..<length t])"

text \<open>What the checked object is made of, without its signatures.\<close>

lemma parsed_content_Nil: "parsed_content [] = None"
  by code_simp

lemma auth_object_eq:
  "auth_object method uri destination b params =
     [(''method'', JStr method), (''uri'', JStr uri), (''origin'', JStr (get_value params ''origin'')), (''destination'', JStr destination),
      (''signatures'', JObj [(get_value params ''origin'', JObj [(get_value params ''key'', JStr (get_value params ''sig''))])])] @
     (case parsed_content b of None \<Rightarrow> [] | Some c \<Rightarrow> [(''content'', c)])"
  by (cases b) (auto simp: auth_object_def Let_def parsed_content_Nil split: option.split)

lemma auth_signed_part:
  "signed_part (auth_object method uri destination b params) =
     [(''method'', JStr method), (''uri'', JStr uri), (''origin'', JStr (get_value params ''origin'')), (''destination'', JStr destination)] @
     (case parsed_content b of None \<Rightarrow> [] | Some c \<Rightarrow> [(''content'', c)])"
  by (simp add: auth_object_eq signed_part_def split: option.split)

lemma parsed_content_ok: "parsed_content b = Some c \<Longrightarrow> json_depth c < 10000 \<Longrightarrow> go_json_upto 9999 c"
proof -
  assume p: "parsed_content b = Some c" and d: "json_depth c < 10000"
  obtain v where "json_parse b = Some v" "c = go_value v"
    using p by (auto simp: parsed_content_def split: option.splits json.splits)
  then have "go_json c" using json_parse_go_json by blast
  then show ?thesis using d by (simp add: go_json_def go_json_upto_def)
qed

lemma auth_object_go_json:
  assumes "list_all utf8_ok [method, uri, destination, get_value params ''origin'', get_value params ''key'', get_value params ''sig'']"
    and "\<forall>v. parsed_content b = Some v \<longrightarrow> json_depth v < 10000"
  shows "go_json (JObj (auth_object method uri destination b params))"
  using assms parsed_content_ok [of b]
  by (auto simp: auth_object_eq go_json_upto go_json_upto_JObj wf_gomap_def utf8_ok_ascii split: option.split)

text \<open>
  C13: who passes. A request is accepted only with an \<open>X-Matrix\<close> header. Then, for header values
  that are text, its signature was made with a key that the named origin is recorded to have, over
  the canonical form of an object with exactly these members: the method, the URI, the named origin
  and the destination as they were presented; and the content, which is the body when that reads
  as a JSON object or \<open>null\<close>. Any other body is no part of what was signed: the request is accepted
  although the signature says nothing of its body (\<open>unread_body_ignored\<close>).
\<close>

theorem accepted_request_signed_by_origin:
  assumes "VerifyAuthHeader E r w = (Ret (JsonReply j), w')" and "exact_numbers (rq_body r)"
  shows "\<exists>params meth uri destination origin key sig content signed c w1.
    meth = get_value (rq_header r) ''X-Keys-Method'' \<and> uri = trim_suffix ''?'' (get_value (rq_header r) ''X-Keys-Uri'') \<and>
    destination = get_value (rq_header r) ''X-Keys-Destination'' \<and>
    has_prefix ''X-Matrix '' (get_value (rq_header r) ''Authorization'') \<and>
    parse_auth_params (split_on (CHR '','') (split_on (CHR '' '') (get_value (rq_header r) ''Authorization'') ! 1)) [] = Ret params \<and>
    origin = get_value params ''origin'' \<and> key = get_value params ''key'' \<and> sig = get_value params ''sig'' \<and>
    content = (case json_parse (rq_body r) of None \<Rightarrow> None
       | Some v \<Rightarrow> (case go_value v of JObj m \<Rightarrow> Some (JObj m) | JNull \<Rightarrow> Some JNull | _ \<Rightarrow> None)) \<and>
    wf_gomap signed \<and>
    map_of signed = (map_of [(''method'', JStr meth), (''uri'', JStr uri), (''origin'', JStr origin), (''destination'', JStr destination)])
      (''content'' := content) \<and>
    QueryRemoteKeys E origin 0 w = (Ret (Some c), w1) \<and> j = JObj [] \<and>
    (list_all utf8_ok [meth, uri, destination, origin, key, sig] \<and> (\<forall>v. content = Some v \<longrightarrow> json_depth v < 10000) \<longrightarrow>
      (\<exists>k \<in> set (ck_Keys c). \<exists>pub raw. rk_ServerName k = origin \<and> rk_ID k = key \<and>
        DecodeUnpaddedBase64String (rk_PublicKey k) = Ret pub \<and> length pub = 32 \<and> DecodeUnpaddedBase64String sig = Ret raw \<and>
        cr_verify (env_crypto E) pub (EncodeCanonicalJson signed) raw))"
proof -
  let ?auth = "get_value (rq_header r) ''Authorization''"
  have body: "\<not> rq_body_broken r" "has_prefix ''X-Matrix '' ?auth"
    using assms(1) by (auto simp: VerifyAuthHeader_def read_body_def Let_def split: if_splits)
  obtain params where params: "parse_auth_params (split_on (CHR '','') (split_on (CHR '' '') ?auth ! 1)) [] = Ret params"
    using assms(1) body by (auto simp: VerifyAuthHeader_def read_body_def Let_def act_bind_eq_Ret_iff)
  let ?m = "get_value (rq_header r) ''X-Keys-Method''" and ?u = "trim_suffix ''?'' (get_value (rq_header r) ''X-Keys-Uri'')"
    and ?d = "get_value (rq_header r) ''X-Keys-Destination''" and ?n = "get_value params ''origin''"
  let ?obj = "auth_object ?m ?u ?d (rq_body r) params"
  obtain res w1 where res: "or_refuse (InternalServerError ''Failed to get remote server keys'') (QueryRemoteKeys E ?n 0) w = (Ret res, w1)"
    "(case res of Inl e \<Rightarrow> act_ret (ErrorReply e) | Inr None \<Rightarrow> act_pure (Panic ''nil pointer dereference'')
      | Inr (Some validKeys) \<Rightarrow> act_pure (check_auth (env_crypto E) ?obj validKeys)) w1 = (Ret (JsonReply j), w')"
    using assms(1) body params by (auto simp: VerifyAuthHeader_def read_body_def Let_def act_bind_eq_Ret_iff)
  obtain x where x: "res = Inr x" using res(2) by (cases res) simp_all
  obtain c where c: "QueryRemoteKeys E ?n 0 w = (Ret (Some c), w1)" "check_auth (env_crypto E) ?obj c = Ret (JsonReply j)"
    using res unfolding x or_refuse_Inr by (cases x) simp_all
  obtain pks where p: "all_public_keys (ck_Keys c) [(rs_ServerName (ck_RemoteServer c), [])] = Ret pks"
    "VerifySignatures (env_crypto E) (JObj ?obj) pks = Ret ()" "j = JObj []"
    using c(2) by (rule check_auth_accepts)
  let ?content = "case json_parse (rq_body r) of None \<Rightarrow> None
       | Some v \<Rightarrow> (case go_value v of JObj m \<Rightarrow> Some (JObj m) | JNull \<Rightarrow> Some JNull | _ \<Rightarrow> None)"
  have content: "parsed_content (rq_body r) = ?content" by (simp add: parsed_content_def)
  have signed: "wf_gomap (signed_part ?obj)" "map_of (signed_part ?obj) =
      (map_of [(''method'', JStr ?m), (''uri'', JStr ?u), (''origin'', JStr ?n), (''destination'', JStr ?d)])(''content'' := ?content)"
    unfolding auth_signed_part content [symmetric] by (auto simp: wf_gomap_def fun_eq_iff split: option.split)
  have key: "list_all utf8_ok [?m, ?u, ?d, ?n, get_value params ''key'', get_value params ''sig''] \<and> (\<forall>v. ?content = Some v \<longrightarrow> json_depth v < 10000) \<longrightarrow>
      (\<exists>k \<in> set (ck_Keys c). \<exists>pub raw. rk_ServerName k = ?n \<and> rk_ID k = get_value params ''key'' \<and>
        DecodeUnpaddedBase64String (rk_PublicKey k) = Ret pub \<and> length pub = 32 \<and> DecodeUnpaddedBase64String (get_value params ''sig'') = Ret raw \<and>
        cr_verify (env_crypto E) pub (EncodeCanonicalJson (signed_part ?obj)) raw)"
    unfolding content [symmetric] using auth_key [OF auth_object_go_json p(1,2)] by blast
  show ?thesis
    by (intro exI [of _ params] exI [of _ ?m] exI [of _ ?u] exI [of _ ?d] exI [of _ ?n] exI [of _ "get_value params ''key''"]
        exI [of _ "get_value params ''sig''"] exI [of _ ?content] exI [of _ "signed_part ?obj"] exI [of _ c] exI [of _ w1] conjI)
      (rule refl body(2) params signed c(1) p(3) key)+
qed

text \<open>A body that is no JSON object is not looked at: the request is handled as if it had none.\<close>

lemma unread_body_ignored:
  assumes "\<not> rq_body_broken r" and "parsed_content (rq_body r) = None"
  shows "VerifyAuthHeader E r w = VerifyAuthHeader E (r\<lparr>rq_body := []\<rparr>) w"
proof -
  have "auth_object m u d (rq_body r) params = auth_object m u d [] params" for m u d params
    by (simp add: auth_object_eq assms(2) parsed_content_Nil)
  then show ?thesis using assms(1) by (simp add: VerifyAuthHeader_def read_body_def Let_def)
qed

definition demo_auth_db :: db where
  "demo_auth_db = (demo_held_db (\<lambda>_. Works))\<lparr>remote_keys :=
     [\<lparr>kr_server_name = ''s'', kr_key_id = ''k'', kr_public_key_b64 = EncodeUnpaddedBase64ToString demo_pub, kr_expires_ts = 0\<rparr>]\<rparr>"

definition demo_auth_body :: string where
  "demo_auth_body = json_text (JObj [(''n'', JNum 12)])"

lemma demo_auth_body: "json_parse demo_auth_body = Some (JObj [(''n'', JNum 12)])" "exact_numbers demo_auth_body"
  by code_simp+

definition demo_auth_request :: http_request where
  "demo_auth_request = \<lparr>rq_Method = ''POST'', rq_vars = [], rq_query = [], rq_header = [(''X-Keys-Method'', ''GET''), (''X-Keys-Uri'', ''/x?''),
     (''X-Keys-Destination'', ''d''), (''Authorization'', ''X-Matrix origin=s,key=k,sig='' @ EncodeUnpaddedBase64ToString demo_pub)],
     rq_body = demo_auth_body, rq_body_broken = False\<rparr>"

lemma demo_auth_params:
  "parse_auth_params (split_on (CHR '','') (split_on (CHR '' '') (''X-Matrix origin=s,key=k,sig='' @ EncodeUnpaddedBase64ToString demo_pub) ! 1)) []
     = Ret [(''origin'', ''s''), (''key'', ''k''), (''sig'', EncodeUnpaddedBase64ToString demo_pub)]"
  by code_simp

lemma demo_auth_checked:
  assumes "ck_RemoteServer c = server_of_row ''s'' r a" and "ck_Keys c = [\<lparr>rk_ServerName = ''s'', rk_ID = ''k'',
      rk_PublicKey = EncodeUnpaddedBase64ToString demo_pub, rk_ExpiresTs = 0\<rparr>]"
    and "params = [(''origin'', ''s''), (''key'', ''k''), (''sig'', EncodeUnpaddedBase64ToString demo_pub)]"
  shows "check_auth demo_stamps (auth_object ''GET'' ''/x'' ''d'' demo_auth_body params) c = Ret (JsonReply (JObj []))"
proof -
  have g: "go_json (JObj (auth_object ''GET'' ''/x'' ''d'' demo_auth_body params))" unfolding assms(3) by code_simp
  have s: "map_of (auth_object ''GET'' ''/x'' ''d'' demo_auth_body params) ''signatures'' =
      Some (JObj [(''s'', JObj [(''k'', JStr (EncodeUnpaddedBase64ToString demo_pub))])])"
    unfolding auth_signatures assms(3) by (simp add: get_value_def)
  have "VerifySignatures demo_stamps (JObj (auth_object ''GET'' ''/x'' ''d'' demo_auth_body params)) [(''s'', [(''k'', demo_pub)])] = Ret ()"
    using g by (subst VerifySignatures_Ret)
      (auto simp: s domain_sigs_ok_def key_sig_ok_def b64_decode_encode demo_stamps_def demo_pub_def)
  then show ?thesis using assms(1,2) by (simp add: check_auth_def put_entry_def server_of_row_def EmptyResponse_def)
qed

theorem accepted_request_signed_by_origin_witness:
  "\<exists>w'. VerifyAuthHeader (demo_env\<lparr>env_crypto := demo_stamps\<rparr>) demo_auth_request (demo_world\<lparr>w_db := demo_auth_db\<rparr>) = (Ret (JsonReply (JObj [])), w') \<and>
     (\<exists>signed. map_of signed ''method'' = Some (JStr ''GET'') \<and> map_of signed ''uri'' = Some (JStr ''/x'') \<and>
        map_of signed ''destination'' = Some (JStr ''d'') \<and> map_of signed ''content'' = Some (JObj [(''n'', JNum 12)]) \<and> map_of signed ''origin'' \<noteq> None)"
proof -
  let ?E = "demo_env\<lparr>env_crypto := demo_stamps\<rparr>" and ?w = "demo_world\<lparr>w_db := demo_auth_db\<rparr>"
  let ?s = "server_of_row ''s'' ((demo_row 0)\<lparr>sr_valid_until_ts := 900\<rparr>) []"
  have db: "db_healthy demo_auth_db" "db_ok demo_auth_db" "env_now ?E 0 = 0"
    "map_of (remote_servers demo_auth_db) ''s'' = Some ((demo_row 0)\<lparr>sr_valid_until_ts := 900\<rparr>)"
    by (simp_all add: db_healthy_def demo_auth_db_def demo_held_db_def empty_db_def db_ok_def wf_gomap_def server_row_ok_def demo_row_def
        unmarshal_empty int4_ok_def known_server_def demo_env_def)
  obtain w1 where q: "QueryRemoteKeys ?E ''s'' 0 ?w = (Ret (Some (held_in demo_auth_db ?s)), w1)"
    using demo_held_fresh [OF db(1,2,4,3), of 0 ?s] by auto
  have "ck_Keys (held_in demo_auth_db ?s) = [\<lparr>rk_ServerName = ''s'', rk_ID = ''k'',
      rk_PublicKey = EncodeUnpaddedBase64ToString demo_pub, rk_ExpiresTs = 0\<rparr>]"
    by (simp add: held_in_def selectRemoteKeys_def server_of_row_def) (simp add: demo_auth_db_def key_of_row_def)
  then have c: "check_auth demo_stamps (auth_object ''GET'' ''/x'' ''d'' demo_auth_body [(''origin'', ''s''), (''key'', ''k''), (''sig'', EncodeUnpaddedBase64ToString demo_pub)])
      (held_in demo_auth_db ?s) = Ret (JsonReply (JObj []))"
    by (intro demo_auth_checked) (simp_all add: held_in_def)
  have h: "get_value (rq_header demo_auth_request) ''X-Keys-Method'' = ''GET''" "get_value (rq_header demo_auth_request) ''X-Keys-Destination'' = ''d''"
    "trim_suffix ''?'' (get_value (rq_header demo_auth_request) ''X-Keys-Uri'') = ''/x''" "has_prefix ''X-Matrix '' (get_value (rq_header demo_auth_request) ''Authorization'')"
    "get_value (rq_header demo_auth_request) ''Authorization'' = ''X-Matrix origin=s,key=k,sig='' @ EncodeUnpaddedBase64ToString demo_pub"
    "rq_body demo_auth_request = demo_auth_body" "\<not> rq_body_broken demo_auth_request" by code_simp+
  have v: "VerifyAuthHeader ?E demo_auth_request ?w = (Ret (JsonReply (JObj [])), w1)"
    using q c h demo_auth_params
    by (simp add: VerifyAuthHeader_def read_body_def Let_def act_bind_def or_refuse_def act_try_def get_value_def [of _ "''origin''"])
  have exact: "exact_numbers (rq_body demo_auth_request)" by (simp add: h(6) demo_auth_body)
  have "go_value (JObj [(''n'', JNum 12)]) = JObj [(''n'', JNum 12)]" by code_simp
  then have "(case json_parse (rq_body demo_auth_request) of None \<Rightarrow> None
       | Some v \<Rightarrow> (case go_value v of JObj m \<Rightarrow> Some (JObj m) | JNull \<Rightarrow> Some JNull | _ \<Rightarrow> None)) = Some (JObj [(''n'', JNum 12)])"
    by (simp add: h(6) demo_auth_body)
  with accepted_request_signed_by_origin [OF v exact] h(1-3) obtain origin signed where
    "map_of signed = (map_of [(''method'', JStr ''GET''), (''uri'', JStr ''/x''), (''origin'', JStr origin), (''destination'', JStr ''d'')])
      (''content'' := Some (JObj [(''n'', JNum 12)]))" by auto
  then show ?thesis using v by (intro exI [of _ w1] conjI exI [of _ signed]) simp_all
qed

subsection \<open>The server's own document\<close>

lemma go_bind_eq_Fail_iff: "go_bind r f = Fail e \<longleftrightarrow> r = Fail e \<or> (\<exists>x. r = Ret x \<and> f x = Fail e)"
  by (cases r) simp_all

lemma GetSignatureOfObject_Ret:
  assumes "go_json (JObj m)" "GetSignatureOfObject C (JObj m) key = Ret s"
  shows "s = EncodeUnpaddedBase64ToString (cr_sign C key (EncodeCanonicalJson (signed_part m)))"
proof -
  have g: "go_json (JObj (sorted_members m))" using assms(1) by (simp add: go_json_upto)
  have wf: "wf_gomap m" using assms(1) by simp
  have part: "InterfaceToMap (JObj (AList.delete ''signatures'' (AList.delete ''unsigned'' (sorted_members m)))) =
      Ret (sorted_members (signed_part (sorted_members m)))"
    using go_json_signed_part [OF g] by (simp add: signed_part_def InterfaceToMap_go_json)
  have no_fail: "SignObject C (sorted_members m) ''a'' ''a'' key \<noteq> Fail e" for e
  proof -
    have "assert_map v \<noteq> Fail e" for v by (cases v rule: option.exhaust; cases "the v") (auto simp: assert_map_def)
    moreover have "ed25519_Sign C key c \<noteq> Fail e" for c by (simp add: ed25519_Sign_def)
    ultimately show ?thesis by (simp add: SignObject_def Let_def go_bind_eq_Fail_iff part)
  qed
  have r: "(case SignObject C (sorted_members m) ''a'' ''a'' key of
         Panic p \<Rightarrow> Panic p | Fail e \<Rightarrow> Ret []
       | Ret (s, _) \<Rightarrow> go_bind (assert_map (map_of s ''signatures'')) (\<lambda>sigs. go_bind (assert_map (map_of sigs ''a'')) (\<lambda>domains.
             (case map_of domains ''a'' of None \<Rightarrow> Panic ''interface conversion: interface is nil'' | Some v \<Rightarrow> assert_string v)))) = Ret s"
    using assms by (simp add: GetSignatureOfObject_def InterfaceToMap_go_json)
  then obtain res obj' where so: "SignObject C (sorted_members m) ''a'' ''a'' key = Ret (res, obj')"
    using no_fail by (cases "SignObject C (sorted_members m) ''a'' ''a'' key") auto
  from r SignObject_Ret(4) [OF g so] show ?thesis
    using wf by (simp add: so signed_with_def update_conv' assert_map_def assert_string_def)
qed

lemma update_new: "k \<notin> fst ` set m \<Longrightarrow> AList.update k v m = m @ [(k, v)]"
  by (induction m) auto

definition current_own :: "OwnKey list \<Rightarrow> VerifyKey gomap" where
  "current_own ks = map (\<lambda>k. (ok_ID k, \<lparr>vk_Key = ok_PublicKey k\<rparr>)) (filter (\<lambda>k. ok_ExpiresTs k \<le> 0) ks)"

definition old_own :: "OwnKey list \<Rightarrow> OldVerifyKey gomap" where
  "old_own ks = map (\<lambda>k. (ok_ID k, \<lparr>ov_Key = ok_PublicKey k, ov_ExpiredTs = ok_ExpiresTs k\<rparr>)) (filter (\<lambda>k. ok_ExpiresTs k > 0) ks)"

lemma sort_own_keys_eq:
  "distinct (map ok_ID ks) \<Longrightarrow> fst ` set verify \<inter> ok_ID ` set ks = {} \<Longrightarrow> fst ` set old \<inter> ok_ID ` set ks = {} \<Longrightarrow>
     sort_own_keys ks (verify, old) = (verify @ current_own ks, old @ old_own ks)"
proof (induction ks arbitrary: verify old)
  case (Cons k ks)
  then have "ok_ID k \<notin> fst ` set verify" "ok_ID k \<notin> fst ` set old" by auto
  then show ?case using Cons.prems Cons.IH [of verify "old @ [(ok_ID k, \<lparr>ov_Key = ok_PublicKey k, ov_ExpiredTs = ok_ExpiresTs k\<rparr>)]"]
      Cons.IH [of "verify @ [(ok_ID k, \<lparr>vk_Key = ok_PublicKey k\<rparr>)]" old]
    by (cases "ok_ExpiresTs k > 0") (simp_all add: update_new current_own_def old_own_def)
qed (simp add: current_own_def old_own_def)

definition own_sig :: "crypto \<Rightarrow> json gomap \<Rightarrow> OwnKey \<Rightarrow> string" where
  "own_sig C m k = (case DecodeUnpaddedBase64String (ok_PrivateKey k) of
     Ret key \<Rightarrow> EncodeUnpaddedBase64ToString (cr_sign C key (EncodeCanonicalJson (signed_part m))) | _ \<Rightarrow> [])"

lemma sign_own_keys_eq:
  assumes "go_json (JObj m)"
  shows "sign_own_keys C (JObj m) ks sigs = Ret (Inr sigs') \<Longrightarrow> distinct (map ok_ID ks) \<Longrightarrow> fst ` set sigs \<inter> ok_ID ` set ks = {} \<Longrightarrow>
    sigs' = sigs @ map (\<lambda>k. (ok_ID k, own_sig C m k)) ks"
proof (induction ks arbitrary: sigs)
  case (Cons k ks)
  obtain l s where l: "LoadKey k = Ret l" "GetSignatureOfObject C (JObj m) (sk_Priv l) = Ret s"
    "sign_own_keys C (JObj m) ks (AList.update (sk_ID l) s sigs) = Ret (Inr sigs')"
    using Cons.prems(1) by (auto split: go.splits)
  have k: "sk_ID l = ok_ID k" "DecodeUnpaddedBase64String (ok_PrivateKey k) = Ret (sk_Priv l)"
    using l(1) by (auto simp: LoadKey_def go_bind_eq_Ret_iff)
  have s: "s = own_sig C m k" using GetSignatureOfObject_Ret [OF assms l(2)] unfolding own_sig_def k(2) by simp
  have "ok_ID k \<notin> fst ` set sigs" using Cons.prems(3) by auto
  then have "AList.update (sk_ID l) s sigs = sigs @ [(ok_ID k, own_sig C m k)]" by (simp add: update_new k s)
  then show ?case using Cons.IH [of "sigs @ [(ok_ID k, own_sig C m k)]"] l(3) Cons.prems(2,3) by auto
qed simp

text \<open>Rows of the table of own keys that came from this program: readable texts and matching key pairs.\<close>

definition own_row_ok :: "crypto \<Rightarrow> self_row \<Rightarrow> bool" where
  "own_row_ok C r \<longleftrightarrow> utf8_ok (sf_key_id r) \<and> utf8_ok (sf_public_key_b64 r) \<and> num_ok (sf_expires_ts r) \<and>
     (\<exists>key pub. DecodeUnpaddedBase64String (sf_private_key_b64 r) = Ret key \<and> DecodeUnpaddedBase64String (sf_public_key_b64 r) = Ret pub \<and>
        key_pair C key pub)"

definition own_pub :: "self_row \<Rightarrow> string" where
  "own_pub r = (case DecodeUnpaddedBase64String (sf_public_key_b64 r) of Ret pub \<Rightarrow> pub | _ \<Rightarrow> [])"

lemma own_sig_ok:
  assumes "own_row_ok C r" "map_of dk (sf_key_id r) = Some (own_pub r)"
  shows "key_sig_ok C (EncodeCanonicalJson (signed_part m)) dk (sf_key_id r) (JStr (own_sig C m (scan_own_key r)))"
  using assms by (auto simp: own_row_ok_def own_sig_def own_pub_def scan_own_key_def key_sig_ok_def key_pair_def b64_decode_encode DecodeUnpaddedBase64String_def)

lemma own_document_signed_part:
  "signed_part (json_of_unsigned u @ [(''signatures'', v)]) = signed_part (json_of_unsigned u)"
  by (simp add: signed_part_def json_of_unsigned_def)

lemma own_document_ok:
  assumes "\<forall>r \<in> set rows. own_row_ok C r" "distinct (map sf_key_id rows)" "utf8_ok self" "num_ok t"
  shows "server_key_ok \<lparr>skr_Unsigned = Some \<lparr>sku_ServerName = self, sku_ValidUntilTs = t,
       sku_VerifyKeys = Some (current_own (map scan_own_key rows)), sku_OldVerifyKeys = Some (old_own (map scan_own_key rows))\<rparr>,
     skr_Signatures = made [(self, map (\<lambda>k. (ok_ID k, own_sig C m k)) (map scan_own_key rows))]\<rparr>"
proof -
  have "utf8_ok (own_sig C m k)" for k
    by (auto simp: own_sig_def split: go.split)
  then show ?thesis using assms
    by (auto simp: server_key_ok_def unsigned_ok_def nilmap_ok_def wf_gomap_def made_def current_own_def old_own_def verify_key_ok_def old_key_ok_def
        own_row_ok_def scan_own_key_def comp_def distinct_map_filter)
qed

lemma local_reply:
  assumes "GetLocalKeys E r w = (Ret (JsonReply j), w')" "db_up (w_db w)" "distinct (map sf_key_id (self_keys (w_db w)))"
  obtains now u sigs where "now = go_div (env_now E (w_tick w)) 1000000"
    "u = \<lparr>sku_ServerName = env_SelfDomainName E, sku_ValidUntilTs = wrap64 (now + 86400000),
       sku_VerifyKeys = Some (current_own (map scan_own_key (self_keys (w_db w)))),
       sku_OldVerifyKeys = Some (old_own (map scan_own_key (self_keys (w_db w))))\<rparr>"
    "sign_own_keys (env_crypto E) (JObj (json_of_unsigned u)) (map scan_own_key (self_keys (w_db w))) [] = Ret (Inr sigs)"
    "j = json_of_server_key \<lparr>skr_Unsigned = Some u, skr_Signatures = made [(env_SelfDomainName E, sigs)]\<rparr>"
proof -
  let ?own = "map scan_own_key (self_keys (w_db w))" and ?now = "go_div (env_now E (w_tick w)) 1000000"
  let ?u = "\<lparr>sku_ServerName = env_SelfDomainName E, sku_ValidUntilTs = wrap64 (?now + 86400000),
       sku_VerifyKeys = Some (current_own ?own), sku_OldVerifyKeys = Some (old_own ?own)\<rparr>"
  have own: "GetAllOwnKeys (w_db w) = (Ret ?own, tick (w_db w))"
    using assms(2) by (simp add: GetAllOwnKeys_def rows_unchecked_def act_bind_def query_stmt_def run_stmt_def db_up_def)
  have "distinct (map ok_ID ?own)" using assms(3) by (simp add: comp_def scan_own_key_def)
  then have s: "sort_own_keys ?own ([], []) = (current_own ?own, old_own ?own)" using sort_own_keys_eq [of ?own "[]" "[]"] by simp
  obtain res where res: "sign_own_keys (env_crypto E) (JObj (json_of_unsigned ?u)) ?own [] = Ret res"
    "(case res of Inl e \<Rightarrow> ErrorReply e | Inr sigs \<Rightarrow> JsonReply (json_of_server_key \<lparr>skr_Unsigned = Some ?u,
        skr_Signatures = made [(env_SelfDomainName E, sigs)]\<rparr>)) = JsonReply j"
    using assms(1) own s
    by (cases "sign_own_keys (env_crypto E) (JObj (json_of_unsigned ?u)) ?own []"; cases "projr (Inr 0 :: nat + nat)")
      (auto simp: GetLocalKeys_def or_refuse_def act_bind_def act_try_def lift_db_def NowMillis_def Let_def split: sum.splits)
  then obtain sigs where "res = Inr sigs" "j = json_of_server_key \<lparr>skr_Unsigned = Some ?u, skr_Signatures = made [(env_SelfDomainName E, sigs)]\<rparr>"
    by (cases res) auto
  then show ?thesis using that [OF refl refl] res(1) by simp
qed

text \<open>What a signature of each row is: its text decodes, and checks under the public half in the row.\<close>

definition signed_by_rows :: "crypto \<Rightarrow> string \<Rightarrow> self_row list \<Rightarrow> string gomap \<Rightarrow> bool" where
  "signed_by_rows C canonical rows sigs \<longleftrightarrow> map fst sigs = map sf_key_id rows \<and>
     (\<forall>row \<in> set rows. \<exists>s sig pub. map_of sigs (sf_key_id row) = Some s \<and> DecodeUnpaddedBase64String s = Ret sig \<and>
        DecodeUnpaddedBase64String (sf_public_key_b64 row) = Ret pub \<and> length pub = 32 \<and> cr_verify C pub canonical sig)"

lemma own_document_verifies:
  assumes "\<forall>row \<in> set rows. own_row_ok C row" "distinct (map sf_key_id rows)" "utf8_ok self" "num_ok t"
    and "u = \<lparr>sku_ServerName = self, sku_ValidUntilTs = t, sku_VerifyKeys = Some (current_own (map scan_own_key rows)),
      sku_OldVerifyKeys = Some (old_own (map scan_own_key rows))\<rparr>"
    and "sign_own_keys C (JObj (json_of_unsigned u)) (map scan_own_key rows) [] = Ret (Inr sigs)"
  shows "VerifySignatures C (json_of_server_key \<lparr>skr_Unsigned = Some u, skr_Signatures = made [(self, sigs)]\<rparr>)
    [(self, map (\<lambda>row. (sf_key_id row, own_pub row)) rows)] = Ret ()"
    and "\<exists>m. json_of_server_key \<lparr>skr_Unsigned = Some u, skr_Signatures = made [(self, sigs)]\<rparr> = JObj m \<and>
      signed_by_rows C (EncodeCanonicalJson (signed_part m)) rows sigs"
proof -
  let ?dk = "map (\<lambda>row. (sf_key_id row, own_pub row)) rows"
  define m where "m = json_of_unsigned u"
  have g0: "server_key_ok \<lparr>skr_Unsigned = Some u, skr_Signatures = made [(self, map (\<lambda>k. (ok_ID k, own_sig C m k)) (map scan_own_key rows))]\<rparr>"
    using own_document_ok [OF assms(1-4)] by (simp only: assms(5))
  have gm: "go_json (JObj m)"
    using go_json_server_key [OF g0] unfolding json_of_server_key_def m_def by (auto simp: go_json_upto go_json_upto_JObj wf_gomap_def)
  have sg: "sigs = map (\<lambda>k. (ok_ID k, own_sig C m k)) (map scan_own_key rows)"
    using sign_own_keys_eq [OF gm, of C "map scan_own_key rows" "[]" sigs] assms(2,6) by (simp add: m_def comp_def scan_own_key_def)
  define v where "v = json_of_map (json_of_map JStr) (made [(self, sigs)])"
  have v: "v = JObj [(self, JObj (map (\<lambda>r. (sf_key_id r, JStr (own_sig C m (scan_own_key r)))) rows))]"
    by (simp add: v_def sg made_def json_of_map_def comp_def) (simp add: scan_own_key_def)
  have j: "json_of_server_key \<lparr>skr_Unsigned = Some u, skr_Signatures = made [(self, sigs)]\<rparr> = JObj (m @ [(''signatures'', v)])"
    by (simp add: json_of_server_key_def m_def v_def)
  have g: "go_json (JObj (m @ [(''signatures'', v)]))" using go_json_server_key [OF g0] sg j by simp
  have "map_of ?dk (sf_key_id r) = Some (own_pub r)" if "r \<in> set rows" for r
    using that assms(2) by (intro map_of_is_SomeI) (auto simp: comp_def)
  then have sig: "key_sig_ok C (EncodeCanonicalJson (signed_part m)) ?dk (sf_key_id r) (JStr (own_sig C m (scan_own_key r)))" if "r \<in> set rows" for r
    using own_sig_ok assms(1) that by blast
  have part: "signed_part (m @ [(''signatures'', v)]) = signed_part m" unfolding m_def by (rule own_document_signed_part)
  have look: "map_of (m @ [(''signatures'', v)]) ''signatures'' = Some v" by (simp add: m_def json_of_unsigned_def)
  show "VerifySignatures C (json_of_server_key \<lparr>skr_Unsigned = Some u, skr_Signatures = made [(self, sigs)]\<rparr>)
    [(self, map (\<lambda>row. (sf_key_id row, own_pub row)) rows)] = Ret ()"
    unfolding j VerifySignatures_Ret [OF g] part look using sig by (auto simp: v domain_sigs_ok_def)
  have sigs: "sigs = map (\<lambda>r. (sf_key_id r, own_sig C m (scan_own_key r))) rows"
    by (simp add: sg comp_def) (simp add: scan_own_key_def)
  have "\<exists>s raw pub. map_of sigs (sf_key_id r) = Some s \<and> DecodeUnpaddedBase64String s = Ret raw \<and>
        DecodeUnpaddedBase64String (sf_public_key_b64 r) = Ret pub \<and> length pub = 32 \<and>
        cr_verify C pub (EncodeCanonicalJson (signed_part m)) raw" if r: "r \<in> set rows" for r
  proof -
    have "map_of sigs (sf_key_id r) = Some (own_sig C m (scan_own_key r))"
      unfolding sigs using r assms(2) by (intro map_of_is_SomeI) (auto simp: comp_def)
    moreover obtain pub where p: "DecodeUnpaddedBase64String (sf_public_key_b64 r) = Ret pub"
      using bspec [OF assms(1) r] unfolding own_row_ok_def by blast
    moreover have "own_pub r = pub" by (simp add: own_pub_def p)
    then have "map_of ?dk (sf_key_id r) = Some pub"
      using r assms(2) by (intro map_of_is_SomeI) (auto simp: comp_def)
    ultimately show ?thesis using sig [OF r] by (auto simp: key_sig_ok_def DecodeUnpaddedBase64String_def)
  qed
  moreover have "map fst sigs = map sf_key_id rows" by (simp add: sigs comp_def)
  ultimately show "\<exists>m. json_of_server_key \<lparr>skr_Unsigned = Some u, skr_Signatures = made [(self, sigs)]\<rparr> = JObj m \<and>
      signed_by_rows C (EncodeCanonicalJson (signed_part m)) rows sigs"
    unfolding j by (intro exI [of _ "m @ [(''signatures'', v)]"]) (simp only: part signed_by_rows_def simp_thms Ball_def, blast)
qed

text \<open>
  C24: the server's own document. What it serves of itself names itself, is valid for a day from
  now, lists exactly its unexpired keys as current and the others as old; every one of its keys
  signed it, with a signature that checks under the public half in its table over the canonical
  form of the document; there are no other signatures; and the program's own check of the whole
  document succeeds with these keys.
\<close>

theorem local_keys_verify:
  assumes "GetLocalKeys E r w = (Ret (JsonReply j), w')" and "db_up (w_db w)" and "clock_ok E" and "utf8_ok (env_SelfDomainName E)"
    and "distinct (map sf_key_id (self_keys (w_db w)))" and "\<forall>row \<in> set (self_keys (w_db w)). own_row_ok (env_crypto E) row"
  shows "\<exists>k u m sigs. j = json_of_server_key k \<and> j = JObj m \<and> skr_Unsigned k = Some u \<and> sku_ServerName u = env_SelfDomainName E \<and>
    sku_ValidUntilTs u = go_div (env_now E (w_tick w)) 1000000 + 86400000 \<and>
    nil_entries (sku_VerifyKeys u) = map (\<lambda>row. (sf_key_id row, \<lparr>vk_Key = sf_public_key_b64 row\<rparr>))
      (filter (\<lambda>row. sf_expires_ts row \<le> 0) (self_keys (w_db w))) \<and>
    nil_entries (sku_OldVerifyKeys u) = map (\<lambda>row. (sf_key_id row, \<lparr>ov_Key = sf_public_key_b64 row, ov_ExpiredTs = sf_expires_ts row\<rparr>))
      (filter (\<lambda>row. 0 < sf_expires_ts row) (self_keys (w_db w))) \<and>
    skr_Signatures k = Some [(env_SelfDomainName E, Some sigs)] \<and> map fst sigs = map sf_key_id (self_keys (w_db w)) \<and>
    (\<forall>row \<in> set (self_keys (w_db w)). \<exists>s sig pub. map_of sigs (sf_key_id row) = Some s \<and> DecodeUnpaddedBase64String s = Ret sig \<and>
      DecodeUnpaddedBase64String (sf_public_key_b64 row) = Ret pub \<and> length pub = 32 \<and>
      cr_verify (env_crypto E) pub (EncodeCanonicalJson (signed_part m)) sig) \<and>
    VerifySignatures (env_crypto E) j [(env_SelfDomainName E, map (\<lambda>row. (sf_key_id row, own_pub row)) (self_keys (w_db w)))] = Ret ()"
proof -
  let ?rows = "self_keys (w_db w)" and ?self = "env_SelfDomainName E"
  obtain now u sigs where l: "now = go_div (env_now E (w_tick w)) 1000000"
    "u = \<lparr>sku_ServerName = ?self, sku_ValidUntilTs = wrap64 (now + 86400000),
       sku_VerifyKeys = Some (current_own (map scan_own_key ?rows)), sku_OldVerifyKeys = Some (old_own (map scan_own_key ?rows))\<rparr>"
    "sign_own_keys (env_crypto E) (JObj (json_of_unsigned u)) (map scan_own_key ?rows) [] = Ret (Inr sigs)"
    "j = json_of_server_key \<lparr>skr_Unsigned = Some u, skr_Signatures = made [(?self, sigs)]\<rparr>"
    by (rule local_reply [OF assms(1,2,5)])
  have c: "0 \<le> env_now E (w_tick w)" "env_now E (w_tick w) \<le> 2 ^ 63" using assms(3) by (simp_all add: clock_ok_def less_imp_le)
  then have now: "0 \<le> now" "now \<le> 2 ^ 63 div 1000000"
    using pos_imp_zdiv_nonneg_iff [of 1000000 "env_now E (w_tick w)"] zdiv_mono1 [OF c(2), of 1000000] by (simp_all add: l(1) go_div_nonneg)
  have valid: "wrap64 (now + 86400000) = now + 86400000" and t: "num_ok (now + 86400000)" using now by (simp_all add: int64_range_def num_ok_def)
  note verifies = own_document_verifies [OF assms(6,5,4) t l(2) [unfolded valid] l(3)]
  have "nil_entries (sku_VerifyKeys u) = map (\<lambda>row. (sf_key_id row, \<lparr>vk_Key = sf_public_key_b64 row\<rparr>)) (filter (\<lambda>row. sf_expires_ts row \<le> 0) ?rows)"
    "nil_entries (sku_OldVerifyKeys u) = map (\<lambda>row. (sf_key_id row, \<lparr>ov_Key = sf_public_key_b64 row, ov_ExpiredTs = sf_expires_ts row\<rparr>)) (filter (\<lambda>row. 0 < sf_expires_ts row) ?rows)"
    by (simp_all add: l(2) current_own_def old_own_def filter_map comp_def) (simp_all add: scan_own_key_def)
  moreover obtain m where m: "j = JObj m" "signed_by_rows (env_crypto E) (EncodeCanonicalJson (signed_part m)) ?rows sigs"
    using verifies(2) unfolding l(4) by blast
  have "sku_ServerName u = ?self" "sku_ValidUntilTs u = go_div (env_now E (w_tick w)) 1000000 + 86400000"
    using valid by (simp_all add: l(1,2))
  moreover note verifies(1) m(2) [unfolded signed_by_rows_def]
  ultimately show ?thesis using m(1) l(4)
    by (intro exI [of _ "\<lparr>skr_Unsigned = Some u, skr_Signatures = made [(?self, sigs)]\<rparr>"] exI [of _ u] exI [of _ m] exI [of _ sigs])
      (simp add: made_def)
qed

lemma GetSignatureOfObject_total:
  assumes "go_json (JObj m)" "map_of m ''signatures'' = None" "map_of m ''unsigned'' = None" "length key = 64"
  shows "\<exists>s. GetSignatureOfObject C (JObj m) key = Ret s"
proof -
  have g: "go_json (JObj (sorted_members m))" using assms(1) by (simp add: go_json_upto)
  have wf: "wf_gomap m" using assms(1) by simp
  then have "signable (sorted_members m) ''a''"
    using assms(2,3) g by (simp add: signable_def map_of_sorted_members object_or_absent_def sigs_of_def)
  then obtain s' where so: "SignObject C (sorted_members m) ''a'' ''a'' key = Ret (s', signed_part (sorted_members m))"
    using SignObject_total assms(4) by blast
  from SignObject_Ret(4) [OF g so] show ?thesis
    using assms(1) by (simp add: GetSignatureOfObject_def InterfaceToMap_go_json so signed_with_def update_conv' assert_map_def assert_string_def)
qed

definition demo_own_db :: db where
  "demo_own_db = (empty_db (\<lambda>_. Works))\<lparr>self_keys := [\<lparr>sf_key_id = ''ed25519:a'', sf_public_key_b64 = EncodeUnpaddedBase64ToString demo_pub,
     sf_private_key_b64 = EncodeUnpaddedBase64ToString demo_key, sf_expires_ts = 0\<rparr>]\<rparr>"

theorem local_keys_verify_witness:
  "\<exists>j w'. GetLocalKeys (demo_env\<lparr>env_now := (\<lambda>_. 100 * Second)\<rparr>) (demo_request []) (demo_world\<lparr>w_db := demo_own_db\<rparr>) = (Ret (JsonReply j), w') \<and>
     VerifySignatures demo_crypto j [(''self'', [(''ed25519:a'', demo_pub)])] = Ret () \<and>
     (\<exists>k sigs. j = json_of_server_key k \<and> skr_Signatures k = Some [(''self'', Some sigs)] \<and> map fst sigs = [''ed25519:a''])"
proof -
  let ?E = "demo_env\<lparr>env_now := (\<lambda>_. 100 * Second)\<rparr>" and ?w = "demo_world\<lparr>w_db := demo_own_db\<rparr>"
  let ?row = "\<lparr>sf_key_id = ''ed25519:a'', sf_public_key_b64 = EncodeUnpaddedBase64ToString demo_pub,
     sf_private_key_b64 = EncodeUnpaddedBase64ToString demo_key, sf_expires_ts = 0\<rparr>"
  let ?u = "\<lparr>sku_ServerName = ''self'', sku_ValidUntilTs = 86500000, sku_VerifyKeys = Some [(''ed25519:a'', \<lparr>vk_Key = EncodeUnpaddedBase64ToString demo_pub\<rparr>)],
     sku_OldVerifyKeys = Some []\<rparr>"
  have rows: "self_keys demo_own_db = [?row]" by (simp add: demo_own_db_def)
  have "go_json (JObj (json_of_unsigned ?u))" by code_simp
  then obtain s where s: "GetSignatureOfObject demo_crypto (JObj (json_of_unsigned ?u)) demo_key = Ret s"
    using GetSignatureOfObject_total [of "json_of_unsigned ?u" demo_key demo_crypto] by (auto simp: json_of_unsigned_def demo_key_def)
  have g: "GetAllOwnKeys demo_own_db = (Ret [scan_own_key ?row], tick demo_own_db)"
    by (subst GetAllOwnKeys_healthy) (simp_all add: rows, simp add: db_healthy_def demo_own_db_def empty_db_def)
  then obtain j w' where j: "GetLocalKeys ?E (demo_request []) ?w = (Ret (JsonReply j), w')"
    using s by (simp add: GetLocalKeys_def or_refuse_def act_bind_def act_try_def lift_db_def NowMillis_def Let_def go_div_nonneg int64_range_def
        scan_own_key_def LoadKey_def demo_env_def)
  have "db_up (w_db ?w)" "clock_ok ?E" "utf8_ok (env_SelfDomainName ?E)" "distinct (map sf_key_id (self_keys (w_db ?w)))"
    by (simp_all add: rows clock_ok_def demo_env_def utf8_ok_ascii) (simp add: db_up_def demo_own_db_def empty_db_def)
  moreover have "\<forall>row \<in> set (self_keys (w_db ?w)). own_row_ok (env_crypto ?E) row"
    using demo_key_pair by (simp add: rows own_row_ok_def demo_env_def num_ok_def utf8_ok_ascii b64_decode_encode)
  ultimately have "VerifySignatures (env_crypto ?E) j [(env_SelfDomainName ?E, map (\<lambda>row. (sf_key_id row, own_pub row)) (self_keys (w_db ?w)))] = Ret () \<and>
      (\<exists>k sigs. j = json_of_server_key k \<and> skr_Signatures k = Some [(env_SelfDomainName ?E, Some sigs)] \<and>
        map fst sigs = map sf_key_id (self_keys (w_db ?w)))"
    using local_keys_verify [OF j] by blast
  moreover have "own_pub ?row = demo_pub" by (simp add: own_pub_def)
  ultimately show ?thesis using j by (simp add: rows) (auto simp: demo_env_def)
qed

subsection \<open>What the handlers do\<close>

text \<open>Every error that is sent has one of the statuses of \<open>responses.go\<close>.\<close>

definition error_ok :: "ErrorResponse \<Rightarrow> bool" where
  "error_ok e \<longleftrightarrow> er_HttpStatus e \<in> reply_statuses"

definition answer_ok :: "'a answer \<Rightarrow> bool" where
  "answer_ok a \<longleftrightarrow> (\<forall>e. a = Inl e \<longrightarrow> error_ok e)"

definition reply_ok :: "reply \<Rightarrow> bool" where
  "reply_ok res \<longleftrightarrow> (\<forall>e. res = ErrorReply e \<longrightarrow> error_ok e)"

lemma error_ok [simp]:
  "error_ok (InternalServerError msg)" "error_ok (BadRequest msg)" "error_ok UnauthorizedError" "error_ok NotFoundError" "error_ok MethodNotAllowed"
  by (simp_all add: error_ok_def reply_statuses_def InternalServerError_def BadRequest_def UnauthorizedError_def NotFoundError_def MethodNotAllowed_def)

lemma answer_ok [simp]: "answer_ok (Inr x)" "answer_ok (Inl e) = error_ok e"
  by (simp_all add: answer_ok_def)

lemma reply_ok [simp]: "reply_ok (JsonReply j)" "reply_ok NilReply" "reply_ok (ErrorReply e) = error_ok e"
  by (simp_all add: reply_ok_def)

lemma response_status: "reply_ok res \<Longrightarrow> fst (response res) \<in> reply_statuses"
  by (cases res) (simp_all add: response_def error_ok_def, simp_all add: reply_statuses_def)

lemma sign_with_own_keys_ok: "sign_with_own_keys C self obj ks acc = Ret a \<Longrightarrow> answer_ok a"
  by (induction C self obj ks acc rule: sign_with_own_keys.induct) (auto simp: go_bind_eq_Ret_iff split: go.splits)

lemma sign_own_keys_ok: "sign_own_keys C obj ks sigs = Ret a \<Longrightarrow> answer_ok a"
  by (induction C obj ks sigs rule: sign_own_keys.induct) (auto split: go.splits)

lemma check_auth_ok: "check_auth C obj keys = Ret res \<Longrightarrow> reply_ok res"
  by (auto simp: check_auth_def split: go.splits)

context serving
begin

lemma moves_or_refuse: "moves m (\<lambda>_. True) \<Longrightarrow> error_ok e \<Longrightarrow> moves (or_refuse e m) answer_ok"
  unfolding or_refuse_def by (rule moves_bind [OF moves_try]) (auto intro: moves_ret split: go.split)

lemma moves_ans_bind: "moves m answer_ok \<Longrightarrow> (\<And>x. moves (f x) answer_ok) \<Longrightarrow> moves (ans_bind m f) answer_ok"
  unfolding ans_bind_def by (rule moves_bind [where Q = answer_ok]) (auto intro: moves_ret split: sum.split)

lemma moves_act_any: "moves (act_pure r) (\<lambda>_. True)"
  by (rule moves_pure) simp

lemma moves_GetAllOwnKeys: "moves (lift_db GetAllOwnKeys) (\<lambda>_. True)"
  by (rule moves_read) (simp add: GetAllOwnKeys_def)

lemma moves_verify_or_invalidate: "moves (verify_or_invalidate E n x pks) answer_ok"
  unfolding verify_or_invalidate_def InvalidateHeld_def
  by (auto intro!: moves_pure moves_ret moves_bind [OF moves_try [OF moves_invalidate]] split: go.split)

lemma moves_prepare_answer: "moves (prepare_answer E c) answer_ok"
  unfolding prepare_answer_def Let_def
  by (auto intro!: moves_ans_bind moves_or_refuse moves_act_any moves_GetAllOwnKeys moves_verify_or_invalidate moves_bind [OF moves_act_any]
      moves_pure [where Q = answer_ok] sign_with_own_keys_ok split: prod.split)

lemma moves_find: "moves (findAndPrepareKeys E n m) answer_ok"
  unfolding findAndPrepareKeys_def
  by (auto intro!: moves_ans_bind moves_or_refuse moves_QueryRemoteKeys moves_pure moves_ret moves_if moves_prepare_answer split: option.split)

lemma moves_QueryKeysSingle: "moves (QueryKeysSingle E r) reply_ok"
  unfolding QueryKeysSingle_def Let_def
  by (rule moves_bind [OF moves_now]) (auto intro!: moves_ret moves_bind [OF moves_find] split: option.split sum.split)

lemma moves_lookup_items: "moves (lookup_items E ks) (\<lambda>_. True)"
proof (induction ks)
  case (Cons k ks)
  have "moves (act_bind (lookup_items E ks) (\<lambda>items. act_ret (x # items))) (\<lambda>_. True)" for x
    by (intro moves_bind [OF Cons.IH] moves_ret TrueI)
  then show ?case by (cases k) (auto simp: Let_def intro!: moves_bind [OF moves_now])
qed (simp add: moves_def refl)

lemma moves_run_lookups: "moves (run_lookups E items sch rs) (\<lambda>_. True)"
  by (induction sch arbitrary: rs) (auto intro!: moves_ret moves_bind [OF moves_find])

lemma moves_QueryKeysBatch: "moves (QueryKeysBatch E order r) reply_ok"
  unfolding QueryKeysBatch_def
  by (auto intro!: moves_pure moves_ret moves_bind [OF moves_lookup_items] moves_bind [OF moves_run_lookups] split: go.split option.split)

lemma moves_GetLocalKeys: "moves (GetLocalKeys E r) reply_ok"
  unfolding GetLocalKeys_def Let_def
  by (rule moves_bind [OF moves_or_refuse [OF moves_GetAllOwnKeys]])
    (auto intro!: moves_ret moves_bind [OF moves_now] moves_bind [OF moves_pure [where Q = answer_ok]] sign_own_keys_ok split: sum.split prod.split)

lemma moves_check_auth: "moves (act_pure (check_auth C obj keys)) reply_ok"
  by (rule moves_pure) (rule check_auth_ok)

lemma moves_VerifyAuthHeader: "moves (VerifyAuthHeader E r) reply_ok"
  unfolding VerifyAuthHeader_def Let_def
  by (auto intro!: moves_pure [of "Panic p" for p] moves_ret moves_bind [OF moves_act_any] moves_bind [OF moves_or_refuse [OF moves_QueryRemoteKeys]] moves_check_auth
      split: go.split sum.split option.split)

lemma moves_ServeHTTP:
  assumes "moves (h_h h r) reply_ok" and "\<And>st. st \<in> reply_statuses \<Longrightarrow> series_ok (h_action h, rq_Method r, st)"
  shows "moves (ServeHTTP E h r) (\<lambda>_. True)"
  unfolding ServeHTTP_def
  by (rule moves_bind [OF moves_clock(1)], rule moves_bind [OF assms(1)], rule moves_bind [OF moves_clock(2)], rule moves_bind [OF moves_counted])
    (auto intro: assms(2) response_status moves_ret)

text \<open>The router calls the handler of a route only for a request with the method of the route.\<close>

lemma moves_route_handler: "(path, meth, h) \<in> set (registered_routes E order) \<Longrightarrow> moves (h_h h r) reply_ok"
  by (auto simp: registered_routes_def api_routes_def Let_def FederationVersion_def Healthz_def
      intro!: moves_ret moves_GetLocalKeys moves_QueryKeysSingle moves_QueryKeysBatch moves_VerifyAuthHeader)

lemma moves_fallback_handler: "h \<in> set fallback_handlers \<Longrightarrow> moves (h_h h r) reply_ok"
  by (auto simp: fallback_handlers_def NotFoundHandler_def MethodNotAllowedHandler_def intro!: moves_ret)

lemma moves_route:
  assumes "(path, rq_Method r, h) \<in> set (registered_routes E order)" and "\<And>s. series_bounded s \<Longrightarrow> series_ok s"
  shows "moves (ServeHTTP E h r) (\<lambda>_. True)"
proof (rule moves_ServeHTTP [OF moves_route_handler [OF assms(1)]])
  show "series_ok (h_action h, rq_Method r, st)" if "st \<in> reply_statuses" for st
    using assms(1) that by (intro assms(2)) (auto simp: registered_routes_def api_routes_def Let_def series_bounded_def route_actions_def route_methods_def)
qed

lemma moves_fallback:
  assumes "h \<in> set fallback_handlers" and "\<And>s. series_bounded s \<Longrightarrow> series_ok s"
  shows "moves (ServeHTTP E h r) (\<lambda>_. True)"
proof (rule moves_ServeHTTP [OF moves_fallback_handler [OF assms(1)]])
  show "series_ok (h_action h, rq_Method r, st)" if "st \<in> reply_statuses" for st
    using assms(1) that by (intro assms(2)) (auto simp: fallback_handlers_def series_bounded_def fallback_actions_def)
qed

end

end
