(* ===== verification/Sweeper.thy ===== *)
theory Sweeper
  imports NotaryFallback "HOL-Library.Sublist"
begin

text \<open>
  The background sweep of \<open>keys/originSweeper.go\<close>: one tick probes the origins that are due,
  oldest due first, up to the batch cap. \<open>sweep_visits\<close> is the specification of the loop: which of the
  candidates are probed, and what is counted.
\<close>

definition originSweepInterval :: int where
  "originSweepInterval = 1 * Minute"

definition originSweepBatch :: nat where
  "originSweepBatch = 25"

text \<open>One candidate: its record is read again and gated again before it is probed.\<close>

definition sweep_one :: "env \<Rightarrow> ServerName \<Rightarrow> nat \<times> nat \<Rightarrow> (nat \<times> nat) io" where
  "sweep_one E serverName counts =
     act_bind (act_try (lift_db (GetRemoteServerMetadata serverName))) (\<lambda>r.
       (case r of
          Ret s \<Rightarrow>
            act_bind (NowMillis E) (\<lambda>now.
              if \<not> shouldProbeOrigin s now then act_ret counts
              else act_bind (act_try (probeOrigin E serverName s now)) (\<lambda>result.
                (case result of
                   Ret _ \<Rightarrow> act_ret (Suc (fst counts), Suc (snd counts))
                 | _ \<Rightarrow> act_ret (Suc (fst counts), snd counts))))
        | _ \<Rightarrow> act_ret counts))"

fun sweep_loop :: "env \<Rightarrow> ServerName list \<Rightarrow> nat \<times> nat \<Rightarrow> (nat \<times> nat) io" where
  "sweep_loop E [] counts = act_ret counts"
| "sweep_loop E (serverName # candidates) counts =
     act_bind (sweep_one E serverName counts) (\<lambda>counts. sweep_loop E candidates counts)"

definition sweepOriginsOnce :: "env \<Rightarrow> (nat \<times> nat) io" where
  "sweepOriginsOnce E =
     act_bind (NowMillis E) (\<lambda>now.
     act_bind (act_try (lift_db (GetOriginProbeCandidates now originSweepBatch))) (\<lambda>r.
       (case r of
          Ret candidates \<Rightarrow> if length candidates = 0 then act_ret (0, 0) else sweep_loop E candidates (0, 0)
        | _ \<Rightarrow> act_ret (0, 0))))"

lemma candidates_eq:
  "GetOriginProbeCandidates now limit d = (case fst (query_stmt [] (selectOriginProbeCandidates now limit) d) of
     Ret (ns, err) \<Rightarrow> if err then Fail (Err ''database connection'') else Ret ns | Fail e \<Rightarrow> Fail e | Panic p \<Rightarrow> Panic p, tick d)"
  using query_snd(1) [of "[]" "selectOriginProbeCandidates now limit" d]
  by (cases "query_stmt [] (selectOriginProbeCandidates now limit) d")
    (auto simp: GetOriginProbeCandidates_def act_bind_def split: go.split)

lemma candidates_snd: "snd (GetOriginProbeCandidates now limit d) = tick d"
  by (simp add: candidates_eq)

lemma candidates_Ret: "GetOriginProbeCandidates now limit d = (Ret ns, d') \<Longrightarrow> ns = selectOriginProbeCandidates now limit (tick d)"
  by (auto simp: candidates_eq query_stmt_def run_stmt_def Let_def split: if_splits fault.splits go.splits)

subsection \<open>What a sweep does\<close>

context serving
begin

lemma moves_counts: "moves (case r of Ret x \<Rightarrow> act_ret a | Fail e \<Rightarrow> act_ret b | Panic p \<Rightarrow> act_ret b) (\<lambda>_. True)"
  by (cases r) (simp_all add: moves_ret)

lemma moves_sweep_one: "moves (sweep_one E n c) (\<lambda>_. True)"
  unfolding sweep_one_def
  by (rule moves_bind [OF moves_try [OF moves_read]])
    (auto intro!: moves_ret moves_if moves_bind [OF moves_now] moves_bind [OF moves_try [OF moves_probe]] moves_counts split: go.split)

lemma moves_sweep_loop: "moves (sweep_loop E ns c) (\<lambda>_. True)"
  by (induction ns arbitrary: c) (auto intro!: moves_ret moves_bind [OF moves_sweep_one])

lemma moves_sweep: "moves (sweepOriginsOnce E) (\<lambda>_. True)"
  unfolding sweepOriginsOnce_def
  by (rule moves_bind [OF moves_now], rule moves_bind [OF moves_try [OF moves_read]])
    (auto intro!: moves_ret moves_sweep_loop simp: candidates_snd split: go.split)

end

subsection \<open>The counts\<close>

definition counted :: "nat \<times> nat \<Rightarrow> CachedRemoteKeys go \<Rightarrow> (nat \<times> nat) go" where
  "counted c result = (case result of Ret _ \<Rightarrow> Ret (Suc (fst c), Suc (snd c)) | Fail _ \<Rightarrow> Ret (Suc (fst c), snd c) | Panic p \<Rightarrow> Panic p)"

lemma counted_bind:
  "act_bind (act_try m) (\<lambda>result. case result of Ret _ \<Rightarrow> act_ret (Suc (fst c), Suc (snd c)) | _ \<Rightarrow> act_ret (Suc (fst c), snd c)) w =
     (counted c (fst (m w)), snd (m w))"
  by (cases "m w"; cases "fst (m w)") (simp_all add: act_bind_try counted_def)

lemma sweep_one_eq:
  "sweep_one E n c w = (case GetRemoteServerMetadata n (w_db w) of (r, d) \<Rightarrow>
     (case r of
        Ret s \<Rightarrow>
          let now = go_div (env_now E (w_tick w)) 1000000; v = w\<lparr>w_db := d, w_tick := Suc (w_tick w)\<rparr>; p = probeOrigin E n s now v
          in if shouldProbeOrigin s now then (counted c (fst p), snd p) else (Ret c, v)
      | Fail _ \<Rightarrow> (Ret c, w\<lparr>w_db := d\<rparr>)
      | Panic p \<Rightarrow> (Panic p, w\<lparr>w_db := d\<rparr>)))"
  by (cases "GetRemoteServerMetadata n (w_db w)"; cases "fst (GetRemoteServerMetadata n (w_db w))")
    (simp_all add: sweep_one_def act_bind_try [of "lift_db (GetRemoteServerMetadata n)"] lift_db_def NowMillis_bind counted_bind Let_def)

lemma counted_Ret: "counted c r = Ret x \<Longrightarrow> x \<in> {(Suc (fst c), snd c), (Suc (fst c), Suc (snd c))}" "counted c r \<noteq> Fail e"
  by (cases r; force simp: counted_def)+

lemma sweep_one_Ret: "sweep_one E n c w = (Ret x, w') \<Longrightarrow> x \<in> {c, (Suc (fst c), snd c), (Suc (fst c), Suc (snd c))}"
  using counted_Ret(1) [of c _ x] unfolding sweep_one_eq by (auto simp: Let_def split: prod.splits go.splits if_splits)

lemma sweep_one_Fail: "sweep_one E n c w \<noteq> (Fail e, w')"
  unfolding sweep_one_eq by (auto simp: Let_def counted_Ret split: prod.splits go.splits if_splits)

lemma sweep_loop_Ret: "sweep_loop E ns c w = (Ret x, w') \<Longrightarrow> snd c \<le> fst c \<Longrightarrow> snd x \<le> fst x \<and> fst x \<le> fst c + length ns"
proof (induction ns arbitrary: c w)
  case (Cons n ns)
  obtain y v where y: "sweep_one E n c w = (Ret y, v)" "sweep_loop E ns y v = (Ret x, w')"
    using Cons.prems(1) by (auto simp: act_bind_eq_Ret_iff)
  have "snd y \<le> fst y" "fst y \<le> Suc (fst c)" using sweep_one_Ret [OF y(1)] Cons.prems(2) by auto
  then show ?case using Cons.IH [OF y(2)] by simp
qed simp

lemma sweep_loop_Fail: "sweep_loop E ns c w \<noteq> (Fail e, w')"
  by (induction ns arbitrary: c w) (auto simp: act_bind_eq_Fail_iff sweep_one_Fail)

text \<open>A sweep is the clock, the list of candidates, and one step for each of them.\<close>

lemma sweep_eq:
  "sweepOriginsOnce E w = (let now = go_div (env_now E (w_tick w)) 1000000; v = w\<lparr>w_tick := Suc (w_tick w), w_db := tick (w_db w)\<rparr> in
     case fst (GetOriginProbeCandidates now originSweepBatch (w_db w)) of Ret ns \<Rightarrow> sweep_loop E ns (0, 0) v
     | Fail _ \<Rightarrow> (Ret (0, 0), v) | Panic p \<Rightarrow> (Panic p, v))"
proof -
  define now where "now = go_div (env_now E (w_tick w)) 1000000"
  define r where "r = fst (GetOriginProbeCandidates now originSweepBatch (w_db w))"
  have g: "GetOriginProbeCandidates now originSweepBatch (w_db w) = (r, tick (w_db w))"
    using candidates_snd [of now originSweepBatch "w_db w"] by (simp add: r_def prod_eq_iff)
  show ?thesis
    unfolding sweepOriginsOnce_def NowMillis_bind
    by (cases r) (auto simp: now_def [symmetric] r_def [symmetric] act_bind_try lift_db_def g Let_def)
qed

lemma due_only: "n \<in> set (selectOriginProbeCandidates now limit d) \<Longrightarrow> db_ok d \<Longrightarrow>
    \<exists>r. map_of (remote_servers d) n = Some r \<and> 0 < sr_next_origin_attempt_ts r \<and> sr_next_origin_attempt_ts r \<le> now"
  by (auto simp: selectOriginProbeCandidates_def db_ok_def wf_gomap_map_of dest!: in_set_takeD)

lemma GetRemoteServerMetadata_row:
  assumes "db_healthy d" "pg_text n" "db_ok d" "map_of (remote_servers d) n = Some r"
  shows "\<exists>addl. GetRemoteServerMetadata n d = (Ret (Some (server_of_row n r addl)), tick d)"
  using GetRemoteServerMetadata_healthy [OF assms(1-3)] assms(4) by auto

subsection \<open>Which origins a sweep probes\<close>

text \<open>
  What a sweep over a list of candidates is meant to do, as a relation over the world: the servers
  that were probed, each with whether its probe succeeded, and the world afterwards. Every
  candidate's record is read at its turn. One that cannot be read is passed over, and so is one
  that is not due any more at the time its turn comes; each other one is probed, once, with the
  record just read.
\<close>

inductive sweep_visits :: "env \<Rightarrow> ServerName list \<Rightarrow> world \<Rightarrow> (ServerName \<times> bool) list \<Rightarrow> world \<Rightarrow> bool" for E where
  Done: "sweep_visits E [] w [] w"
| Unreadable: "GetRemoteServerMetadata n (w_db w) = (Fail e, d) \<Longrightarrow>
    sweep_visits E ns (w\<lparr>w_db := d\<rparr>) ps w' \<Longrightarrow> sweep_visits E (n # ns) w ps w'"
| Not_Due: "GetRemoteServerMetadata n (w_db w) = (Ret (Some s), d) \<Longrightarrow>
    go_div (env_now E (w_tick w)) 1000000 < rs_NextOriginAttemptTs s \<Longrightarrow>
    sweep_visits E ns (w\<lparr>w_db := d, w_tick := Suc (w_tick w)\<rparr>) ps w' \<Longrightarrow> sweep_visits E (n # ns) w ps w'"
| Probed: "GetRemoteServerMetadata n (w_db w) = (Ret s, d) \<Longrightarrow> now = go_div (env_now E (w_tick w)) 1000000 \<Longrightarrow>
    (\<And>x. s = Some x \<Longrightarrow> rs_NextOriginAttemptTs x \<le> now) \<Longrightarrow>
    probeOrigin E n s now (w\<lparr>w_db := d, w_tick := Suc (w_tick w)\<rparr>) = (r, w1) \<Longrightarrow> (\<And>p. r \<noteq> Panic p) \<Longrightarrow>
    ok = (\<exists>c. r = Ret c) \<Longrightarrow>
    sweep_visits E ns w1 ps w' \<Longrightarrow> sweep_visits E (n # ns) w ((n, ok) # ps) w'"

lemma visits_subseq: "sweep_visits E ns w ps w' \<Longrightarrow> subseq (map fst ps) ns"
  by (induction rule: sweep_visits.induct) auto

text \<open>A probe that returns is counted and timed as one fetch, with its outcome.\<close>

lemma probe_counted:
  assumes "probeOrigin E n s now w = (r, w')" "\<And>p. r \<noteq> Panic p"
  shows "\<exists>t. w_origin_fetches w' = w_origin_fetches w @ [(if \<exists>c. r = Ret c then ResultSuccess else ResultFailure, t)]"
proof -
  let ?v = "w\<lparr>w_tick := Suc (w_tick w)\<rparr>"
  have "w_origin_fetches (snd (fetchDirectFromOrigin E n ?v)) = w_origin_fetches w"
    using untimed.moves_step [OF untimed.moves_fetch, of ?v E n] by (simp add: same_fetches_def)
  then show ?thesis
    using assms unfolding probe_eq by (cases "fetchDirectFromOrigin E n ?v") (auto simp: fetch_observed_def split: go.splits)
qed

lemma visits_counted:
  "sweep_visits E ns w ps w' \<Longrightarrow> \<exists>obs. w_origin_fetches w' = w_origin_fetches w @ obs \<and>
     map fst obs = map (\<lambda>(n, ok). if ok then ResultSuccess else ResultFailure) ps"
proof (induction rule: sweep_visits.induct)
  case (Probed n w s d now r w1 ok ns ps w')
  obtain t where "w_origin_fetches w1 = w_origin_fetches w @ [(if ok then ResultSuccess else ResultFailure, t)]"
    using probe_counted [OF Probed(4,5)] Probed(6) by auto
  with Probed(8) show ?case by auto
qed auto

lemma sweep_one_visits:
  assumes "sweep_one E n c w = (Ret x, w1)" "sweep_visits E ns w1 ps w'"
  shows "\<exists>qs. sweep_visits E (n # ns) w (qs @ ps) w' \<and> x = (fst c + length qs, snd c + length (filter snd qs))"
proof (cases "GetRemoteServerMetadata n (w_db w)")
  case (Pair g d)
  let ?now = "go_div (env_now E (w_tick w)) 1000000" and ?v = "w\<lparr>w_db := d, w_tick := Suc (w_tick w)\<rparr>"
  show ?thesis
  proof (cases g)
    case (Ret s)
    show ?thesis
    proof (cases "shouldProbeOrigin s ?now")
      case True
      then have p: "(counted c (fst (probeOrigin E n s ?now ?v)), snd (probeOrigin E n s ?now ?v)) = (Ret x, w1)"
        using assms(1) Pair Ret by (simp add: sweep_one_eq Let_def)
      obtain r where r: "probeOrigin E n s ?now ?v = (r, w1)" "counted c r = Ret x"
        using p by (cases "probeOrigin E n s ?now ?v") auto
      have due: "rs_NextOriginAttemptTs y \<le> ?now" if "s = Some y" for y using True that by (simp add: shouldProbeOrigin_def)
      have "r \<noteq> Panic q" for q using r(2) by (auto simp: counted_def)
      from sweep_visits.Probed [OF Pair [unfolded Ret] refl due r(1) this refl assms(2)]
      show ?thesis using r(2) by (intro exI [of _ "[(n, \<exists>c. r = Ret c)]"]) (cases r; auto simp: counted_def)
    next
      case False
      then obtain y where "s = Some y" "?now < rs_NextOriginAttemptTs y" by (auto simp: shouldProbeOrigin_def split: option.splits)
      then show ?thesis using assms False Pair Ret sweep_visits.Not_Due [of n w y d E ns ps w']
        by (intro exI [of _ "[]"]) (simp add: sweep_one_eq Let_def)
    qed
  next
    case (Fail e)
    then show ?thesis using assms Pair sweep_visits.Unreadable [of n w e d E ns ps w']
      by (intro exI [of _ "[]"]) (simp add: sweep_one_eq)
  qed (use assms Pair in \<open>simp add: sweep_one_eq\<close>)
qed

lemma sweep_loop_visits:
  "sweep_loop E ns c w = (Ret x, w') \<Longrightarrow>
     \<exists>ps. sweep_visits E ns w ps w' \<and> x = (fst c + length ps, snd c + length (filter snd ps))"
proof (induction ns arbitrary: c w)
  case Nil
  then show ?case using sweep_visits.Done [of E w] by (intro exI [of _ "[]"]) (simp add: prod_eq_iff)
next
  case (Cons n ns)
  obtain y v where y: "sweep_one E n c w = (Ret y, v)" "sweep_loop E ns y v = (Ret x, w')"
    using Cons.prems by (auto simp: act_bind_eq_Ret_iff)
  obtain ps where ps: "sweep_visits E ns v ps w'" "x = (fst y + length ps, snd y + length (filter snd ps))"
    using Cons.IH [OF y(2)] by blast
  from sweep_one_visits [OF y(1) ps(1)] obtain qs
    where "sweep_visits E (n # ns) w (qs @ ps) w'" "y = (fst c + length qs, snd c + length (filter snd qs))" by blast
  then show ?case using ps(2) by (intro exI [of _ "qs @ ps"]) simp
qed

subsection \<open>Properties\<close>

text \<open>
  C30: what a sweep probes and counts. It reports no error of its own, whatever the database, the
  origins and the clock do. When it returns, it went through the servers due at its start, the
  oldest first and at most the 25 of a batch (none, if they cannot be listed); it read each of them
  again and probed exactly those that were still due at that moment. The first number it reports
  is that of the probes it made, the second that of those that succeeded; and the fetches
  observed since are these probes, in this order, with their outcomes.
\<close>

theorem sweep_bounded:
  assumes "sweepOriginsOnce E w = (res, w')"
  shows "(\<forall>e. res \<noteq> Fail e) \<and> (\<forall>attempted recovered. res = Ret (attempted, recovered) \<longrightarrow>
    (\<exists>ns ps obs. (ns = [] \<or> ns = selectOriginProbeCandidates (go_div (env_now E (w_tick w)) 1000000) 25 (w_db w)) \<and>
      (db_healthy (w_db w) \<longrightarrow> ns = selectOriginProbeCandidates (go_div (env_now E (w_tick w)) 1000000) 25 (w_db w)) \<and>
      sweep_visits E ns (w\<lparr>w_tick := Suc (w_tick w), w_db := tick (w_db w)\<rparr>) ps w' \<and>
      attempted = length ps \<and> recovered = length (filter snd ps) \<and>
      w_origin_fetches w' = w_origin_fetches w @ obs \<and>
      map fst obs = map (\<lambda>(n, ok). if ok then ResultSuccess else ResultFailure) ps \<and>
      subseq (map fst ps) ns \<and> recovered \<le> attempted \<and> attempted \<le> 25 \<and>
      attempted \<le> length (filter (\<lambda>(n, r). 0 < sr_next_origin_attempt_ts r \<and>
        sr_next_origin_attempt_ts r \<le> go_div (env_now E (w_tick w)) 1000000) (remote_servers (w_db w)))))"
proof -
  define now where "now = go_div (env_now E (w_tick w)) 1000000"
  define v where "v = w\<lparr>w_tick := Suc (w_tick w), w_db := tick (w_db w)\<rparr>"
  let ?r = "fst (GetOriginProbeCandidates now originSweepBatch (w_db w))"
  let ?cs = "selectOriginProbeCandidates now 25 (w_db w)"
  have res: "(res, w') = (case ?r of Ret ns \<Rightarrow> sweep_loop E ns (0, 0) v | Fail _ \<Rightarrow> (Ret (0, 0), v) | Panic p \<Rightarrow> (Panic p, v))"
    using assms unfolding sweep_eq now_def v_def Let_def by simp
  have same: "selectOriginProbeCandidates now originSweepBatch (tick (w_db w)) = ?cs"
    by (simp add: selectOriginProbeCandidates_def originSweepBatch_def)
  have cs: "ns = ?cs" if "?r = Ret ns" for ns
    using candidates_Ret [of now originSweepBatch "w_db w" ns] that same by (metis prod.collapse)
  have healthy: "?r = Ret ?cs" if "db_healthy (w_db w)"
    using that same by (simp add: candidates_eq query_stmt_healthy)
  have len: "length ?cs \<le> 25" "length ?cs \<le> length (filter (\<lambda>(n, r). 0 < sr_next_origin_attempt_ts r \<and>
      sr_next_origin_attempt_ts r \<le> now) (remote_servers (w_db w)))"
    by (simp_all add: selectOriginProbeCandidates_def)
  have run: "\<exists>ns ps. (ns = [] \<or> ns = ?cs) \<and> (db_healthy (w_db w) \<longrightarrow> ns = ?cs) \<and> sweep_visits E ns v ps w' \<and>
      x = (length ps, length (filter snd ps))" if "res = Ret x" for x
  proof (cases ?r)
    case (Ret ns)
    then show ?thesis using res cs [OF Ret] sweep_loop_visits [of E ns "(0, 0)" v x w'] that by auto
  next
    case (Fail e)
    then show ?thesis using res healthy sweep_visits.Done [of E v] that
      by (intro exI [of _ "[]"]) auto
  qed (use res that in simp)
  have "res \<noteq> Fail e" for e
    using res [symmetric] sweep_loop_Fail [of E _ "(0, 0)" v e w'] by (cases ?r) auto
  moreover have "\<exists>ns ps obs. (ns = [] \<or> ns = ?cs) \<and> (db_healthy (w_db w) \<longrightarrow> ns = ?cs) \<and> sweep_visits E ns v ps w' \<and>
      a = length ps \<and> b = length (filter snd ps) \<and> w_origin_fetches w' = w_origin_fetches w @ obs \<and>
      map fst obs = map (\<lambda>(n, ok). if ok then ResultSuccess else ResultFailure) ps \<and>
      subseq (map fst ps) ns \<and> b \<le> a \<and> a \<le> 25 \<and> a \<le> length (filter (\<lambda>(n, r). 0 < sr_next_origin_attempt_ts r \<and>
        sr_next_origin_attempt_ts r \<le> now) (remote_servers (w_db w)))" if ab: "res = Ret (a, b)" for a b
  proof -
    obtain ns ps where p: "ns = [] \<or> ns = ?cs" "db_healthy (w_db w) \<longrightarrow> ns = ?cs" "sweep_visits E ns v ps w'"
      "a = length ps" "b = length (filter snd ps)" using run [OF ab] by auto
    obtain obs where "w_origin_fetches w' = w_origin_fetches v @ obs"
      "map fst obs = map (\<lambda>(n, ok). if ok then ResultSuccess else ResultFailure) ps" using visits_counted [OF p(3)] by blast
    moreover have "length ps \<le> length ns" using list_emb_length [OF visits_subseq [OF p(3)]] by simp
    then have "length ps \<le> length ?cs" using p(1) by auto
    then have "a \<le> 25" "a \<le> length (filter (\<lambda>(n, r). 0 < sr_next_origin_attempt_ts r \<and>
        sr_next_origin_attempt_ts r \<le> now) (remote_servers (w_db w)))" using len p(4) by linarith+
    moreover have "b \<le> a" using p(4,5) by simp
    ultimately show ?thesis using p visits_subseq [OF p(3)] by (intro exI [of _ ns] exI [of _ ps] exI [of _ obs]) (simp add: v_def)
  qed
  ultimately show ?thesis unfolding now_def v_def by blast
qed

definition demo_sweep_env :: env where
  "demo_sweep_env = demo_env\<lparr>env_now := (\<lambda>_. 100 * Second)\<rparr>"

definition demo_sweep_world :: world where
  "demo_sweep_world = demo_world\<lparr>w_db := demo_db\<rparr>"

lemma demo_sweep_fails:
  "\<exists>e. fst (probeOrigin demo_sweep_env ''early'' s now (demo_sweep_world\<lparr>w_db := d, w_tick := t\<rparr>)) = Fail e"
proof -
  let ?w = "demo_sweep_world\<lparr>w_db := d, w_tick := Suc t\<rparr>"
  have split: "split_default ''early'' = Some (''early'', ''8448'', True)" by code_simp
  obtain w1 where g: "GetServerApiUrl demo_sweep_env ''early'' ?w = (Ret (''https://early:8448'', ''early''), w1)"
    by (simp add: GetServerApiUrl_eq discover_def split demo_sweep_env_def demo_env_def probeWellKnown_def classifyWellKnown_def demo_404_def
      act_bind_def without_delegation_def lookupSrv_def https_url_def Let_def demo_sweep_world_def demo_world_def list_cache_get_def last_set_def)
  obtain w2 where "FederatedGet demo_sweep_env (''https://early:8448'' @ ''/_matrix/key/v2/server'') ''early'' w1 = (Ret demo_404, w2)"
    using FederatedGet_call [of demo_sweep_env "''https://early:8448'' @ ''/_matrix/key/v2/server''" "''early''" w1]
    by (cases "FederatedGet demo_sweep_env (''https://early:8448'' @ ''/_matrix/key/v2/server'') ''early'' w1")
      (auto simp: demo_sweep_env_def demo_env_def)
  moreover have "hr_StatusCode demo_404 = 404" by (simp add: demo_404_def)
  ultimately have "fetchDirectFromOrigin demo_sweep_env ''early'' ?w = (Fail (OriginStatus ''early'' 404), w2)"
    using g by (simp add: fetchDirectFromOrigin_def act_bind_app(1))
  then show ?thesis by (simp add: probe_eq)
qed

text \<open>
  A sweep over a server that has recovered, which is not a candidate, and one whose attempt is due:
  the second is probed, and fails again.
\<close>

definition demo_due_world :: world where
  "demo_due_world = demo_world\<lparr>w_db := (empty_db (\<lambda>_. Works))\<lparr>remote_servers := [(''healthy'', demo_row 0), (''early'', demo_row 10)]\<rparr>\<rparr>"

lemma demo_due_db: "db_healthy (w_db demo_due_world)" "db_ok (w_db demo_due_world)"
  "map_of (remote_servers (w_db demo_due_world)) ''early'' = Some (demo_row 10)"
  "selectOriginProbeCandidates 100000 25 (w_db demo_due_world) = [''early'']"
proof -
  show "selectOriginProbeCandidates 100000 25 (w_db demo_due_world) = [''early'']"
    by (simp add: demo_due_world_def selectOriginProbeCandidates_def demo_row_def)
qed (simp_all add: demo_due_world_def db_healthy_def db_ok_def empty_db_def wf_gomap_def server_row_ok_def demo_row_def unmarshal_empty int4_ok_def)

lemma demo_due_sweep: "\<exists>w'. sweepOriginsOnce demo_sweep_env demo_due_world = (Ret (1, 0), w')"
proof -
  have now: "go_div (env_now demo_sweep_env t) 1000000 = 100000" for t by (simp add: demo_sweep_env_def go_div_nonneg)
  have cs: "fst (GetOriginProbeCandidates 100000 originSweepBatch (w_db demo_due_world)) = Ret [''early'']"
    using demo_due_db(1,4) by (simp add: candidates_eq query_stmt_healthy originSweepBatch_def selectOriginProbeCandidates_def)
  let ?d = "tick (w_db demo_due_world)"
  have name: "varchar_ok ''early''" by code_simp
  obtain addl where "GetRemoteServerMetadata ''early'' ?d = (Ret (Some (server_of_row ''early'' (demo_row 10) addl)), tick ?d)"
    using GetRemoteServerMetadata_row [of ?d "''early''" "demo_row 10"] demo_due_db(1-3) varchar_ok_text [OF name] by auto
  moreover obtain e where "fst (probeOrigin demo_sweep_env ''early'' (Some (server_of_row ''early'' (demo_row 10) addl)) 100000
      (demo_sweep_world\<lparr>w_db := tick ?d, w_tick := 2\<rparr>)) = Fail e" using demo_sweep_fails by blast
  moreover have "demo_sweep_world\<lparr>w_db := tick ?d, w_tick := 2\<rparr> = demo_due_world\<lparr>w_db := tick ?d, w_tick := 2\<rparr>"
    by (simp add: demo_sweep_world_def demo_due_world_def)
  moreover have "shouldProbeOrigin (Some (server_of_row ''early'' (demo_row 10) addl)) 100000"
    by (simp add: shouldProbeOrigin_def server_of_row_def demo_row_def)
  ultimately have "fst (sweep_one demo_sweep_env ''early'' (0, 0) (demo_due_world\<lparr>w_tick := 1, w_db := ?d\<rparr>)) = counted (0, 0) (Fail e)"
    by (simp add: sweep_one_eq now Let_def numeral_2_eq_2)
  then obtain w' where "sweep_one demo_sweep_env ''early'' (0, 0) (demo_due_world\<lparr>w_tick := 1, w_db := ?d\<rparr>) = (Ret (1, 0), w')"
    by (cases "sweep_one demo_sweep_env ''early'' (0, 0) (demo_due_world\<lparr>w_tick := 1, w_db := ?d\<rparr>)") (auto simp: counted_def)
  moreover have "w_tick demo_due_world = 0" by (simp add: demo_due_world_def demo_world_def)
  ultimately show ?thesis using cs by (simp add: sweep_eq now Let_def act_bind_def)
qed

theorem sweep_bounded_witness:
  "\<exists>w' ps. sweepOriginsOnce demo_sweep_env demo_due_world = (Ret (1, 0), w') \<and> map fst (w_origin_fetches w') = [ResultFailure] \<and>
     sweep_visits demo_sweep_env [''early''] (demo_due_world\<lparr>w_tick := 1, w_db := tick (w_db demo_due_world)\<rparr>) ps w' \<and> ps = [(''early'', False)]"
proof -
  obtain w' where r: "sweepOriginsOnce demo_sweep_env demo_due_world = (Ret (1, 0), w')" using demo_due_sweep by blast
  have now: "go_div (env_now demo_sweep_env t) 1000000 = 100000" for t by (simp add: demo_sweep_env_def go_div_nonneg)
  obtain ps obs where p: "sweep_visits demo_sweep_env [''early''] (demo_due_world\<lparr>w_tick := 1, w_db := tick (w_db demo_due_world)\<rparr>) ps w'"
    "1 = length ps" "0 = length (filter snd ps)" "w_origin_fetches w' = w_origin_fetches demo_due_world @ obs"
    "map fst obs = map (\<lambda>(n, ok). if ok then ResultSuccess else ResultFailure) ps" "subseq (map fst ps) [''early'']"
    using sweep_bounded [OF r] demo_due_db(1,4) by (auto simp: now demo_due_world_def demo_world_def)
  obtain n ok where ps: "ps = [(n, ok)]" using p(2) by (cases ps) auto
  then have "n = ''early''" "\<not> ok" using p(3,6) by (auto simp: subseq_singleton_left split: if_splits)
  then show ?thesis using r p(1,4,5) ps by (auto simp: demo_due_world_def demo_world_def)
qed

lemma due_listed:
  assumes "map_of (remote_servers d) n = Some r" "0 < sr_next_origin_attempt_ts r" "sr_next_origin_attempt_ts r \<le> now"
  shows "n \<in> set (selectOriginProbeCandidates now (length (remote_servers d)) d)"
  using assms by (force simp: selectOriginProbeCandidates_def dest: map_of_SomeD)

lemma probe_others:
  assumes "probeOrigin E n s now w = (Ret c, w')"
  shows "others_same (rs_ServerName (ck_RemoteServer c)) (w_db w) (w_db w')"
proof -
  obtain w1 where "fetchDirectFromOrigin E n (w\<lparr>w_tick := Suc (w_tick w)\<rparr>) = (Ret c, w1)" "w_db w' = w_db w1"
    using assms unfolding probe_eq by (auto split: prod.splits go.splits)
  then obtain now' u sigs addl where s: "store_at now' u sigs addl [] (w_db w) = (Ret c, w_db w')" by (auto elim: fetch_Ret)
  then show ?thesis using store_at_others_same [of u "w_db w" now' sigs addl "[]"] store_direct_answer [OF s] by simp
qed

lemma probed_counts:
  assumes "(counted c (fst p), snd p) = (res, w')"
  shows "(\<exists>e. fst p = Fail e \<and> res = Ret (Suc (fst c), snd c)) \<or> (\<exists>x. fst p = Ret x \<and> res = Ret (Suc (fst c), Suc (snd c))) \<or> (\<exists>m. res = Panic m)"
  using assms by (cases "fst p") (auto simp: counted_def)

text \<open>
  C31: what one step of the sweep does for a server whose attempt is due, while the database
  answers. If the probe fails, it counts one more failure and puts the next attempt a minute to a
  day ahead, so that the server is not a candidate again at this time. If the probe gets keys, only
  the record of the server named in them has changed: that server has no failure on record any
  more, and its record is its own copy. Either way one fetch is observed, with its outcome. When
  that is the server that was asked, it has left the queue, at every time. When it is another
  one, the record of the server that was asked is what it was: it is still due, and listed again
  by the next sweep, although the step counts it as recovered.
\<close>

theorem sweep_step_progress:
  assumes "sweep_one E n (attempted, recovered) w = (res, w')"
    and "world_ok w" and "clock_ok E" and "db_healthy (w_db w)" and "varchar_ok n"
    and "map_of (remote_servers (w_db w)) n = Some r" and "0 \<le> sr_origin_failures r" and "sr_origin_failures r + 1 < 2 ^ 31"
    and "now = go_div (env_now E (w_tick w)) 1000000" and "sr_next_origin_attempt_ts r \<le> now"
  shows "(\<exists>p. res = Panic p) \<or>
    (res = Ret (Suc attempted, Suc recovered) \<and> (\<exists>m s. map_of (remote_servers (w_db w')) m = Some s \<and>
       sr_origin_failures s = 0 \<and> sr_next_origin_attempt_ts s = 0 \<and> sr_obtained_via_notary s = None \<and>
       others_same m (w_db w) (w_db w') \<and> (\<exists>t. w_origin_fetches w' = w_origin_fetches w @ [(ResultSuccess, t)]) \<and>
       (m = n \<longrightarrow> (\<forall>later limit. n \<notin> set (selectOriginProbeCandidates later limit (w_db w')))) \<and>
       (m \<noteq> n \<longrightarrow> map_of (remote_servers (w_db w')) n = Some r \<and>
         (0 < sr_next_origin_attempt_ts r \<longrightarrow>
            n \<in> set (selectOriginProbeCandidates now (length (remote_servers (w_db w'))) (w_db w')))))) \<or>
    (res = Ret (Suc attempted, recovered) \<and> (\<exists>s. map_of (remote_servers (w_db w')) n = Some s \<and>
       sr_origin_failures s = sr_origin_failures r + 1 \<and>
       now + 60000 \<le> sr_next_origin_attempt_ts s \<and> sr_next_origin_attempt_ts s \<le> now + 86400000) \<and>
       (\<exists>t. w_origin_fetches w' = w_origin_fetches w @ [(ResultFailure, t)]) \<and>
       (\<forall>limit. n \<notin> set (selectOriginProbeCandidates now limit (w_db w'))))"
proof -
  have dbok: "db_ok (w_db w)" using assms(2) by (simp add: world_ok_def)
  obtain addl where g: "GetRemoteServerMetadata n (w_db w) = (Ret (Some (server_of_row n r addl)), tick (w_db w))"
    using GetRemoteServerMetadata_row [OF assms(4) _ dbok assms(6)] varchar_ok_text [OF assms(5)] by blast
  let ?s = "Some (server_of_row n r addl)" and ?v = "w\<lparr>w_db := tick (w_db w), w_tick := Suc (w_tick w)\<rparr>"
  let ?p = "probeOrigin E n ?s now ?v"
  have "shouldProbeOrigin ?s now" using assms(10) by (simp add: shouldProbeOrigin_def server_of_row_def)
  then have p: "(counted (attempted, recovered) (fst ?p), snd ?p) = (res, w')"
    using assms(1) g by (simp add: sweep_one_eq assms(9) Let_def)
  have f: "failures_after ?s = sr_origin_failures r + 1" "int4_ok (failures_after ?s)"
    using assms(7,8) by (auto simp: failures_after_def server_of_row_def int4_ok_def int64_range_def)
  have now: "0 \<le> now" "now < 2 ^ 62"
    using clock_time [OF assms(3), of "w_tick w"] by (simp_all add: assms(9) walk_time_ok_def)
  have h: "db_healthy (w_db ?v)" using assms(4) by simp
  have ok': "db_ok (w_db w')"
    using valid.moves_step [OF valid.moves_sweep_one, of E w n "(attempted, recovered)"] assms(1-3)
    by (simp add: keeps_ok_in_def keeps_ok_def world_ok_def)
  have wait: "wrap64 (now + Milliseconds b) = now + Milliseconds b" if "Milliseconds b \<le> 86400000" "60000 \<le> Milliseconds b" for b
    using now that by (simp add: int64_range_def)
  from probed_counts [OF p] show ?thesis
  proof (elim disjE exE conjE)
    fix e assume e: "fst ?p = Fail e" "res = Ret (Suc (fst (attempted, recovered)), snd (attempted, recovered))"
    then have "?p = (Fail e, w')" using p by (simp add: prod_eq_iff)
    from probe_Fail [OF this h assms(5) f(2)] obtain s where s: "map_of (remote_servers (w_db w')) n = Some s"
      "sr_origin_failures s = sr_origin_failures r + 1" "now + 60000 \<le> sr_next_origin_attempt_ts s" "sr_next_origin_attempt_ts s \<le> now + 86400000"
      using originBackoff_ms [of "failures_after ?s" "isTransientOriginFailure e"] wait f assms(7) by auto
    then have "n \<notin> set (selectOriginProbeCandidates now limit (w_db w'))" for limit
      using due_only [OF _ ok'] by fastforce
    moreover have "\<exists>t. w_origin_fetches w' = w_origin_fetches w @ [(ResultFailure, t)]"
      using probe_counted [OF \<open>?p = (Fail e, w')\<close>] by simp
    ultimately show ?thesis using s e by auto
  next
    fix c assume c: "fst ?p = Ret c" "res = Ret (Suc (fst (attempted, recovered)), Suc (snd (attempted, recovered)))"
    then have pr: "?p = (Ret c, w')" using p by (simp add: prod_eq_iff)
    let ?m = "rs_ServerName (ck_RemoteServer c)"
    obtain s where s: "map_of (remote_servers (w_db w')) ?m = Some s" "sr_origin_failures s = 0"
      "sr_next_origin_attempt_ts s = 0" "sr_obtained_via_notary s = None" using probe_Ret [OF pr h] by blast
    have "n \<notin> set (selectOriginProbeCandidates t limit (w_db w'))" if "?m = n" for t limit
      using due_only [OF _ ok'] s(1,3) that by fastforce
    moreover have row: "map_of (remote_servers (w_db w')) n = Some r" if "?m \<noteq> n"
      using probe_others [OF pr] that assms(6) by (auto simp: others_same_def)
    moreover have "n \<in> set (selectOriginProbeCandidates now (length (remote_servers (w_db w'))) (w_db w'))"
      if "?m \<noteq> n" "0 < sr_next_origin_attempt_ts r"
      using due_listed [OF row [OF that(1)] that(2) assms(10)] .
    moreover have "others_same ?m (w_db w) (w_db w')"
      using probe_others [OF pr] by (simp add: others_same_def selectRemoteKeys_def selectRemoteSignatures_def)
    moreover have "\<exists>t. w_origin_fetches w' = w_origin_fetches w @ [(ResultSuccess, t)]"
      using probe_counted [OF pr] by simp
    ultimately show ?thesis using c s by (auto intro!: exI [of _ ?m] exI [of _ s])
  qed auto
qed

theorem sweep_step_progress_witness:
  "\<exists>w' s. sweep_one demo_sweep_env ''early'' (3, 2) demo_sweep_world = (Ret (4, 2), w') \<and>
     map_of (remote_servers (w_db w')) ''early'' = Some s \<and> sr_origin_failures s = 2 \<and> 160000 \<le> sr_next_origin_attempt_ts s \<and>
     ''early'' \<notin> set (selectOriginProbeCandidates 100000 25 (w_db w'))"
proof -
  let ?d = demo_db
  have h: "db_healthy demo_db" by (simp add: db_healthy_def demo_db_def empty_db_def)
  have row: "map_of (remote_servers (w_db demo_sweep_world)) ''early'' = Some (demo_row 10)"
    by (simp add: demo_sweep_world_def demo_db_def)
  have ok: "world_ok demo_sweep_world"
    by (simp add: world_ok_def demo_sweep_world_def demo_db_ok clients_ok_def demo_world_def newWalkSchedule_ok)
  have clock: "clock_ok demo_sweep_env" by (simp add: clock_ok_def demo_sweep_env_def)
  have name: "varchar_ok ''early''" by code_simp
  have now: "100000 = go_div (env_now demo_sweep_env (w_tick demo_sweep_world)) 1000000" by (simp add: demo_sweep_env_def go_div_nonneg)
  obtain addl where "GetRemoteServerMetadata ''early'' ?d = (Ret (Some (server_of_row ''early'' (demo_row 10) addl)), tick ?d)"
    using GetRemoteServerMetadata_row [OF h _ demo_db_ok, of "''early''" "demo_row 10"] varchar_ok_text [OF name] row
    by (auto simp: demo_sweep_world_def)
  then obtain e where "fst (sweep_one demo_sweep_env ''early'' (3, 2) demo_sweep_world) = counted (3, 2) (Fail e)"
    using demo_sweep_fails [of "Some (server_of_row ''early'' (demo_row 10) addl)" 100000 1 "tick ?d"]
    by (auto simp: sweep_one_eq demo_sweep_world_def Let_def demo_sweep_env_def go_div_nonneg shouldProbeOrigin_def server_of_row_def demo_row_def demo_world_def)
  then obtain w' where w': "sweep_one demo_sweep_env ''early'' (3, 2) demo_sweep_world = (Ret (4, 2), w')"
    by (cases "sweep_one demo_sweep_env ''early'' (3, 2) demo_sweep_world") (auto simp: counted_def)
  have "db_healthy (w_db demo_sweep_world)" using h by (simp add: demo_sweep_world_def)
  from sweep_step_progress [OF w' ok clock this name row _ _ now] show ?thesis
    using w' by (intro exI [of _ w']) (auto simp: demo_row_def)
qed

text \<open>
  The second kind of success happens: an origin that answers with the keys of another server is
  counted as recovered, and is due again at the same moment.
\<close>

definition demo_foreign_sweep :: env where
  "demo_foreign_sweep = (demo_origin_env (json_text (json_of_server_key demo_foreign_key)))\<lparr>env_now := (\<lambda>_. 100 * Second)\<rparr>"

lemma demo_foreign_sweep_fetch:
  assumes "db_healthy d" "db_ok d"
  shows "\<exists>c w'. fetchDirectFromOrigin demo_foreign_sweep ''early'' (demo_due_world\<lparr>w_db := d, w_tick := t\<rparr>) = (Ret c, w') \<and>
    rs_ServerName (ck_RemoteServer c) = ''victim''"
proof -
  let ?w = "demo_due_world\<lparr>w_db := d, w_tick := t\<rparr>"
  let ?r = "\<lparr>hr_StatusCode = 200, hr_CacheControl = [], hr_bytes = json_text (json_of_server_key demo_foreign_key), hr_broken = False\<rparr>"
  have split: "split_default ''early'' = Some (''early'', ''8448'', True)" by code_simp
  obtain w1 where g: "GetServerApiUrl demo_foreign_sweep ''early'' ?w = (Ret (''https://early:8448'', ''early''), w1)"
    by (simp add: GetServerApiUrl_eq discover_def split demo_foreign_sweep_def demo_origin_env_def demo_env_def probeWellKnown_def
      classifyWellKnown_def demo_404_def act_bind_def without_delegation_def lookupSrv_def https_url_def Let_def demo_due_world_def
      demo_world_def list_cache_get_def last_set_def)
  have "fst (FederatedGet demo_foreign_sweep (''https://early:8448'' @ ''/_matrix/key/v2/server'') ''early'' w1) = Ret ?r"
    using FederatedGet_call [of demo_foreign_sweep "''https://early:8448'' @ ''/_matrix/key/v2/server''" "''early''" w1]
    by (auto simp: demo_foreign_sweep_def demo_origin_env_def demo_env_def)
  then obtain w2 where f: "FederatedGet demo_foreign_sweep (''https://early:8448'' @ ''/_matrix/key/v2/server'') ''early'' w1 = (Ret ?r, w2)"
    by (metis prod.collapse)
  have db: "db_healthy (w_db ?w)" "db_ok (w_db ?w)" and ok: "hr_StatusCode ?r = 200" using assms by simp_all
  show ?thesis
    using foreign_answer_named [OF g f ok demo_foreign_read demo_foreign_ok demo_foreign_valid(1-4) db demo_foreign_fits [unfolded demo_foreign_valid(5)]]
    by simp
qed

lemma foreign_answer_stays_due:
  "\<exists>w'. sweep_one demo_foreign_sweep ''early'' (0, 0) demo_due_world = (Ret (1, 1), w') \<and>
     ''early'' \<in> set (selectOriginProbeCandidates 100000 (length (remote_servers (w_db w'))) (w_db w'))"
proof -
  let ?d = "w_db demo_due_world" and ?E = demo_foreign_sweep
  have name: "varchar_ok ''early''" by code_simp
  have now: "go_div (env_now ?E t) 1000000 = 100000" for t by (simp add: demo_foreign_sweep_def go_div_nonneg)
  obtain addl where g: "GetRemoteServerMetadata ''early'' ?d = (Ret (Some (server_of_row ''early'' (demo_row 10) addl)), tick ?d)"
    using GetRemoteServerMetadata_row [of ?d "''early''" "demo_row 10"] demo_due_db(1-3) varchar_ok_text [OF name] by auto
  let ?s = "Some (server_of_row ''early'' (demo_row 10) addl)" and ?v = "demo_due_world\<lparr>w_db := tick ?d, w_tick := Suc (w_tick demo_due_world)\<rparr>"
  obtain c w1 where f: "fetchDirectFromOrigin ?E ''early'' (?v\<lparr>w_tick := Suc (w_tick ?v)\<rparr>) = (Ret c, w1)" "rs_ServerName (ck_RemoteServer c) = ''victim''"
    using demo_foreign_sweep_fetch [of "tick ?d" "Suc (w_tick ?v)"] demo_due_db(1,2) by auto
  obtain w' where p: "probeOrigin ?E ''early'' ?s 100000 ?v = (Ret c, w')" using f(1) unfolding probe_eq by simp
  have "shouldProbeOrigin ?s 100000" by (simp add: shouldProbeOrigin_def server_of_row_def demo_row_def)
  then have "sweep_one ?E ''early'' (0, 0) demo_due_world = (Ret (1, 1), w')"
    using g p by (simp add: sweep_one_eq now Let_def counted_def)
  moreover have "map_of (remote_servers (w_db w')) ''early'' = Some (demo_row 10)"
    using probe_others [OF p] f(2) demo_due_db(3) by (simp add: others_same_def)
  ultimately show ?thesis using due_listed [of "w_db w'" "''early''" "demo_row 10" 100000] by (auto simp: demo_row_def)
qed

end
