(* ===== verification/Startup.thy ===== *)
theory Startup
  imports Sweeper SelfKeys "HOL-Library.Multiset"
begin

text \<open>
  Starting the program: the notary list and the order of the steps of \<open>main.go\<close>, and the
  migrations that \<open>db/keydb.go\<close> and \<open>db/migrator.go\<close> apply to the database on every start.
\<close>

subsection \<open>The notary list\<close>

fun add_notaries :: "string \<Rightarrow> string list \<Rightarrow> string list \<Rightarrow> string list" where
  "add_notaries self [] notaries = notaries"
| "add_notaries self (n # ns) notaries =
     (let n = trim_space n in
      if n = [] \<or> n = self \<or> n \<in> set notaries then add_notaries self ns notaries
      else add_notaries self ns (notaries @ [n]))"

definition parseNotaries :: "string \<Rightarrow> string \<Rightarrow> string list" where
  "parseNotaries raw self = add_notaries self (split_on (CHR '','') raw) []"

subsection \<open>The known-server gauges\<close>

text \<open>One refresh: the counts to publish, or nothing when the database did not answer.\<close>

definition refresh_gauges :: "(int \<times> int \<times> int) option io" where
  "refresh_gauges = act_bind (act_try (lift_db CountKnownServers)) (\<lambda>r.
     act_ret (case r of Ret c \<Rightarrow> Some c | _ \<Rightarrow> None))"

definition prepareOwnKey :: "env \<Rightarrow> unit io" where
  "prepareOwnKey E = act_bind (GetSelfKey E) (\<lambda>_. act_ret ())"

subsection \<open>Migrations\<close>

text \<open>
  The schema as the migrations see it: the columns of each table, and the table of the names of
  the migrations that ran. A statement runs by itself; the environment says which of them fail.
\<close>

datatype ddl =
  CreateTable string "string list" "string list"
| AddColumn string string

record schema =
  sc_tables :: "(string list) gomap"
  sc_migrations :: "(string list) option"
  sc_tick :: nat
  sc_fault :: "nat \<Rightarrow> bool"

text \<open>\<open>CREATE TABLE\<close> names the tables it references; it fails if the table exists.\<close>

definition ddl_effect :: "ddl \<Rightarrow> (string list) gomap \<Rightarrow> ((string list) gomap) option" where
  "ddl_effect s ts =
     (case s of
        CreateTable t cols refs \<Rightarrow>
          if map_of ts t \<noteq> None \<or> (\<exists>r \<in> set refs. map_of ts r = None) then None
          else Some (AList.update t cols ts)
      | AddColumn t c \<Rightarrow>
          (case map_of ts t of None \<Rightarrow> None
           | Some cols \<Rightarrow> if c \<in> set cols then None else Some (AList.update t (cols @ [c]) ts)))"

definition schema_stmt :: "(schema \<Rightarrow> schema option) \<Rightarrow> (schema, unit) act" where
  "schema_stmt f d =
     (let d' = d\<lparr>sc_tick := Suc (sc_tick d)\<rparr> in
      if sc_fault d (sc_tick d) then (Fail (Err ''database connection''), d')
      else (case f d' of None \<Rightarrow> (Fail (Err ''SQL error''), d') | Some e \<Rightarrow> (Ret (), e)))"

definition exec_ddl :: "ddl \<Rightarrow> (schema, unit) act" where
  "exec_ddl s = schema_stmt (\<lambda>d. map_option (\<lambda>ts. d\<lparr>sc_tables := ts\<rparr>) (ddl_effect s (sc_tables d)))"

definition prepareMigrations :: "(schema, unit) act" where
  "prepareMigrations = schema_stmt (\<lambda>d.
     Some (if sc_migrations d = None then d\<lparr>sc_migrations := Some []\<rparr> else d))"

definition Up20190727160045AddKeyTables :: "ddl list" where
  "Up20190727160045AddKeyTables =
     [CreateTable ''self_keys'' [''key_id'', ''public_key_b64'', ''private_key_b64'', ''expires_ts''] []]"

definition Up20190728135345AddRemoteKeyTables :: "ddl list" where
  "Up20190728135345AddRemoteKeyTables =
     [CreateTable ''remote_servers'' [''server_name'', ''updated_ts'', ''valid_until_ts'', ''nonstandard_json''] [],
      CreateTable ''remote_keys'' [''server_name'', ''key_id'', ''public_key_b64'', ''expires_ts''] [''remote_servers''],
      CreateTable ''remote_signatures'' [''server_name'', ''key_id'', ''signature_b64''] [''remote_servers'']]"

definition Up20260708000000AddNotaryProvenance :: "ddl list" where
  "Up20260708000000AddNotaryProvenance = [AddColumn ''remote_servers'' ''obtained_via_notary'']"

definition Up20260825000000AddOriginProbeSchedule :: "ddl list" where
  "Up20260825000000AddOriginProbeSchedule =
     [AddColumn ''remote_servers'' ''origin_failures'', AddColumn ''remote_servers'' ''next_origin_attempt_ts'']"

definition select_migration :: "string \<Rightarrow> (schema, bool) act" where
  "select_migration fnName d =
     (let d' = d\<lparr>sc_tick := Suc (sc_tick d)\<rparr> in
      if sc_fault d (sc_tick d) then (Fail (Err ''database connection''), d')
      else (case sc_migrations d' of
              None \<Rightarrow> (Fail (Err ''SQL error''), d')
            | Some names \<Rightarrow> (Ret (fnName \<in> set names), d')))"

definition insert_migration :: "string \<Rightarrow> (schema, unit) act" where
  "insert_migration fnName = schema_stmt (\<lambda>d.
     (case sc_migrations d of
        None \<Rightarrow> None
      | Some names \<Rightarrow> if fnName \<in> set names then None else Some (d\<lparr>sc_migrations := Some (names @ [fnName])\<rparr>)))"

definition applyMigration :: "string \<times> ddl list \<Rightarrow> (schema, unit) act" where
  "applyMigration = (\<lambda>(fnName, up).
     act_bind (select_migration fnName) (\<lambda>executed.
       if executed then act_ret ()
       else act_bind (act_iter exec_ddl up) (\<lambda>_. insert_migration fnName)))"

definition all_migrations :: "(string \<times> ddl list) list" where
  "all_migrations =
     [(''Up20190727160045AddKeyTables'', Up20190727160045AddKeyTables),
      (''Up20190728135345AddRemoteKeyTables'', Up20190728135345AddRemoteKeyTables),
      (''Up20260708000000AddNotaryProvenance'', Up20260708000000AddNotaryProvenance),
      (''Up20260825000000AddOriginProbeSchedule'', Up20260825000000AddOriginProbeSchedule)]"

text \<open>\<open>Setup\<close> up to the preparing of the statements.\<close>

definition Setup_db :: "(schema, unit) act" where
  "Setup_db = act_bind prepareMigrations (\<lambda>_. act_iter applyMigration all_migrations)"

subsection \<open>The notary list\<close>

lemma add_notaries_snoc:
  "add_notaries self (ns @ [n]) acc = (let r = add_notaries self ns acc in
     if trim_space n = [] \<or> trim_space n = self \<or> trim_space n \<in> set r then r else r @ [trim_space n])"
  by (induction ns arbitrary: acc) (simp_all add: Let_def)

lemma add_notaries_remdups:
  "add_notaries self ns [] = rev (remdups (rev (filter (\<lambda>n. n \<noteq> [] \<and> n \<noteq> self) (map trim_space ns))))"
  by (induction ns rule: rev_induct) (auto simp: add_notaries_snoc Let_def)

subsection \<open>Migrations\<close>

definition steady :: "schema \<Rightarrow> bool" where
  "steady d \<longleftrightarrow> (\<forall>t \<ge> sc_tick d. \<not> sc_fault d t)"

definition fresh_schema :: "(nat \<Rightarrow> bool) \<Rightarrow> schema" where
  "fresh_schema fault = \<lparr>sc_tables = [], sc_migrations = None, sc_tick = 0, sc_fault = fault\<rparr>"

lemma skip_recorded:
  "sc_migrations d = Some names \<Longrightarrow> set (map fst ms) \<subseteq> set names \<Longrightarrow>
     (\<exists>e t. act_iter applyMigration ms d = (Fail e, d\<lparr>sc_tick := t\<rparr>) \<and> \<not> steady d) \<or>
     (\<exists>t \<ge> sc_tick d. act_iter applyMigration ms d = (Ret (), d\<lparr>sc_tick := t\<rparr>))"
proof (induction ms arbitrary: d)
  case (Cons m ms)
  obtain fn up where m: "m = (fn, up)" by force
  let ?d = "d\<lparr>sc_tick := Suc (sc_tick d)\<rparr>"
  show ?case
  proof (cases "sc_fault d (sc_tick d)")
    case True
    then show ?thesis by (auto simp: m applyMigration_def select_migration_def act_bind_def steady_def)
  next
    case False
    have "act_iter applyMigration (m # ms) d = act_iter applyMigration ms ?d"
      using False Cons.prems by (simp add: m applyMigration_def select_migration_def act_bind_def)
    moreover have "steady d \<Longrightarrow> steady ?d" by (simp add: steady_def)
    moreover have "(\<exists>e t. act_iter applyMigration ms ?d = (Fail e, d\<lparr>sc_tick := t\<rparr>) \<and> \<not> steady ?d) \<or>
        (\<exists>t \<ge> Suc (sc_tick d). act_iter applyMigration ms ?d = (Ret (), d\<lparr>sc_tick := t\<rparr>))"
      using Cons.IH [of ?d] Cons.prems by simp
    ultimately show ?thesis by (metis Suc_leD)
  qed
qed (auto intro: exI [of _ "sc_tick _"])

lemma prepare_eq:
  "prepareMigrations d = (if sc_fault d (sc_tick d) then (Fail (Err ''database connection''), d\<lparr>sc_tick := Suc (sc_tick d)\<rparr>)
     else (Ret (), d\<lparr>sc_tick := Suc (sc_tick d), sc_migrations := Some (case sc_migrations d of None \<Rightarrow> [] | Some ns \<Rightarrow> ns)\<rparr>))"
  by (cases "sc_migrations d") (simp_all add: prepareMigrations_def schema_stmt_def Let_def)

text \<open>A migration whose first statement cannot run, and that is not recorded, ends every start.\<close>

lemma stuck_at:
  assumes "sc_migrations d = Some names" "fn \<notin> set names" "ddl_effect s (sc_tables d) = None"
  shows "\<exists>e t. applyMigration (fn, s # up) d = (Fail e, d\<lparr>sc_tick := t\<rparr>)"
  using assms by (auto simp: applyMigration_def select_migration_def act_bind_def exec_ddl_def schema_stmt_def Let_def)

lemma setup_stuck:
  assumes "all_migrations = pre @ (fn, s # up) # post" "sc_migrations d = Some names" "set (map fst pre) \<subseteq> set names" "fn \<notin> set names"
    and "ddl_effect s (sc_tables d) = None"
  shows "\<exists>e t. Setup_db d = (Fail e, d\<lparr>sc_tick := t\<rparr>)"
proof (cases "sc_fault d (sc_tick d)")
  case True
  then show ?thesis by (auto simp: Setup_db_def prepare_eq act_bind_def)
next
  case False
  let ?d = "d\<lparr>sc_tick := Suc (sc_tick d)\<rparr>"
  have prep: "prepareMigrations d = (Ret (), ?d)" using False assms(2) by (simp add: prepare_eq)
  have "(\<exists>e t. act_iter applyMigration pre ?d = (Fail e, d\<lparr>sc_tick := t\<rparr>)) \<or> (\<exists>t. act_iter applyMigration pre ?d = (Ret (), d\<lparr>sc_tick := t\<rparr>))"
    using skip_recorded [of ?d names pre] assms(2,3) by auto
  then show ?thesis
  proof (elim disjE exE)
    fix e t assume "act_iter applyMigration pre ?d = (Fail e, d\<lparr>sc_tick := t\<rparr>)"
    then have "Setup_db d = (Fail e, d\<lparr>sc_tick := t\<rparr>)" by (simp add: Setup_db_def assms(1) prep act_bind_def act_iter_append)
    then show ?thesis by blast
  next
    fix t assume t: "act_iter applyMigration pre ?d = (Ret (), d\<lparr>sc_tick := t\<rparr>)"
    obtain e u where "applyMigration (fn, s # up) (d\<lparr>sc_tick := t\<rparr>) = (Fail e, d\<lparr>sc_tick := u\<rparr>)"
      using stuck_at [of "d\<lparr>sc_tick := t\<rparr>" names fn s up] assms(2,4,5) by auto
    then have "Setup_db d = (Fail e, d\<lparr>sc_tick := u\<rparr>)" using t by (simp add: Setup_db_def assms(1) prep act_bind_def act_iter_append)
    then show ?thesis by blast
  qed
qed

subsection \<open>Properties\<close>

text \<open>
  The notary list. It is what the configured names are once trimmed, without empty ones and
  without the server itself, each at its first place only.
\<close>

theorem notary_list_clean:
  "parseNotaries raw self = rev (remdups (rev (filter (\<lambda>n. n \<noteq> [] \<and> n \<noteq> self) (map trim_space (split_on (CHR '','') raw)))))"
  unfolding parseNotaries_def by (rule add_notaries_remdups)

text \<open>
  A start on a migrated database. When every migration is recorded and the database answers,
  the set-up succeeds and changes neither a table nor the record.
\<close>

theorem setup_idempotent:
  assumes "sc_migrations d = Some names" and "fst ` set all_migrations \<subseteq> set names" and "\<forall>t \<ge> sc_tick d. \<not> sc_fault d t"
  shows "\<exists>t. Setup_db d = (Ret (), d\<lparr>sc_tick := t\<rparr>)"
proof -
  let ?d = "d\<lparr>sc_tick := Suc (sc_tick d)\<rparr>"
  have "prepareMigrations d = (Ret (), ?d)" using assms(1,3) by (simp add: prepare_eq)
  moreover have "steady ?d" using assms(3) by (simp add: steady_def)
  ultimately show ?thesis
    using skip_recorded [of ?d names all_migrations] assms(1,2) by (auto simp: Setup_db_def act_bind_def)
qed

lemma demo_setup:
  "fst (Setup_db (fresh_schema (\<lambda>_. False))) = Ret ()"
  "sc_tables (snd (Setup_db (fresh_schema (\<lambda>_. False)))) =
     [(''self_keys'', [''key_id'', ''public_key_b64'', ''private_key_b64'', ''expires_ts'']),
      (''remote_servers'', [''server_name'', ''updated_ts'', ''valid_until_ts'', ''nonstandard_json'', ''obtained_via_notary'',
         ''origin_failures'', ''next_origin_attempt_ts'']),
      (''remote_keys'', [''server_name'', ''key_id'', ''public_key_b64'', ''expires_ts'']),
      (''remote_signatures'', [''server_name'', ''key_id'', ''signature_b64''])]"
  "sc_migrations (snd (Setup_db (fresh_schema (\<lambda>_. False)))) = Some (map fst all_migrations)"
  "sc_fault (snd (Setup_db (fresh_schema (\<lambda>_. False)))) t = False"
  by code_simp+

theorem setup_idempotent_witness:
  "\<exists>d t. Setup_db (fresh_schema (\<lambda>_. False)) = (Ret (), d) \<and> length (sc_tables d) = 4 \<and> Setup_db d = (Ret (), d\<lparr>sc_tick := t\<rparr>)"
proof -
  obtain d where d: "Setup_db (fresh_schema (\<lambda>_. False)) = (Ret (), d)" "sc_migrations d = Some (map fst all_migrations)"
    "length (sc_tables d) = 4" "\<forall>t \<ge> sc_tick d. \<not> sc_fault d t"
    using demo_setup by (cases "Setup_db (fresh_schema (\<lambda>_. False))") auto
  from setup_idempotent [OF d(2) _ d(4)] d show ?thesis by auto
qed

text \<open>The database that a release with the first \<open>k\<close> migrations left; for 0, an empty one.\<close>

definition released :: "nat \<Rightarrow> schema" where
  "released k = (if k = 0 then fresh_schema (\<lambda>_. False)
     else snd (act_bind prepareMigrations (\<lambda>_. act_iter applyMigration (take k all_migrations)) (fresh_schema (\<lambda>_. False))))"

text \<open>What a statement has made stays made, and it cannot be made again.\<close>

fun ddl_effects :: "ddl list \<Rightarrow> (string list) gomap \<Rightarrow> ((string list) gomap) option" where
  "ddl_effects [] ts = Some ts"
| "ddl_effects (s # ss) ts = (case ddl_effect s ts of None \<Rightarrow> None | Some ts' \<Rightarrow> ddl_effects ss ts')"

definition made :: "ddl \<Rightarrow> (string list) gomap \<Rightarrow> bool" where
  "made s ts = (case s of CreateTable t _ _ \<Rightarrow> map_of ts t \<noteq> None
     | AddColumn t c \<Rightarrow> (case map_of ts t of None \<Rightarrow> False | Some cols \<Rightarrow> c \<in> set cols))"

lemma made_by: "ddl_effect s ts = Some ts' \<Longrightarrow> made s ts'"
  by (auto simp: ddl_effect_def made_def split: ddl.splits if_splits option.splits)

lemma made_stays: "ddl_effect s' ts = Some ts' \<Longrightarrow> made s ts \<Longrightarrow> made s ts'"
  by (auto simp: ddl_effect_def made_def split: ddl.splits if_splits option.splits)

lemma made_once: "made s ts \<Longrightarrow> ddl_effect s ts = None"
  by (auto simp: ddl_effect_def made_def split: ddl.splits option.splits)

lemma made_stays_all: "ddl_effects ss ts = Some ts' \<Longrightarrow> made s ts \<Longrightarrow> made s ts'"
  by (induction ss arbitrary: ts) (auto split: option.splits intro: made_stays)

text \<open>A start that loses the database after some statements of a migration.\<close>

lemma skip_works:
  "sc_migrations d = Some names \<Longrightarrow> set (map fst ms) \<subseteq> set names \<Longrightarrow>
   (\<And>t. sc_tick d \<le> t \<Longrightarrow> t < sc_tick d + length ms \<Longrightarrow> \<not> sc_fault d t) \<Longrightarrow>
   act_iter applyMigration ms d = (Ret (), d\<lparr>sc_tick := sc_tick d + length ms\<rparr>)"
proof (induction ms arbitrary: d)
  case (Cons m ms)
  obtain fn up where m: "m = (fn, up)" by force
  let ?d = "d\<lparr>sc_tick := Suc (sc_tick d)\<rparr>"
  have "applyMigration m d = (Ret (), ?d)"
    using Cons.prems by (simp add: m applyMigration_def select_migration_def act_bind_def)
  moreover have "act_iter applyMigration ms ?d = (Ret (), ?d\<lparr>sc_tick := sc_tick ?d + length ms\<rparr>)"
    using Cons.prems by (intro Cons.IH) auto
  ultimately show ?case by (simp add: act_bind_def)
qed simp

lemma ddl_until_fault:
  "j \<le> length ss \<Longrightarrow> ddl_effects (take j ss) (sc_tables d) = Some ts \<Longrightarrow>
   (\<And>t. sc_tick d \<le> t \<Longrightarrow> t < sc_tick d + j \<Longrightarrow> \<not> sc_fault d t) \<Longrightarrow> sc_fault d (sc_tick d + j) \<Longrightarrow>
   act_iter exec_ddl ss d = (if j < length ss then (Fail (Err ''database connection''), d\<lparr>sc_tables := ts, sc_tick := Suc (sc_tick d + j)\<rparr>)
     else (Ret (), d\<lparr>sc_tables := ts, sc_tick := sc_tick d + j\<rparr>))"
proof (induction ss arbitrary: d j)
  case (Cons s ss)
  show ?case
  proof (cases j)
    case 0
    then show ?thesis using Cons.prems by (simp add: exec_ddl_def schema_stmt_def act_bind_def Let_def)
  next
    case (Suc i)
    obtain us where us: "ddl_effect s (sc_tables d) = Some us" "ddl_effects (take i ss) us = Some ts"
      using Cons.prems(2) Suc by (auto split: option.splits)
    let ?d = "d\<lparr>sc_tables := us, sc_tick := Suc (sc_tick d)\<rparr>"
    have "exec_ddl s d = (Ret (), ?d)"
      using Cons.prems(3) [of "sc_tick d"] us(1) Suc by (simp add: exec_ddl_def schema_stmt_def Let_def)
    moreover have "act_iter exec_ddl ss ?d = (if i < length ss then (Fail (Err ''database connection''), ?d\<lparr>sc_tables := ts, sc_tick := Suc (sc_tick ?d + i)\<rparr>)
       else (Ret (), ?d\<lparr>sc_tables := ts, sc_tick := sc_tick ?d + i\<rparr>))"
      using Cons.prems us(2) Suc by (intro Cons.IH) auto
    ultimately show ?thesis using Suc by (simp add: act_bind_def)
  qed
qed simp

lemma apply_interrupted:
  assumes "sc_migrations d = Some names" "fn \<notin> set names" "j \<le> length up" "ddl_effects (take j up) (sc_tables d) = Some ts"
    and "\<And>t. sc_tick d \<le> t \<Longrightarrow> t < Suc (sc_tick d) + j \<Longrightarrow> \<not> sc_fault d t" and "sc_fault d (Suc (sc_tick d) + j)"
  shows "\<exists>e u. applyMigration (fn, up) d = (Fail e, d\<lparr>sc_tables := ts, sc_tick := u\<rparr>)"
proof -
  let ?d = "d\<lparr>sc_tick := Suc (sc_tick d)\<rparr>"
  have "select_migration fn d = (Ret False, ?d)" using assms(1,2,5) by (simp add: select_migration_def)
  moreover have "act_iter exec_ddl up ?d = (if j < length up
      then (Fail (Err ''database connection''), ?d\<lparr>sc_tables := ts, sc_tick := Suc (sc_tick ?d + j)\<rparr>)
      else (Ret (), ?d\<lparr>sc_tables := ts, sc_tick := sc_tick ?d + j\<rparr>))"
    using assms(3-6) by (intro ddl_until_fault) auto
  ultimately show ?thesis using assms(6) by (auto simp: applyMigration_def act_bind_def insert_migration_def schema_stmt_def Let_def)
qed

lemma setup_interrupted:
  assumes "all_migrations = pre @ (fn, up) # post" "names = (case sc_migrations d of None \<Rightarrow> [] | Some ns \<Rightarrow> ns)"
    and "set (map fst pre) \<subseteq> set names" "fn \<notin> set names"
    and "j \<le> length up" "ddl_effects (take j up) (sc_tables d) = Some ts"
    and "\<And>t. sc_tick d \<le> t \<Longrightarrow> t < sc_tick d + length pre + 2 + j \<Longrightarrow> \<not> sc_fault d t"
    and "sc_fault d (sc_tick d + length pre + 2 + j)"
  shows "\<exists>e u. Setup_db d = (Fail e, d\<lparr>sc_migrations := Some names, sc_tables := ts, sc_tick := u\<rparr>)"
proof -
  let ?d = "d\<lparr>sc_tick := Suc (sc_tick d), sc_migrations := Some names\<rparr>"
  let ?e = "?d\<lparr>sc_tick := sc_tick ?d + length pre\<rparr>"
  have "prepareMigrations d = (Ret (), ?d)" using assms(7) by (simp add: prepare_eq assms(2))
  moreover have "act_iter applyMigration pre ?d = (Ret (), ?e)"
    using assms(3,7) by (intro skip_works) auto
  moreover have "\<exists>e u. applyMigration (fn, up) ?e = (Fail e, ?e\<lparr>sc_tables := ts, sc_tick := u\<rparr>)"
    using assms(4-8) by (intro apply_interrupted [of _ names _ j]) auto
  ultimately show ?thesis by (auto simp: Setup_db_def assms(1) act_bind_def act_iter_append)
qed

text \<open>Starts one after the other, each with its own faults: their results, and the database after them.\<close>

fun starts :: "(nat \<Rightarrow> bool) list \<Rightarrow> schema \<Rightarrow> unit go list \<times> schema" where
  "starts [] d = ([], d)"
| "starts (fault # faults) d = (case Setup_db (d\<lparr>sc_fault := fault\<rparr>) of (r, d') \<Rightarrow>
     (case starts faults d' of (rs, d'') \<Rightarrow> (r # rs, d'')))"

lemma starts_stuck:
  assumes "all_migrations = pre @ (fn, s # up) # post" "set (map fst pre) \<subseteq> set names" "fn \<notin> set names"
  shows "sc_migrations d = Some names \<Longrightarrow> made s (sc_tables d) \<Longrightarrow> starts faults d = (rs, d') \<Longrightarrow>
    (\<forall>r \<in> set rs. \<exists>e. r = Fail e) \<and> sc_tables d' = sc_tables d \<and> sc_migrations d' = Some names"
proof (induction faults arbitrary: d rs)
  case (Cons fault faults)
  let ?d = "d\<lparr>sc_fault := fault\<rparr>"
  obtain e t where f: "Setup_db ?d = (Fail e, ?d\<lparr>sc_tick := t\<rparr>)"
    using setup_stuck [OF assms(1) _ assms(2,3), of ?d] Cons.prems(1,2) made_once by auto
  obtain qs where q: "starts faults (?d\<lparr>sc_tick := t\<rparr>) = (qs, d')" "rs = Fail e # qs"
    using Cons.prems(3) f by (auto split: prod.splits)
  from Cons.IH [OF _ _ q(1)] Cons.prems(1,2) q(2) show ?case by simp
qed simp

text \<open>
  C34: a start that is cut off in the middle of a migration. Let the next migration to run have the
  statements \<open>up\<close>, and let the database answer until the first \<open>j\<close> of them have taken effect, at
  least one, and then be lost, before the name of the migration is recorded. That start fails; it
  has left the effect of the \<open>j\<close> statements in the tables and no record of the migration, since
  the statements and the record are no transaction. From then on every start fails, however many
  there are and whatever the database answers to them, and none changes a table or the record.
\<close>

theorem interrupted_migration_blocks_every_start:
  assumes "all_migrations = pre @ (fn, up) # post" and "names = (case sc_migrations d of None \<Rightarrow> [] | Some ns \<Rightarrow> ns)"
    and "fst ` set pre \<subseteq> set names" and "fn \<notin> set names"
    and "1 \<le> j" and "j \<le> length up" and "ddl_effects (take j up) (sc_tables d) = Some ts"
    and "\<forall>t. sc_tick d \<le> t \<and> t < sc_tick d + length pre + 2 + j \<longrightarrow> \<not> sc_fault d t"
    and "sc_fault d (sc_tick d + length pre + 2 + j)"
  shows "\<exists>e d'. Setup_db d = (Fail e, d') \<and> sc_tables d' = ts \<and> sc_migrations d' = Some names \<and>
    (\<forall>faults rs d''. starts faults d' = (rs, d'') \<longrightarrow>
       length rs = length faults \<and> (\<forall>r \<in> set rs. \<exists>e'. r = Fail e') \<and> sc_tables d'' = ts \<and> sc_migrations d'' = Some names)"
proof -
  obtain s us where up: "up = s # us" using assms(5,6) by (cases up) auto
  obtain i where i: "j = Suc i" using assms(5) by (cases j) auto
  have pre: "set (map fst pre) \<subseteq> set names" using assms(3) by simp
  obtain e u where d': "Setup_db d = (Fail e, d\<lparr>sc_migrations := Some names, sc_tables := ts, sc_tick := u\<rparr>)"
    using setup_interrupted [OF assms(1,2) pre assms(4,6,7) _ assms(9)] assms(8) by blast
  have "made s ts" using assms(7) by (auto simp: up i split: option.splits dest: made_by made_stays_all)
  then have "(\<forall>r \<in> set rs. \<exists>e'. r = Fail e') \<and> sc_tables d'' = ts \<and> sc_migrations d'' = Some names"
    if "starts faults (d\<lparr>sc_migrations := Some names, sc_tables := ts, sc_tick := u\<rparr>) = (rs, d'')" for faults rs d''
    using starts_stuck [OF assms(1) [unfolded up] pre assms(4) _ _ that] by simp
  moreover have "starts faults x = (rs, y) \<Longrightarrow> length rs = length faults" for faults x rs y
    by (induction faults arbitrary: x rs) (auto split: prod.splits)
  ultimately show ?thesis using d' by (intro exI [of _ e] exI [of _ "d\<lparr>sc_migrations := Some names, sc_tables := ts, sc_tick := u\<rparr>"]) auto
qed

text \<open>
  Met by the upgrade of the release with three migrations, when the database is lost after the
  first of the two columns of the last one.
\<close>

theorem interrupted_migration_blocks_every_start_witness:
  "\<exists>e d rs d'. Setup_db ((released 3)\<lparr>sc_fault := (\<lambda>t. t = sc_tick (released 3) + 6)\<rparr>) = (Fail e, d) \<and>
     map_of (sc_tables d) ''remote_servers'' = Some [''server_name'', ''updated_ts'', ''valid_until_ts'', ''nonstandard_json'',
       ''obtained_via_notary'', ''origin_failures''] \<and>
     starts [\<lambda>_. False, \<lambda>_. False] d = (rs, d') \<and> length rs = 2 \<and> (\<forall>r \<in> set rs. \<exists>e'. r = Fail e')"
proof -
  let ?d = "(released 3)\<lparr>sc_fault := (\<lambda>t. t = sc_tick (released 3) + 6)\<rparr>"
  let ?pre = "take 3 all_migrations" and ?ts = "AList.update ''remote_servers'' [''server_name'', ''updated_ts'', ''valid_until_ts'',
    ''nonstandard_json'', ''obtained_via_notary'', ''origin_failures''] (sc_tables (released 3))"
  have ms: "all_migrations = ?pre @ (''Up20260825000000AddOriginProbeSchedule'', Up20260825000000AddOriginProbeSchedule) # []"
    by (simp add: all_migrations_def)
  have "sc_migrations (released 3) = Some (map fst (take 3 all_migrations))" by code_simp
  then have names: "map fst ?pre = (case sc_migrations ?d of None \<Rightarrow> [] | Some ns \<Rightarrow> ns)" by simp
  have "ddl_effects (take 1 Up20260825000000AddOriginProbeSchedule) (sc_tables (released 3)) = Some ?ts" by code_simp
  then have ts: "ddl_effects (take 1 Up20260825000000AddOriginProbeSchedule) (sc_tables ?d) = Some ?ts" by simp
  have rest: "''Up20260825000000AddOriginProbeSchedule'' \<notin> set (map fst ?pre)" "length ?pre = 3"
    "1 \<le> length Up20260825000000AddOriginProbeSchedule"
    by (simp_all add: all_migrations_def Up20260825000000AddOriginProbeSchedule_def)
  obtain e d where "Setup_db ?d = (Fail e, d)" "sc_tables d = ?ts"
    "\<forall>faults rs d''. starts faults d = (rs, d'') \<longrightarrow> length rs = length faults \<and> (\<forall>r \<in> set rs. \<exists>e'. r = Fail e') \<and>
       sc_tables d'' = ?ts \<and> sc_migrations d'' = Some (map fst ?pre)"
    using interrupted_migration_blocks_every_start [OF ms names _ rest(1) _ rest(3) ts] rest(2) by auto
  moreover obtain rs d' where "starts [\<lambda>_. False, \<lambda>_. False] d = (rs, d')" by (cases "starts [\<lambda>_. False, \<lambda>_. False] d")
  ultimately have "length rs = 2" "\<forall>r \<in> set rs. \<exists>e'. r = Fail e'" by fastforce+
  moreover note \<open>Setup_db ?d = (Fail e, d)\<close> \<open>sc_tables d = ?ts\<close> \<open>starts [\<lambda>_. False, \<lambda>_. False] d = (rs, d')\<close>
  ultimately show ?thesis by (intro exI [of _ e] exI [of _ d] exI [of _ rs] exI [of _ d']) simp
qed

subsection \<open>Prepared statements\<close>

text \<open>
  \<open>queries\<close> maps the name of a statement to its text. What \<open>db.Prepare\<close> needs of the schema is
  the tables and columns that the text names.
\<close>

type_synonym query = "string \<times> (string \<times> string list) list"

definition queries :: "query list" where
  "queries =
     [(''selectAllSelfKeys'', [(''self_keys'', [''key_id'', ''public_key_b64'', ''private_key_b64'', ''expires_ts''])]),
      (''selectActiveSelfKeyIds'', [(''self_keys'', [''key_id'', ''expires_ts''])]),
      (''selectSelfKey'', [(''self_keys'', [''public_key_b64'', ''private_key_b64'', ''expires_ts'', ''key_id''])]),
      (''insertActiveSelfKey'', [(''self_keys'', [''key_id'', ''public_key_b64'', ''private_key_b64''])]),
      (''selectRemoteServer'', [(''remote_servers'', [''updated_ts'', ''valid_until_ts'', ''nonstandard_json'', ''obtained_via_notary'',
         ''origin_failures'', ''next_origin_attempt_ts'', ''server_name''])]),
      (''selectRemoteKeys'', [(''remote_keys'', [''key_id'', ''public_key_b64'', ''expires_ts'', ''server_name''])]),
      (''selectRemoteSignatures'', [(''remote_signatures'', [''key_id'', ''signature_b64'', ''server_name''])]),
      (''deleteRemoteKeys'', [(''remote_keys'', [''server_name''])]),
      (''deleteRemoteSignatures'', [(''remote_signatures'', [''server_name''])]),
      (''upsertRemoteServer'', [(''remote_servers'', [''server_name'', ''updated_ts'', ''valid_until_ts'', ''nonstandard_json'',
         ''obtained_via_notary''])]),
      (''noteOriginFailure'', [(''remote_servers'', [''server_name'', ''updated_ts'', ''valid_until_ts'', ''nonstandard_json'',
         ''origin_failures'', ''next_origin_attempt_ts''])]),
      (''selectOriginProbeCandidates'', [(''remote_servers'', [''server_name'', ''next_origin_attempt_ts''])]),
      (''resetOriginProbe'', [(''remote_servers'', [''origin_failures'', ''next_origin_attempt_ts'', ''server_name''])]),
      (''insertRemoteKey'', [(''remote_keys'', [''server_name'', ''key_id'', ''public_key_b64'', ''expires_ts''])]),
      (''insertRemoteSignature'', [(''remote_signatures'', [''server_name'', ''key_id'', ''signature_b64''])]),
      (''invalidateRemoteServer'', [(''remote_servers'', [''valid_until_ts'', ''updated_ts'', ''server_name''])]),
      (''countKnownServers'', [(''remote_servers'', [''obtained_via_notary'', ''server_name'']), (''remote_keys'', [''server_name''])])]"

definition names_known :: "(string list) gomap \<Rightarrow> (string \<times> string list) list \<Rightarrow> bool" where
  "names_known ts needs \<longleftrightarrow> list_all (\<lambda>(t, cols). case map_of ts t of None \<Rightarrow> False | Some have \<Rightarrow> list_all (\<lambda>c. c \<in> set have) cols) needs"

definition prepare :: "(string \<times> string list) list \<Rightarrow> (schema, unit) act" where
  "prepare needs = schema_stmt (\<lambda>d. if names_known (sc_tables d) needs then Some d else None)"

text \<open>The loop over the map, in the order in which it comes; \<open>statements\<close> collects the names.\<close>

fun prepareStatements :: "query list \<Rightarrow> string list \<Rightarrow> (schema, string list) act" where
  "prepareStatements [] statements = act_ret statements"
| "prepareStatements ((k, needs) # qs) statements =
     act_bind (prepare needs) (\<lambda>_. prepareStatements qs (statements @ [k]))"

definition Setup :: "query list \<Rightarrow> (schema, string list) act" where
  "Setup order = act_bind Setup_db (\<lambda>_. prepareStatements order [])"

lemma prepare_all:
  "list_all (\<lambda>(_, needs). names_known (sc_tables d) needs) qs \<Longrightarrow> steady d \<Longrightarrow>
   \<exists>t \<ge> sc_tick d. prepareStatements qs names d = (Ret (names @ map fst qs), d\<lparr>sc_tick := t\<rparr>)"
proof (induction qs arbitrary: d names)
  case (Cons q qs)
  obtain k needs where q: "q = (k, needs)" by force
  let ?d = "d\<lparr>sc_tick := Suc (sc_tick d)\<rparr>"
  have p: "prepare needs d = (Ret (), ?d)"
    using Cons.prems by (simp add: q prepare_def schema_stmt_def steady_def)
  have "list_all (\<lambda>(_, needs). names_known (sc_tables ?d) needs) qs" "steady ?d" using Cons.prems by (simp_all add: steady_def)
  from Cons.IH [OF this, of "names @ [k]"] obtain t where
    "t \<ge> Suc (sc_tick d)" "prepareStatements qs (names @ [k]) ?d = (Ret ((names @ [k]) @ map fst qs), d\<lparr>sc_tick := t\<rparr>)" by auto
  then show ?case using p by (auto simp: q act_bind_def intro!: exI [of _ t])
qed (auto intro: exI [of _ "sc_tick _"])

definition current_tables :: "(string list) gomap" where
  "current_tables =
     [(''self_keys'', [''key_id'', ''public_key_b64'', ''private_key_b64'', ''expires_ts'']),
      (''remote_servers'', [''server_name'', ''updated_ts'', ''valid_until_ts'', ''nonstandard_json'', ''obtained_via_notary'',
         ''origin_failures'', ''next_origin_attempt_ts'']),
      (''remote_keys'', [''server_name'', ''key_id'', ''public_key_b64'', ''expires_ts'']),
      (''remote_signatures'', [''server_name'', ''key_id'', ''signature_b64''])]"

lemma queries_known: "list_all (\<lambda>(_, needs). names_known current_tables needs) queries"
  by code_simp

lemma prepare_current:
  assumes "mset order = mset queries" "sc_tables d = current_tables" "steady d"
  shows "\<exists>t \<ge> sc_tick d. prepareStatements order [] d = (Ret (map fst order), d\<lparr>sc_tick := t\<rparr>)"
proof -
  have "list_all (\<lambda>(_, needs). names_known (sc_tables d) needs) order"
    using queries_known mset_eq_setD [OF assms(1)] by (simp add: assms(2) list_all_iff)
  from prepare_all [OF this assms(3), of "[]"] show ?thesis by simp
qed

lemma migrate_released:
  "list_all (\<lambda>k. case Setup_db (released k) of (r, d) \<Rightarrow> r = Ret () \<and> sc_tables d = current_tables \<and> sc_migrations d = Some (map fst all_migrations))
     [0, 1, 2, 3, 4]"
  by code_simp

lemma schema_stmt_fault: "(\<And>d e. f d = Some e \<Longrightarrow> sc_fault e = sc_fault d) \<Longrightarrow> sc_fault (snd (schema_stmt f d)) = sc_fault d"
  by (fastforce simp: schema_stmt_def Let_def split: option.split)

lemma applyMigration_fault: "sc_fault (snd (applyMigration m d)) = sc_fault d"
proof -
  obtain fn up where m: "m = (fn, up)" by force
  have ddl: "sc_fault (snd (exec_ddl s d)) = sc_fault d" for s d
    unfolding exec_ddl_def by (rule schema_stmt_fault) auto
  have ins: "sc_fault (snd (insert_migration n d)) = sc_fault d" for n d
    unfolding insert_migration_def by (rule schema_stmt_fault) (auto split: option.splits if_splits)
  have sel: "sc_fault (snd (select_migration n d)) = sc_fault d" for n d
    by (simp add: select_migration_def Let_def split: option.split)
  have iter: "sc_fault (snd (act_iter exec_ddl ss e)) = sc_fault d" if "sc_fault e = sc_fault d" for ss e
    using that by (intro act_iter_keeps [where P = "\<lambda>x. sc_fault x = sc_fault d"]) (simp_all add: ddl)
  show ?thesis unfolding m applyMigration_def prod.case
    by (rule act_bind_keeps [where P = "\<lambda>e. sc_fault e = sc_fault d"])
      (auto simp: sel ins iter intro!: act_bind_keeps [where P = "\<lambda>e. sc_fault e = sc_fault d"])
qed

lemma prepareMigrations_fault: "sc_fault (snd (prepareMigrations d)) = sc_fault d"
  unfolding prepareMigrations_def by (rule schema_stmt_fault) (auto split: if_splits)

lemma setup_fault:
  "sc_fault (snd (act_bind prepareMigrations (\<lambda>_. act_iter applyMigration ms) d)) = sc_fault d"
  by (rule act_bind_keeps [where P = "\<lambda>e. sc_fault e = sc_fault d"])
    (auto simp: prepareMigrations_fault applyMigration_fault intro!: act_iter_keeps [where P = "\<lambda>e. sc_fault e = sc_fault d"])

text \<open>A later start finds everything in place.\<close>

lemma setup_current:
  assumes "mset order = mset queries" "sc_tables d = current_tables" "sc_migrations d = Some (map fst all_migrations)" "steady d"
  shows "\<exists>t. Setup order d = (Ret (map fst order), d\<lparr>sc_tick := t\<rparr>)"
proof -
  let ?d = "d\<lparr>sc_tick := Suc (sc_tick d)\<rparr>"
  have "steady ?d" using assms(4) by (simp add: steady_def)
  then obtain t where t: "act_iter applyMigration all_migrations ?d = (Ret (), ?d\<lparr>sc_tick := t\<rparr>)" "sc_tick ?d \<le> t"
    using skip_recorded [of ?d "map fst all_migrations" all_migrations] assms(3) by fastforce
  have "prepareMigrations d = (Ret (), ?d)" using assms(3,4) by (simp add: prepare_eq steady_def)
  then have "Setup_db d = (Ret (), d\<lparr>sc_tick := t\<rparr>)" using t by (simp add: Setup_db_def act_bind_def)
  moreover have "steady (d\<lparr>sc_tick := t\<rparr>)" using assms(4) t(2) by (simp add: steady_def)
  ultimately show ?thesis using prepare_current [OF assms(1), of "d\<lparr>sc_tick := t\<rparr>"] assms(2) by (auto simp: Setup_def act_bind_def)
qed

lemma setup_released:
  assumes "mset order = mset queries"
  shows "\<exists>d. Setup order (released k) = (Ret (map fst order), d) \<and> distinct (map fst order) \<and> sc_migrations d = Some (map fst all_migrations) \<and>
    sc_tables d = current_tables \<and> steady d"
proof -
  have "released k = released (min k 4)" by (simp add: released_def all_migrations_def min_def)
  moreover have "min k 4 \<in> set [0, 1, 2, 3, 4]" by auto
  ultimately obtain j where "released k = released j" "j \<in> set [0, 1, 2, 3, 4]" by blast
  then have "case Setup_db (released k) of (r, d) \<Rightarrow> r = Ret () \<and> sc_tables d = current_tables \<and>
      sc_migrations d = Some (map fst all_migrations)"
    using migrate_released unfolding list_all_iff by (simp only:)
  then obtain d where d: "Setup_db (released k) = (Ret (), d)" "sc_tables d = current_tables" "sc_migrations d = Some (map fst all_migrations)"
    by (cases "Setup_db (released k)") auto
  have "sc_fault (snd (Setup_db (released k))) = sc_fault (released k)" "sc_fault (released k) = (\<lambda>_. False)"
    unfolding Setup_db_def by (simp_all add: released_def setup_fault) (simp add: fresh_schema_def)
  then have "steady d" using d(1) by (simp add: steady_def)
  then obtain t where "prepareStatements order [] d = (Ret (map fst order), d\<lparr>sc_tick := t\<rparr>)" "sc_tick d \<le> t"
    using prepare_current [OF assms d(2)] by blast
  then have "Setup order (released k) = (Ret (map fst order), d\<lparr>sc_tick := t\<rparr>)" using d(1) by (simp add: Setup_def act_bind_def)
  moreover have "steady (d\<lparr>sc_tick := t\<rparr>)" using \<open>steady d\<close> \<open>sc_tick d \<le> t\<close> by (simp add: steady_def)
  moreover have "distinct (map fst order)"
  proof -
    have "distinct (map fst queries)" by code_simp
    then show ?thesis using assms by (metis mset_eq_imp_distinct_iff mset_map)
  qed
  ultimately show ?thesis using d(2,3) by auto
qed

text \<open>
  C35: an upgrade. On an empty database, and on the database of every earlier release, the set-up
  succeeds, records every migration, and can prepare every statement of the program, in whatever
  order the map of the statements is read: no statement names a table or a column that the
  migrations do not make.
\<close>

theorem setup_prepares_every_statement:
  assumes "mset order = mset queries"
  shows "\<exists>names d. Setup order (released k) = (Ret names, d) \<and> set names = fst ` set queries \<and> distinct names \<and>
    sc_migrations d = Some (map fst all_migrations)"
  using setup_released [OF assms, of k] mset_eq_setD [OF assms] by auto

theorem setup_prepares_every_statement_witness:
  "\<exists>names d. Setup (rev queries) (released 2) = (Ret names, d) \<and> set names = fst ` set queries"
  using setup_prepares_every_statement [of "rev queries" 2] by auto

end
