(* ===== verification/System.thy ===== *)
theory System
  imports Api Startup
begin

text \<open>
  The process (\<open>main.go\<close>): its start, and what it then does for as long as it runs. Requests,
  sweeps and refreshes of the gauges come in any order; the process may end at any moment and be
  started again, with other flags, on the same database.
\<close>

subsection \<open>The process\<close>

text \<open>
  What a start is given: the flags, the contents of files, \<open>sql.Open\<close> (the first call of \<open>db.Setup\<close>), and the order in which
  the map of statements is read. And what a process holds: \<open>p_running\<close> is whether it serves, and
  the fields after it are its memory; the schema and the database of the world outlive it.
\<close>

record boot =
  bt_domain :: string
  bt_postgres :: string
  bt_notaries :: string
  bt_ReadFile :: "string \<Rightarrow> string go"
  bt_Open :: "string \<Rightarrow> unit go"
  bt_order :: "query list"

record process =
  p_schema :: schema
  p_world :: world
  p_running :: bool
  p_statements :: "string list"
  p_SelfDomainName :: string
  p_TrustedNotaries :: "string list"
  p_gauges :: "(int \<times> int \<times> int) option"

definition on_schema :: "(schema, 'a) act \<Rightarrow> (process, 'a) act" where
  "on_schema m p = (case m (p_schema p) of (r, s) \<Rightarrow> (r, p\<lparr>p_schema := s\<rparr>))"

definition on_world :: "'a io \<Rightarrow> (process, 'a) act" where
  "on_world m p = (case m (p_world p) of (r, w) \<Rightarrow> (r, p\<lparr>p_world := w\<rparr>))"

definition update :: "(process \<Rightarrow> process) \<Rightarrow> (process, unit) act" where
  "update f p = (Ret (), f p)"

subsection \<open>The start\<close>

definition postgres_url :: "boot \<Rightarrow> string go" where
  "postgres_url B =
     (if has_prefix ''/run/secrets'' (bt_postgres B) then go_bind (bt_ReadFile B (bt_postgres B)) (\<lambda>b. Ret (trim_space b))
      else Ret (bt_postgres B))"

text \<open>The environment of the running process: its two package variables are what \<open>main\<close> set.\<close>

definition configured :: "env \<Rightarrow> process \<Rightarrow> env" where
  "configured E p = E\<lparr>env_SelfDomainName := p_SelfDomainName p, env_TrustedNotaries := p_TrustedNotaries p\<rparr>"

definition SetKnownServers :: "int \<times> int \<times> int \<Rightarrow> (process, unit) act" where
  "SetKnownServers counts = update (\<lambda>p. p\<lparr>p_gauges := Some counts\<rparr>)"

definition refreshKnownServers :: "(process, unit) act" where
  "refreshKnownServers = act_bind (on_world refresh_gauges) (\<lambda>r.
     (case r of None \<Rightarrow> act_ret () | Some counts \<Rightarrow> SetKnownServers counts))"

definition main :: "boot \<Rightarrow> env \<Rightarrow> (process, unit) act" where
  "main B E =
     act_bind (act_pure (postgres_url B)) (\<lambda>url.
     act_bind (act_pure (bt_Open B url)) (\<lambda>_.
     act_bind (on_schema (Setup (bt_order B))) (\<lambda>statements.
     act_bind (update (\<lambda>p. p\<lparr>p_statements := statements, p_SelfDomainName := bt_domain B,
       p_TrustedNotaries := parseNotaries (bt_notaries B) (bt_domain B)\<rparr>)) (\<lambda>_.
     act_bind (\<lambda>p. on_world (prepareOwnKey (configured E p)) p) (\<lambda>_.
     act_bind refreshKnownServers (\<lambda>_.
       update (\<lambda>p. p\<lparr>p_running := True\<rparr>)))))))"

text \<open>The memory of a process that has just been created.\<close>

definition fresh_memory :: "world \<Rightarrow> world" where
  "fresh_memory w = w\<lparr>w_walks := newWalkSchedule notaryWalkCooldown, w_urls := [], w_clients := [], w_own := None,
     w_discovery := [], w_outcomes := [], w_origin_fetches := [], w_notary_fetches := [], w_requests := []\<rparr>"

definition fresh_process :: "process \<Rightarrow> process" where
  "fresh_process p = p\<lparr>p_world := fresh_memory (p_world p), p_running := False, p_statements := [], p_SelfDomainName := [],
     p_TrustedNotaries := [], p_gauges := None\<rparr>"

subsection \<open>The life of the process\<close>

text \<open>
  The router calls a handler only for the method it is registered with, and a fallback for any
  other request. A handler that panics ends its request; a sweep that panics ends the process. \<open>Stop\<close> is any
  end of the process between two steps; a process that dies within a step is one whose remaining
  statements of that step fail.
\<close>

definition ended :: "'a go \<Rightarrow> bool" where
  "ended r = (case r of Panic p \<Rightarrow> True | _ \<Rightarrow> False)"

inductive process_step :: "env \<Rightarrow> process \<Rightarrow> process \<Rightarrow> bool" for E where
  Start: "\<not> p_running p \<Longrightarrow> mset (bt_order B) = mset queries \<Longrightarrow> process_step E p (snd (main B E (fresh_process p)))"
| Request: "p_running p \<Longrightarrow> (path, rq_Method r, h) \<in> set (registered_routes (configured E p) order) \<Longrightarrow>
     process_step E p (snd (on_world (ServeHTTP (configured E p) h r) p))"
| Unrouted: "p_running p \<Longrightarrow> h \<in> set fallback_handlers \<Longrightarrow> process_step E p (snd (on_world (ServeHTTP (configured E p) h r) p))"
| Sweep: "p_running p \<Longrightarrow> on_world (sweepOriginsOnce (configured E p)) p = (r, q) \<Longrightarrow>
     process_step E p (q\<lparr>p_running := \<not> ended r\<rparr>)"
| Gauges: "p_running p \<Longrightarrow> process_step E p (snd (refreshKnownServers p))"
| Stop: "p_running p \<Longrightarrow> process_step E p (p\<lparr>p_running := False\<rparr>)"

abbreviation process_runs :: "env \<Rightarrow> process \<Rightarrow> process \<Rightarrow> bool" where
  "process_runs E \<equiv> (process_step E)\<^sup>*\<^sup>*"

subsection \<open>The start, step by step\<close>

lemma on_world_bind: "act_bind (on_world m) f p = (case m (p_world p) of
    (Ret x, w) \<Rightarrow> f x (p\<lparr>p_world := w\<rparr>) | (Fail e, w) \<Rightarrow> (Fail e, p\<lparr>p_world := w\<rparr>) | (Panic s, w) \<Rightarrow> (Panic s, p\<lparr>p_world := w\<rparr>))"
  by (auto simp: act_bind_def on_world_def split: prod.split go.split)

lemma on_world_snd: "snd (on_world m p) = p\<lparr>p_world := snd (m (p_world p))\<rparr>"
  by (simp add: on_world_def split: prod.split)

lemma CountKnownServers_snd: "snd (CountKnownServers d) = tick d"
  using query_snd(2) [of "[]" "\<lambda>d. [countKnownServers d]" d]
  by (cases "query_row [] (\<lambda>d. [countKnownServers d]) d"; cases "fst (query_row [] (\<lambda>d. [countKnownServers d]) d)")
    (auto simp: CountKnownServers_def act_bind_def split: option.split)

lemma refresh_gauges_snd: "snd (refresh_gauges w) = w\<lparr>w_db := tick (w_db w)\<rparr>"
  using CountKnownServers_snd [of "w_db w"]
  by (cases "CountKnownServers (w_db w)") (auto simp: refresh_gauges_def act_bind_try lift_db_def split: go.split)

lemma refresh_snd: "snd (refreshKnownServers p) = (let r = fst (refresh_gauges (p_world p)); w = snd (refresh_gauges (p_world p)) in
    case r of Ret (Some c) \<Rightarrow> p\<lparr>p_world := w, p_gauges := Some c\<rparr> | _ \<Rightarrow> p\<lparr>p_world := w\<rparr>)"
  by (cases "refresh_gauges (p_world p)"; cases "fst (refresh_gauges (p_world p))")
    (auto simp: refreshKnownServers_def on_world_bind SetKnownServers_def update_def Let_def split: option.split)

lemma refresh_world [simp]: "p_world (snd (refreshKnownServers p)) = snd (refresh_gauges (p_world p))"
  "p_running (snd (refreshKnownServers p)) = p_running p" "p_statements (snd (refreshKnownServers p)) = p_statements p"
  "p_SelfDomainName (snd (refreshKnownServers p)) = p_SelfDomainName p" "p_TrustedNotaries (snd (refreshKnownServers p)) = p_TrustedNotaries p"
  by (auto simp: refresh_snd Let_def split: go.split option.split)


lemma prepareStatements_Ret: "prepareStatements qs names d = (Ret r, d') \<Longrightarrow> r = names @ map fst qs"
  by (induction qs names arbitrary: d rule: prepareStatements.induct) (fastforce simp: act_bind_eq_Ret_iff)+

lemma Setup_Ret: "Setup order d = (Ret names, d') \<Longrightarrow> names = map fst order"
  by (auto simp: Setup_def act_bind_eq_Ret_iff dest: prepareStatements_Ret)

text \<open>The environment that a start configures, and the two ways in which a start ends.\<close>

definition boot_env :: "boot \<Rightarrow> env \<Rightarrow> env" where
  "boot_env B E = E\<lparr>env_SelfDomainName := bt_domain B, env_TrustedNotaries := parseNotaries (bt_notaries B) (bt_domain B)\<rparr>"

lemma prepareOwnKey_eq: "prepareOwnKey E w = (case GetSelfKey E w of (r, w') \<Rightarrow> (go_bind r (\<lambda>_. Ret ()), w'))"
  by (auto simp: prepareOwnKey_def act_bind_def split: prod.split go.split)

text \<open>The state of a start once the database is set up and the flags are read.\<close>

definition configured_start :: "boot \<Rightarrow> process \<Rightarrow> string list \<Rightarrow> schema \<Rightarrow> process" where
  "configured_start B p names s = p\<lparr>p_schema := s, p_statements := names, p_SelfDomainName := bt_domain B,
     p_TrustedNotaries := parseNotaries (bt_notaries B) (bt_domain B)\<rparr>"

definition own_key_and_gauges :: "boot \<Rightarrow> env \<Rightarrow> (process, unit) act" where
  "own_key_and_gauges B E = act_bind (on_world (prepareOwnKey (boot_env B E))) (\<lambda>_. act_bind refreshKnownServers (\<lambda>_.
     update (\<lambda>p. p\<lparr>p_running := True\<rparr>)))"

lemma main_phases:
  obtains (early) s where "snd (main B E p) = p\<lparr>p_schema := s\<rparr>"
  | (ready) names s where "Setup (bt_order B) (p_schema p) = (Ret names, s)"
      "snd (main B E p) = snd (own_key_and_gauges B E (configured_start B p names s))"
proof (cases "postgres_url B")
  case (Ret url)
  note url = Ret
  show thesis
  proof (cases "bt_Open B url")
    case Ret
    obtain r s where s: "Setup (bt_order B) (p_schema p) = (r, s)" by force
    show thesis
      by (cases r) (use url Ret s early [of s] ready [of _ s] in
        \<open>simp_all add: main_def act_bind_def on_schema_def update_def configured_start_def own_key_and_gauges_def configured_def boot_env_def\<close>)
  qed (use url early [of "p_schema p"] in \<open>simp_all add: main_def act_bind_def\<close>)
qed (use early [of "p_schema p"] in \<open>simp_all add: main_def act_bind_def\<close>)

lemma main_outcome:
  fixes B E p
  defines "w \<equiv> snd (GetSelfKey (boot_env B E) (p_world p))" and "q \<equiv> snd (main B E p)"
  obtains (failed) "p_running q = p_running p" "p_world q \<in> {p_world p, w, w\<lparr>w_db := tick (w_db w)\<rparr>}"
  | (started) k where "fst (GetSelfKey (boot_env B E) (p_world p)) = Ret k" "p_running q" "p_world q = w\<lparr>w_db := tick (w_db w)\<rparr>"
      "p_statements q = map fst (bt_order B)" "p_SelfDomainName q = bt_domain B" "p_TrustedNotaries q = parseNotaries (bt_notaries B) (bt_domain B)"
proof (rule main_phases [of B E p, folded q_def])
  show thesis if "q = p\<lparr>p_schema := s\<rparr>" for s using that by (intro failed) simp_all
next
  fix names s
  assume set_up: "Setup (bt_order B) (p_schema p) = (Ret names, s)" and q: "q = snd (own_key_and_gauges B E (configured_start B p names s))"
  let ?u = "(configured_start B p names s)\<lparr>p_world := w\<rparr>"
  obtain r where r: "GetSelfKey (boot_env B E) (p_world p) = (r, w)" by (simp add: w_def prod_eq_iff)
  show thesis
  proof (cases r)
    case (Ret k)
    have "q = snd (act_bind refreshKnownServers (\<lambda>_. update (\<lambda>p. p\<lparr>p_running := True\<rparr>)) ?u)"
      using q r Ret by (simp add: own_key_and_gauges_def on_world_bind prepareOwnKey_eq configured_start_def)
    moreover obtain o' v where o: "refreshKnownServers ?u = (o', v)" by force
    ultimately have "q = (case o' of Ret _ \<Rightarrow> v\<lparr>p_running := True\<rparr> | _ \<Rightarrow> v)"
      by (simp only: act_bind_def update_def) (simp split: go.split)
    moreover have "v = snd (refreshKnownServers ?u)" using o by simp
    then have "p_world v = w\<lparr>w_db := tick (w_db w)\<rparr>" "p_running v = p_running p" "p_statements v = names"
      "p_SelfDomainName v = bt_domain B" "p_TrustedNotaries v = parseNotaries (bt_notaries B) (bt_domain B)"
      by (simp_all add: refresh_gauges_snd configured_start_def)
    ultimately show thesis using r Ret Setup_Ret [OF set_up] by (cases o') (auto intro: failed started)
  qed (use q r in \<open>auto simp: own_key_and_gauges_def on_world_bind prepareOwnKey_eq configured_start_def intro: failed\<close>)
qed

subsection \<open>What every step keeps\<close>

text \<open>
  The invariant of the process: the tables are well formed; and while it runs, its whole world
  is, it has a signing key, every statement is prepared, and its list of notaries has neither
  itself nor a name twice.
\<close>

definition process_ok :: "process \<Rightarrow> bool" where
  "process_ok p \<longleftrightarrow> db_ok (w_db (p_world p)) \<and>
     (p_running p \<longrightarrow> world_ok (p_world p) \<and> w_own (p_world p) \<noteq> None \<and> set (p_statements p) = fst ` set queries \<and>
        distinct (p_TrustedNotaries p) \<and> p_SelfDomainName p \<notin> set (p_TrustedNotaries p) \<and> [] \<notin> set (p_TrustedNotaries p))"

lemma fresh_memory_world [simp]: "w_db (fresh_memory w) = w_db w" "w_own (fresh_memory w) = None"
  by (simp_all add: fresh_memory_def)

lemma fresh_process_fields [simp]: "p_world (fresh_process p) = fresh_memory (p_world p)" "\<not> p_running (fresh_process p)"
  by (simp_all add: fresh_process_def)

lemma fresh_memory_ok: "db_ok (w_db w) \<Longrightarrow> world_ok (fresh_memory w)"
  by (simp add: world_ok_def fresh_memory_def clients_ok_def newWalkSchedule_ok)

lemma parsed_notaries: "distinct (parseNotaries raw self) \<and> self \<notin> set (parseNotaries raw self) \<and> [] \<notin> set (parseNotaries raw self)"
  by (simp add: parseNotaries_def add_notaries_remdups)

lemma world_ok_tick: "world_ok w \<Longrightarrow> world_ok (w\<lparr>w_db := tick (w_db w)\<rparr>)"
  by (simp add: world_ok_def clients_ok_def same_tables_ok [of "w_db w" "tick (w_db w)"])

lemma configured_clock [simp]: "clock_ok (configured E p) = clock_ok E"
  by (simp add: clock_ok_def configured_def)

text \<open>A step other than a start or a stop: what serving respects, and the fields it leaves alone.\<close>

lemma process_step_kinds:
  assumes "process_step E p q"
  obtains (start) B where "\<not> p_running p" "mset (bt_order B) = mset queries" "q = snd (main B E (fresh_process p))"
  | (serve) "p_running p" "p_statements q = p_statements p" "p_SelfDomainName q = p_SelfDomainName p"
      "p_TrustedNotaries q = p_TrustedNotaries p" "keeps_ok_in (configured E p) (p_world p) (p_world q)" "same_identity (p_world p) (p_world q)"
      "keeps_labels (configured E p) (p_world p) (p_world q)"
  using assms
proof cases
  case (Start B)
  then show thesis using start by blast
next
  case (Request path r h order)
  show thesis
    by (rule serve) (use Request valid.moves_step [OF valid.moves_route [OF Request(3)]] steady.moves_step [OF steady.moves_route [OF Request(3)]]
        labelled.moves_step [OF labelled.moves_route [OF Request(3)]] in \<open>simp_all add: on_world_snd\<close>)
next
  case (Unrouted h r)
  show thesis
    by (rule serve) (use Unrouted valid.moves_step [OF valid.moves_fallback [OF Unrouted(3)]] steady.moves_step [OF steady.moves_fallback [OF Unrouted(3)]]
        labelled.moves_step [OF labelled.moves_fallback [OF Unrouted(3)]] in \<open>simp_all add: on_world_snd\<close>)
next
  case (Sweep r q')
  have "q' = p\<lparr>p_world := snd (sweepOriginsOnce (configured E p) (p_world p))\<rparr>" using Sweep(3) on_world_snd by (metis snd_conv)
  then show thesis using Sweep valid.moves_step [OF valid.moves_sweep] steady.moves_step [OF steady.moves_sweep]
    labelled.moves_step [OF labelled.moves_sweep] by (intro serve) simp_all
next
  case Gauges
  have "same_tables (w_db (p_world p)) (tick (w_db (p_world p)))" by simp
  from valid.reading [OF this] steady.reading [OF this] labelled.reading [OF this] show thesis using Gauges by (intro serve) (simp_all add: refresh_gauges_snd)
next
  case Stop
  then show thesis using valid.refl steady.refl labelled.refl by (intro serve) simp_all
qed

text \<open>What a start does to the world, in the two ways in which it ends.\<close>

lemma start_world:
  fixes B E p
  defines "w \<equiv> fresh_memory (p_world p)" and "q \<equiv> snd (main B E (fresh_process p))"
  shows "alive w (p_world q)"
    and "p_running q \<Longrightarrow> \<exists>k w'. GetSelfKey (boot_env B E) w = (Ret k, w') \<and> p_world q = w'\<lparr>w_db := tick (w_db w')\<rparr> \<and> w_own (p_world q) = Some k \<and>
      p_statements q = map fst (bt_order B) \<and> p_SelfDomainName q = bt_domain B \<and> p_TrustedNotaries q = parseNotaries (bt_notaries B) (bt_domain B)"
proof -
  have key: "alive w (snd (GetSelfKey (boot_env B E) w))" by (rule alive.moves_step [OF alive_GetSelfKey])
  have "alive v (v\<lparr>w_db := tick (w_db v)\<rparr>)" for v by (auto simp: alive_def keeps_ok_def world_ok_tick)
  note ticked = alive.trans [OF key this]
  show "alive w (p_world q)"
    by (rule main_outcome [of B E "fresh_process p"]) (use key ticked alive.refl in \<open>auto simp: w_def q_def\<close>)
  assume "p_running q"
  then show "\<exists>k w'. GetSelfKey (boot_env B E) w = (Ret k, w') \<and> p_world q = w'\<lparr>w_db := tick (w_db w')\<rparr> \<and> w_own (p_world q) = Some k \<and>
      p_statements q = map fst (bt_order B) \<and> p_SelfDomainName q = bt_domain B \<and> p_TrustedNotaries q = parseNotaries (bt_notaries B) (bt_domain B)"
  proof (cases rule: main_outcome [of B E "fresh_process p"])
    case (started k)
    obtain w' where w': "GetSelfKey (boot_env B E) w = (Ret k, w')" using started(1) by (cases "GetSelfKey (boot_env B E) w") (auto simp: w_def)
    then show ?thesis using started GetSelfKey_own [OF w'] by (intro exI [of _ k] exI [of _ w']) (simp add: q_def w_def)
  qed (simp add: q_def)
qed

lemma process_step_ok:
  assumes "process_step E p q" "clock_ok E" "process_ok p"
  shows "process_ok q"
  using assms(1)
proof (cases rule: process_step_kinds)
  case (start B)
  note s = start_world [where p = p and B = B and E = E, folded start(3)]
  have "world_ok (fresh_memory (p_world p))" using assms(3) by (simp add: fresh_memory_ok process_ok_def)
  then have "world_ok (p_world q)" using s(1) by (simp add: alive_def keeps_ok_def)
  moreover have "set (map fst (bt_order B)) = fst ` set queries" using mset_eq_setD [OF start(2)] by simp
  moreover have "p_running q \<Longrightarrow> w_own (p_world q) \<noteq> None \<and> p_statements q = map fst (bt_order B) \<and> distinct (p_TrustedNotaries q) \<and>
      p_SelfDomainName q \<notin> set (p_TrustedNotaries q) \<and> [] \<notin> set (p_TrustedNotaries q)"
    using s(2) parsed_notaries by auto
  ultimately show ?thesis unfolding process_ok_def by (simp add: world_ok_def [of "p_world q"])
next
  case serve
  then show ?thesis using assms(2,3)
    by (auto simp: process_ok_def keeps_ok_in_def keeps_ok_def same_identity_def world_ok_def [of "p_world q"])
qed

text \<open>The identity: a running process has the key that a start would take from the table.\<close>

definition has_identity :: "SelfKey \<Rightarrow> process \<Rightarrow> bool" where
  "has_identity k p \<longleftrightarrow> db_healthy (w_db (p_world p)) \<and> stored_own_key (w_db (p_world p)) = Some (Ret k) \<and>
     pg_text (hd (selectActiveSelfKeyIds (w_db (p_world p)))) \<and> (p_running p \<longrightarrow> w_own (p_world p) = Some k)"

lemma has_identity_step:
  assumes "process_step E p q" "has_identity k p"
  shows "has_identity k q"
  using assms(1)
proof (cases rule: process_step_kinds)
  case (start B)
  let ?w = "fresh_memory (p_world p)"
  have g: "GetSelfKey (boot_env B E) ?w = (Ret k, ?w\<lparr>w_db := tick (tick (w_db ?w)), w_own := Some k\<rparr>)"
    by (rule GetSelfKey_stored) (use assms(2) in \<open>simp_all add: has_identity_def\<close>)
  have "w_own (p_world q) = Some k" if "p_running q"
    using start_world(2) [where p = p and B = B and E = E, folded start(3), OF that] unfolding g by auto
  moreover have "db_healthy (w_db (p_world q))"
    using start_world(1) [where p = p and B = B and E = E, folded start(3)] assms(2) later_healthy by (auto simp: alive_def has_identity_def)
  moreover have "self_keys (w_db (p_world q)) = self_keys (w_db (p_world p))"
  proof (rule main_outcome [of B E "fresh_process p", folded start(3)], goal_cases)
    case 1
    then show ?case unfolding fresh_process_fields g insert_iff snd_conv by (elim disjE) simp_all
  next
    case (2 k)
    show ?case unfolding 2(3) fresh_process_fields g by simp
  qed
  ultimately show ?thesis using assms(2) stored_own_key_same [of "w_db (p_world q)" "w_db (p_world p)"] by (simp add: has_identity_def)
next
  case serve
  then show ?thesis using assms(2) later_healthy stored_own_key_same [of "w_db (p_world q)" "w_db (p_world p)"]
    by (auto simp: has_identity_def same_identity_def)
qed

lemma identity_arises:
  assumes "process_step E p q" "db_healthy (w_db (p_world p))" "p_running p \<longrightarrow> (\<exists>k. has_identity k p)"
  shows "db_healthy (w_db (p_world q)) \<and> (p_running q \<longrightarrow> (\<exists>k. has_identity k q))"
  using assms(1)
proof (cases rule: process_step_kinds)
  case (start B)
  note s = start_world [where p = p and B = B and E = E, folded start(3)]
  have "db_healthy (w_db (p_world q))" using s(1) assms(2) later_healthy by (auto simp: alive_def)
  moreover have "\<exists>k. has_identity k q" if run: "p_running q"
  proof -
    obtain k w' where k: "GetSelfKey (boot_env B E) (fresh_memory (p_world p)) = (Ret k, w')" "p_world q = w'\<lparr>w_db := tick (w_db w')\<rparr>"
      using s(2) [OF run] by blast
    have "has_identity k q" using GetSelfKey_got [OF k(1)] assms(2) k(2) stored_own_key_same [of "tick (w_db w')" "w_db w'"]
      by (auto simp: has_identity_def db_healthy_def)
    then show ?thesis ..
  qed
  ultimately show ?thesis by blast
next
  case serve
  then show ?thesis using assms(2,3) has_identity_step [OF assms(1)] later_healthy by (auto simp: same_identity_def)
qed

subsection \<open>A start that succeeds\<close>

lemma refresh_gauges_Ret: "\<exists>c. fst (refresh_gauges w) = Ret c"
proof -
  have "fst (CountKnownServers d) \<noteq> Panic p" for d p
    by (cases "CountKnownServers d") (auto simp: CountKnownServers_def act_bind_eq_Panic_iff split: option.splits)
  from this [of "w_db w"] show ?thesis
    by (cases "CountKnownServers (w_db w)"; cases "fst (CountKnownServers (w_db w))") (auto simp: refresh_gauges_def act_bind_try lift_db_def)
qed

lemma main_starts:
  assumes "postgres_url B = Ret url" "bt_Open B url = Ret ()" "Setup (bt_order B) (p_schema p) = (Ret names, s)"
    and "GetSelfKey (boot_env B E) (p_world p) = (Ret k, w)"
  shows "p_running (snd (main B E p)) \<and> p_schema (snd (main B E p)) = s"
proof -
  have schema: "p_schema (snd (refreshKnownServers q)) = p_schema q" for q
    by (auto simp: refresh_snd Let_def split: go.split option.split)
  have r: "fst (refreshKnownServers q) = Ret ()" for q
    using refresh_gauges_Ret [of "p_world q"] by (cases "refresh_gauges (p_world q)")
      (auto simp: refreshKnownServers_def on_world_bind SetKnownServers_def update_def split: option.split)
  have "snd (act_bind refreshKnownServers (\<lambda>_. update (\<lambda>p. p\<lparr>p_running := True\<rparr>)) q) = (snd (refreshKnownServers q))\<lparr>p_running := True\<rparr>" for q
    using r [of q] by (cases "refreshKnownServers q") (simp add: act_bind_def update_def)
  then show ?thesis using assms schema
    by (simp add: main_def act_bind_app on_schema_def act_bind_def [of "update _"] act_bind_def [of "on_schema _"] update_def [of "\<lambda>p. p\<lparr>p_statements := _, p_SelfDomainName := _, p_TrustedNotaries := _\<rparr>"]
        act_bind_def [of "\<lambda>p. on_world _ p"] on_world_def prepareOwnKey_eq configured_def boot_env_def)
qed

lemma GetSelfKey_env: "env_genkey E' = env_genkey E \<Longrightarrow> env_random E' = env_random E \<Longrightarrow> GetSelfKey E' = GetSelfKey E"
proof -
  assume "env_genkey E' = env_genkey E" "env_random E' = env_random E"
  then have "generate_own_key E' = generate_own_key E"
    by (simp add: generate_own_key_def GenerateRandomString_def GenerateRandomBytes_def)
  then show ?thesis by (simp only: GetSelfKey_def)
qed

definition demo_boot :: boot where
  "demo_boot = \<lparr>bt_domain = ''self'', bt_postgres = ''/run/secrets/url'', bt_notaries = '' notary,self,notary'',
     bt_ReadFile = (\<lambda>_. Ret ''postgres://db''), bt_Open = (\<lambda>_. Ret ()), bt_order = queries\<rparr>"

definition demo_process :: process where
  "demo_process = \<lparr>p_schema = released 0, p_world = demo_world, p_running = False, p_statements = [], p_SelfDomainName = [],
     p_TrustedNotaries = [], p_gauges = None\<rparr>"

definition still_env :: env where
  "still_env = demo_env\<lparr>env_now := (\<lambda>_. 0)\<rparr>"

lemma demo_running:
  defines "q \<equiv> snd (main demo_boot still_env (fresh_process demo_process))"
  shows "process_step still_env demo_process q" "p_running q \<and> (\<exists>s t. Setup queries s = (Ret (map fst queries), s\<lparr>sc_tick := t\<rparr>) \<and> p_schema q = s)" "process_ok demo_process"
    "\<not> p_running demo_process" "db_healthy (w_db (p_world demo_process))"
proof -
  have w: "self_keys (w_db (fresh_memory demo_world)) = []" "db_healthy (w_db (fresh_memory demo_world))"
    by (simp_all add: demo_world_def empty_db_healthy, simp add: empty_db_def)
  have "GetSelfKey (boot_env demo_boot still_env) = GetSelfKey demo_env"
    by (rule GetSelfKey_env) (simp_all add: boot_env_def still_env_def)
  then obtain k w' where "GetSelfKey (boot_env demo_boot still_env) (p_world (fresh_process demo_process)) = (Ret k, w')"
    using demo_generates [OF _ w] by (auto simp: demo_process_def)
  moreover obtain s where "Setup (bt_order demo_boot) (p_schema (fresh_process demo_process)) = (Ret (map fst queries), s)"
      and s: "sc_tables s = current_tables" "sc_migrations s = Some (map fst all_migrations)" "steady s"
    using setup_released [of queries 0] by (auto simp: demo_boot_def fresh_process_def demo_process_def)
  moreover have "postgres_url demo_boot = Ret ''postgres://db''" by code_simp
  ultimately have "p_running q \<and> p_schema q = s" unfolding q_def by (intro main_starts) (auto simp: demo_boot_def)
  then show "p_running q \<and> (\<exists>s t. Setup queries s = (Ret (map fst queries), s\<lparr>sc_tick := t\<rparr>) \<and> p_schema q = s)"
    using setup_current [of queries s] s by auto
  show "process_step still_env demo_process q" unfolding q_def
    by (rule Start) (simp_all add: demo_process_def demo_boot_def)
  show "process_ok demo_process"
    by (simp add: process_ok_def demo_process_def demo_world_def empty_db_ok)
  show "\<not> p_running demo_process" "db_healthy (w_db (p_world demo_process))"
    by (simp_all add: demo_process_def demo_world_def empty_db_healthy)
qed

subsection \<open>Properties\<close>

text \<open>
  C2: the invariant of the process. Whatever requests arrive in whatever order, whatever the
  network answers and whichever statements the database fails, and however often the process ends
  and starts again, the tables stay well formed, and a running process has a well-formed walk
  schedule and client pool, a signing key, all of its prepared statements, and a list of notaries
  without itself.
\<close>

theorem process_invariant:
  assumes "process_runs E p q" and "clock_ok E" and "process_ok p"
  shows "process_ok q"
  using assms(1) by (induction rule: rtranclp_induct) (use assms(2,3) process_step_ok in blast)+

theorem process_invariant_witness:
  "\<exists>q. process_runs still_env demo_process q \<and> p_running q \<and> process_ok q"
proof -
  have "process_runs still_env demo_process (snd (main demo_boot still_env (fresh_process demo_process)))"
    using demo_running(1) by (rule r_into_rtranclp [of "process_step still_env"])
  moreover have "clock_ok still_env" by (simp add: still_env_def clock_ok_def)
  ultimately show ?thesis using process_invariant [OF _ _ demo_running(3)] demo_running(2) by blast
qed



end
