(* ===== verification/Metrics.thy ===== *)
theory Metrics
  imports System
begin

text \<open>
  What the instrumentation (\<open>metrics/metrics.go\<close>) shows of a running process: which request is
  counted, under which labels, and which labels a client can choose. The actions that count are in
  theory \<open>World\<close>, the places that call them in the theories of the code that does.
\<close>

subsection \<open>One count for each request\<close>

text \<open>A handler itself counts no request: no series at all satisfies the contract here.\<close>

definition same_requests :: "world \<Rightarrow> world \<Rightarrow> bool" where
  "same_requests w w' \<longleftrightarrow> w_requests w' = w_requests w"

interpretation uncounted: serving same_requests E "\<lambda>_. True" "\<lambda>_. False" for E
  by unfold_locales (simp_all add: same_requests_def)

definition handlers :: "env \<Rightarrow> batch_order \<Rightarrow> handler set" where
  "handlers E order = (\<lambda>(path, meth, h). h) ` set (registered_routes E order) \<union> set fallback_handlers"

lemma handler_uncounted: "h \<in> handlers E order \<Longrightarrow> h_h h r w = (res, w') \<Longrightarrow> w_requests w' = w_requests w"
proof -
  assume "h \<in> handlers E order" and run: "h_h h r w = (res, w')"
  then have "uncounted.moves (h_h h r) reply_ok"
    by (auto simp: handlers_def intro: uncounted.moves_route_handler uncounted.moves_fallback_handler)
  from uncounted.moves_step [OF this, of w] run show ?thesis by (simp add: same_requests_def)
qed

lemma ServeHTTP_eq:
  "ServeHTTP E h r w = (case h_h h r (w\<lparr>w_tick := Suc (w_tick w)\<rparr>) of (res, v) \<Rightarrow>
     (case res of
        Ret x \<Rightarrow> (Ret (response x), v\<lparr>w_tick := Suc (w_tick v), w_requests := w_requests v @
          [((h_action h, rq_Method r, fst (response x)), go_sub_time (env_now E (w_tick v)) (env_now E (w_tick w)))]\<rparr>)
      | Fail e \<Rightarrow> (Fail e, v)
      | Panic p \<Rightarrow> (Panic p, v)))"
  by (simp add: ServeHTTP_def act_bind_def ObserveHTTPRequest_def split: prod.split go.split)

subsection \<open>The labels of a process\<close>

lemma fresh_labels: "labels_ok notaries (fresh_memory w)"
  by (simp add: labels_ok_def fresh_memory_def)

lemma labels_ok_alive: "alive w w' \<Longrightarrow> labels_ok notaries w \<Longrightarrow> labels_ok notaries w'"
  by (simp add: alive_def labels_ok_def)

lemma labels_step:
  assumes "process_step E p q" "p_running p \<longrightarrow> labels_ok (set (p_TrustedNotaries p)) (p_world p)"
  shows "p_running q \<longrightarrow> labels_ok (set (p_TrustedNotaries q)) (p_world q)"
  using assms(1)
proof (cases rule: process_step_kinds)
  case (start B)
  from start_world(1) [where p = p and B = B and E = E, folded start(3)] show ?thesis
    using labels_ok_alive [OF _ fresh_labels] by blast
next
  case serve
  then show ?thesis using assms(2) by (simp add: keeps_labels_def configured_def)
qed

subsection \<open>Requests with methods of the client's choice\<close>

definition unrouted_request :: "string \<Rightarrow> http_request" where
  "unrouted_request m = \<lparr>rq_Method = m, rq_vars = [], rq_query = [], rq_header = [], rq_body = [], rq_body_broken = False\<rparr>"

lemma unrouted_step:
  assumes "p_running p"
  shows "\<exists>q d. process_step E p q \<and> p_running q \<and>
    w_requests (p_world q) = w_requests (p_world p) @ [((''method_not_allowed'', m, 405), d)]"
proof -
  let ?h = "\<lparr>h_h = MethodNotAllowedHandler, h_action = ''method_not_allowed''\<rparr>"
  let ?q = "snd (on_world (ServeHTTP (configured E p) ?h (unrouted_request m)) p)"
  have "process_step E p ?q" by (rule Unrouted) (simp_all add: assms fallback_handlers_def)
  moreover have "p_running ?q \<and> (\<exists>d. w_requests (p_world ?q) = w_requests (p_world p) @ [((''method_not_allowed'', m, 405), d)])"
    by (simp add: assms on_world_snd ServeHTTP_eq MethodNotAllowedHandler_def response_def MethodNotAllowed_def unrouted_request_def)
  ultimately show ?thesis by blast
qed

lemma unrouted_runs:
  "p_running p \<Longrightarrow> \<exists>q. process_runs E p q \<and> p_running q \<and> set (w_requests (p_world p)) \<subseteq> set (w_requests (p_world q)) \<and>
     (\<forall>m \<in> set ms. \<exists>d. ((''method_not_allowed'', m, 405), d) \<in> set (w_requests (p_world q)))"
proof (induction ms arbitrary: p)
  case (Cons m ms)
  obtain v d where v: "process_step E p v" "p_running v"
    "w_requests (p_world v) = w_requests (p_world p) @ [((''method_not_allowed'', m, 405), d)]"
    using unrouted_step [OF Cons.prems] by blast
  obtain q where q: "process_runs E v q" "p_running q" "set (w_requests (p_world v)) \<subseteq> set (w_requests (p_world q))"
    "\<forall>m \<in> set ms. \<exists>d. ((''method_not_allowed'', m, 405), d) \<in> set (w_requests (p_world q))"
    using Cons.IH [OF v(2)] by blast
  have "process_runs E p q" using v(1) q(1) by (rule converse_rtranclp_into_rtranclp)
  then show ?case using v(3) q(2-4) by (intro exI [of _ q]) auto
qed auto

subsection \<open>Properties\<close>

text \<open>
  C39: every request is counted once. Whatever handler serves a request, when it replies, the
  request is counted in the one series of its action, its method and the status that the client
  gets, with the time between the first and the last reading of the clock for it; and a request whose
  handler panics is not counted at all.
\<close>

theorem served_request_counted:
  assumes "h \<in> handlers E order" and "ServeHTTP E h r w = (res, w')"
  shows "(\<forall>status body. res = Ret (status, body) \<longrightarrow>
      w_requests w' = w_requests w @
        [((h_action h, rq_Method r, status), go_sub_time (env_now E (w_tick w' - 1)) (env_now E (w_tick w)))]) \<and>
    (\<forall>p. res = Panic p \<longrightarrow> w_requests w' = w_requests w)"
proof -
  obtain x v where v: "h_h h r (w\<lparr>w_tick := Suc (w_tick w)\<rparr>) = (x, v)" by force
  have same: "w_requests v = w_requests w" using handler_uncounted [OF assms(1) v] by simp
  show ?thesis using assms(2) same by (cases x) (auto simp: ServeHTTP_eq v)
qed

theorem served_request_counted_witness:
  "\<exists>d. w_requests (snd (ServeHTTP demo_env \<lparr>h_h = Healthz, h_action = ''healthz''\<rparr> (unrouted_request ''OPTIONS'') demo_world)) =
     [((''healthz'', ''OPTIONS'', 200), d)]"
proof -
  let ?h = "\<lparr>h_h = Healthz, h_action = ''healthz''\<rparr>"
  have h: "?h \<in> handlers demo_env demo_order" by (force simp: handlers_def registered_routes_def Let_def)
  obtain body w' where w': "ServeHTTP demo_env ?h (unrouted_request ''OPTIONS'') demo_world = (Ret (200, body), w')"
    by (simp add: ServeHTTP_eq Healthz_def response_def)
  from served_request_counted [OF h w'] w' show ?thesis by (auto simp: unrouted_request_def demo_world_def)
qed

text \<open>
  C29: the labels that are bounded. In a running process that was started from nothing, every
  notary that has been timed is one of those configured, every request is counted under a status
  that the program sends, and every request that reached a route under one of six actions and
  three methods: whatever names, paths and bodies the clients send.
\<close>

theorem metric_labels_bounded:
  assumes "process_runs E p q" and "\<not> p_running p" and "p_running q"
  shows "(\<forall>((notary, result), d) \<in> set (w_notary_fetches (p_world q)). notary \<in> set (p_TrustedNotaries q)) \<and>
    (\<forall>((action, meth, status), d) \<in> set (w_requests (p_world q)). status \<in> {200, 400, 401, 404, 405, 500} \<and>
      (action \<in> {''healthz'', ''federation_version'', ''local_keys'', ''query_keys_single'', ''query_keys_batch'', ''verify_auth_header''} \<and>
         meth \<in> {''GET'', ''POST'', ''OPTIONS''} \<or>
       action \<in> {''not_found'', ''method_not_allowed''}))"
proof -
  from assms(1) have "p_running q \<longrightarrow> labels_ok (set (p_TrustedNotaries q)) (p_world q)"
    by (induction rule: rtranclp_induct) (use assms(2) labels_step in blast)+
  then show ?thesis using assms(3)
    by (fastforce simp: labels_ok_def series_bounded_def reply_statuses_def route_actions_def route_methods_def fallback_actions_def)
qed

theorem metric_labels_bounded_witness:
  "\<exists>q m d. process_runs still_env demo_process q \<and> p_running q \<and> ((''method_not_allowed'', m, 405), d) \<in> set (w_requests (p_world q)) \<and>
     (\<forall>((action, meth, status), d) \<in> set (w_requests (p_world q)). status \<le> 500)"
proof -
  obtain p where p: "process_step still_env demo_process p" "p_running p" "\<not> p_running demo_process" using demo_running by blast
  obtain q d where q: "process_step still_env p q" "p_running q"
    "w_requests (p_world q) = w_requests (p_world p) @ [((''method_not_allowed'', ''PUT'', 405), d)]"
    using unrouted_step [OF p(2)] by blast
  have runs: "process_runs still_env demo_process q" using p(1) q(1) by (metis rtranclp.simps)
  from metric_labels_bounded [OF runs p(3) q(2)]
  have "\<forall>((action, meth, status), d) \<in> set (w_requests (p_world q)). status \<le> 500" by fastforce
  then show ?thesis using runs q by (intro exI [of _ q] exI [of _ "''PUT''"] exI [of _ d]) auto
qed

text \<open>
  C27: the label that is not. The method of a request that matches no route is counted as it was
  sent: a client can add as many series as it likes to the process, one for each method name it
  makes up.
\<close>

theorem unknown_methods_make_series:
  assumes "p_running p" and "distinct ms"
  shows "\<exists>q. process_runs E p q \<and> p_running q \<and>
    (\<forall>m \<in> set ms. \<exists>d. ((''method_not_allowed'', m, 405), d) \<in> set (w_requests (p_world q))) \<and>
    length ms \<le> card (fst ` set (w_requests (p_world q)))"
proof -
  obtain q where q: "process_runs E p q" "p_running q" "\<forall>m \<in> set ms. \<exists>d. ((''method_not_allowed'', m, 405), d) \<in> set (w_requests (p_world q))"
    using unrouted_runs [OF assms(1)] by blast
  have "(\<lambda>m. (''method_not_allowed'', m, 405)) ` set ms \<subseteq> fst ` set (w_requests (p_world q))" using q(3) by force
  moreover have "card ((\<lambda>m. (''method_not_allowed'', m, 405 :: int)) ` set ms) = length ms"
    using assms(2) by (simp add: card_image inj_on_def distinct_card)
  ultimately have "length ms \<le> card (fst ` set (w_requests (p_world q)))" using card_mono by (metis List.finite_set finite_imageI)
  then show ?thesis using q by blast
qed

theorem unknown_methods_make_series_witness:
  "\<exists>q. process_runs still_env demo_process q \<and> 3 \<le> card (fst ` set (w_requests (p_world q)))"
proof -
  obtain p where p: "process_step still_env demo_process p" "p_running p" using demo_running by blast
  have "distinct [''A'', ''B'', ''C'']" by simp
  from unknown_methods_make_series [OF p(2) this] obtain q where "process_runs still_env p q" "3 \<le> card (fst ` set (w_requests (p_world q)))"
    by (metis length_Cons list.size(3) numeral_3_eq_3)
  then show ?thesis using p(1) by (intro exI [of _ q]) (meson converse_rtranclp_into_rtranclp)
qed

end
