(* ===== verification/Locks.thy ===== *)
theory Locks
  imports Evolution
begin

text \<open>
  The lock of each server (\<open>serverLock\<close> in \<open>keys/notary.go\<close>). The other theories take \<open>loadHeld\<close>,
  \<open>storeRemoteKeys\<close> and \<open>InvalidateHeld\<close> as one action each. Here they are programs whose database
  statements interleave with those of other requests and with the statements that take no lock,
  and the lock is what makes them behave as the actions.
\<close>

subsection \<open>Statement by statement\<close>

text \<open>A program: its next statement, and how it goes on with the outcome.\<close>

datatype 'r prog =
  Return "'r go"
| Metadata ServerName "RemoteServer option go \<Rightarrow> 'r prog"
| Keys ServerName "RemoteKey list go \<Rightarrow> 'r prog"
| Sigs ServerName "RemoteSignature list go \<Rightarrow> 'r prog"
| Write "unit dbact" "unit go \<Rightarrow> 'r prog"

text \<open>The program alone, to its end; and its next statement.\<close>

primrec run :: "'r prog \<Rightarrow> 'r dbact" where
  "run (Return r) = (\<lambda>d. (r, d))"
| "run (Metadata n k) = (\<lambda>d. case GetRemoteServerMetadata n d of (r, d') \<Rightarrow> run (k r) d')"
| "run (Keys n k) = (\<lambda>d. case GetAllRemoteServerKeys n d of (r, d') \<Rightarrow> run (k r) d')"
| "run (Sigs n k) = (\<lambda>d. case GetAllRemoteServerSignatures n d of (r, d') \<Rightarrow> run (k r) d')"
| "run (Write s k) = (\<lambda>d. case s d of (r, d') \<Rightarrow> run (k r) d')"

fun advance :: "'r prog \<Rightarrow> db \<Rightarrow> 'r prog \<times> db" where
  "advance (Return r) d = (Return r, d)"
| "advance (Metadata n k) d = (case GetRemoteServerMetadata n d of (r, d') \<Rightarrow> (k r, d'))"
| "advance (Keys n k) d = (case GetAllRemoteServerKeys n d of (r, d') \<Rightarrow> (k r, d'))"
| "advance (Sigs n k) d = (case GetAllRemoteServerSignatures n d of (r, d') \<Rightarrow> (k r, d'))"
| "advance (Write s k) d = (case s d of (r, d') \<Rightarrow> (k r, d'))"

definition on_value :: "'a go \<Rightarrow> ('a \<Rightarrow> 'b prog) \<Rightarrow> 'b prog" where
  "on_value r f = (case r of Ret x \<Rightarrow> f x | Fail e \<Rightarrow> Return (Fail e) | Panic p \<Rightarrow> Return (Panic p))"

definition package_prog :: "RemoteServer \<Rightarrow> (CachedRemoteKeys \<Rightarrow> 'r) \<Rightarrow> 'r prog" where
  "package_prog server out =
     Keys (rs_ServerName server) (\<lambda>ks. on_value ks (\<lambda>ks.
     Sigs (rs_ServerName server) (\<lambda>sigs. on_value sigs (\<lambda>sigs.
       Return (Ret (out \<lparr>ck_RemoteServer = server, ck_Signatures = sigs, ck_Keys = ks\<rparr>))))))"

fun write_all :: "unit dbact list \<Rightarrow> 'r \<Rightarrow> 'r prog" where
  "write_all [] x = Return (Ret x)"
| "write_all (s # ss) x = Write s (\<lambda>r. on_value r (\<lambda>_. write_all ss x))"

text \<open>The statements of a store, in their order.\<close>

definition store_statements :: "int \<Rightarrow> ServerKeyResultUnsigned \<Rightarrow> Signatures \<Rightarrow> AdditionalJSON \<Rightarrow> string \<Rightarrow> unit dbact list" where
  "store_statements now u sigs additionalJson obtainedViaNotary =
     (let n = sku_ServerName u in
      [DeleteRemoteServerKeys n, DeleteRemoteServerSignatures n] @
      (if obtainedViaNotary = [] then [act_bind (act_try (ResetOriginProbe n)) (\<lambda>_. act_ret ())] else []) @
      map add_key_row (map row_of_key (stored_keys u)) @ map add_sig_row (map row_of_sig (stored_sigs n sigs)))"

definition write_prog :: "int \<Rightarrow> ServerKeyResultUnsigned \<Rightarrow> Signatures \<Rightarrow> AdditionalJSON \<Rightarrow> string \<Rightarrow> (CachedRemoteKeys \<Rightarrow> 'r) \<Rightarrow> 'r prog" where
  "write_prog now u sigs addl notary out =
     Write (UpsertRemoteServer (sku_ServerName u) now (sku_ValidUntilTs u) addl notary) (\<lambda>r. on_value r (\<lambda>_.
       write_all (store_statements now u sigs addl notary) (out (stored_result now u sigs addl notary))))"

datatype operation =
  Load ServerName
| Store int ServerKeyResultUnsigned Signatures AdditionalJSON string
| Invalidate ServerName

datatype answer =
  Loaded "RemoteServer option \<times> CachedRemoteKeys option"
| Stored CachedRemoteKeys
| Invalidated

fun server_of :: "operation \<Rightarrow> ServerName" where
  "server_of (Load n) = n"
| "server_of (Store now u sigs addl notary) = sku_ServerName u"
| "server_of (Invalidate n) = n"

fun program :: "operation \<Rightarrow> answer prog" where
  "program (Load n) =
     Metadata n (\<lambda>s. on_value s (\<lambda>s. case s of
         None \<Rightarrow> Return (Ret (Loaded (None, None)))
       | Some s \<Rightarrow> package_prog s (\<lambda>held. Loaded (Some s, Some held))))"
| "program (Store now u sigs addl notary) =
     Metadata (sku_ServerName u) (\<lambda>existing. case existing of
         Ret (Some ex) \<Rightarrow>
           if notary \<noteq> [] \<and> sku_ValidUntilTs u \<le> rs_ValidUntilTs ex then package_prog ex Stored
           else write_prog now u sigs addl notary Stored
       | Panic p \<Rightarrow> Return (Panic p)
       | _ \<Rightarrow> write_prog now u sigs addl notary Stored)"
| "program (Invalidate n) = Write (InvalidateRemoteServer n) (\<lambda>r. on_value r (\<lambda>_. Return (Ret Invalidated)))"

text \<open>The operation as one action.\<close>

fun atomically :: "operation \<Rightarrow> answer dbact" where
  "atomically (Load n) = act_bind (loadHeld n) (\<lambda>x. act_ret (Loaded x))"
| "atomically (Store now u sigs addl notary) = act_bind (store_at now u sigs addl notary) (\<lambda>c. act_ret (Stored c))"
| "atomically (Invalidate n) = act_bind (InvalidateHeld n) (\<lambda>_. act_ret Invalidated)"

lemma run_advance: "advance p d = (p', d') \<Longrightarrow> run p d = run p' d'"
  by (cases p) (auto split: prod.splits)

lemma run_on_value: "run (on_value r f) d = (case r of Ret x \<Rightarrow> run (f x) d | Fail e \<Rightarrow> (Fail e, d) | Panic p \<Rightarrow> (Panic p, d))"
  by (simp add: on_value_def split: go.split)

lemma run_package: "run (package_prog s out) = act_bind (packageCachedKeysFor s) (\<lambda>held. act_ret (out held))"
  by (rule ext) (auto simp: package_prog_def packageCachedKeysFor_def act_bind_def run_on_value split: prod.split go.split)

lemma run_write_all: "run (write_all ss x) = act_bind (act_iter (\<lambda>s. s) ss) (\<lambda>_. act_ret x)"
proof (induction ss)
  case (Cons s ss)
  then show ?case by (auto simp: act_bind_def run_on_value split: prod.split go.split)
qed (auto simp: act_bind_def)

lemma act_iter_self: "act_iter (\<lambda>s. s) (map f xs) = act_iter f xs"
  by (simp add: act_iter_map)

lemma run_store_statements:
  "act_bind (act_iter (\<lambda>s. s) (store_statements now u sigs addl notary)) f =
     act_bind (DeleteRemoteServerKeys (sku_ServerName u)) (\<lambda>_.
     act_bind (DeleteRemoteServerSignatures (sku_ServerName u)) (\<lambda>_.
     act_bind (clear_probe (sku_ServerName u) notary) (\<lambda>_.
     act_bind (act_iter add_key_row (map row_of_key (stored_keys u))) (\<lambda>_.
     act_bind (act_iter add_sig_row (map row_of_sig (stored_sigs (sku_ServerName u) sigs))) f))))"
  by (simp add: store_statements_def Let_def clear_probe_def act_iter_append act_iter_self act_bind_assoc del: map_map act_ret_eq)

lemma run_write_prog: "run (write_prog now u sigs addl notary out) = act_bind (write_at now u sigs addl notary) (\<lambda>c. act_ret (out c))"
  by (rule ext) (auto simp: write_prog_def write_at_eq Let_def act_bind_assoc run_write_all run_store_statements run_on_value
      act_bind_def [of "UpsertRemoteServer _ _ _ _ _"] simp del: act_ret_eq split: prod.split go.split)

text \<open>Alone, the programs are the actions.\<close>

lemma run_program: "run (program op) = atomically op"
proof (cases op)
  case (Load n)
  have "run (program op) d = atomically op d" for d
    by (cases "GetRemoteServerMetadata n d"; cases "fst (GetRemoteServerMetadata n d)")
      (auto simp: Load loadHeld_def run_on_value run_package act_bind_assoc act_bind_def [of "GetRemoteServerMetadata n"] simp del: act_ret_eq
        split: option.split, simp_all)
  then show ?thesis ..
next
  case (Store now u sigs addl notary)
  have "run (program op) d = atomically op d" for d
    by (cases "GetRemoteServerMetadata (sku_ServerName u) d"; cases "fst (GetRemoteServerMetadata (sku_ServerName u) d)")
      (auto simp: Store store_at_def run_package run_write_prog act_bind_assoc act_bind_try simp del: act_ret_eq split: option.split)
  then show ?thesis ..
next
  case (Invalidate n)
  then show ?thesis by (auto simp: InvalidateHeld_def act_bind_def run_on_value split: prod.split go.split)
qed

subsection \<open>What others may do to a record\<close>

text \<open>
  Only the schedule of a row may change under the lock: \<open>probeOrigin\<close> notes its failures
  without it, which also makes the row of a server that has none. \<open>same_record n d e\<close>: the server has
  in \<open>d\<close> what it has in \<open>e\<close>, up to that.
\<close>

definition same_content :: "server_row \<Rightarrow> server_row \<Rightarrow> bool" where
  "same_content r s \<longleftrightarrow> sr_valid_until_ts r = sr_valid_until_ts s \<and> sr_nonstandard_json r = sr_nonstandard_json s \<and>
     sr_obtained_via_notary r = sr_obtained_via_notary s"

definition blank_row :: "server_row \<Rightarrow> bool" where
  "blank_row r \<longleftrightarrow> sr_valid_until_ts r = 0 \<and> sr_nonstandard_json r = ''{}'' \<and> sr_obtained_via_notary r = None"

definition same_rows :: "ServerName \<Rightarrow> db \<Rightarrow> db \<Rightarrow> bool" where
  "same_rows n d e \<longleftrightarrow> selectRemoteKeys n d = selectRemoteKeys n e \<and> selectRemoteSignatures n d = selectRemoteSignatures n e"

definition same_record :: "ServerName \<Rightarrow> db \<Rightarrow> db \<Rightarrow> bool" where
  "same_record n d e \<longleftrightarrow> same_rows n d e \<and>
     (case map_of (remote_servers e) n of
        None \<Rightarrow> (case map_of (remote_servers d) n of None \<Rightarrow> True | Some r \<Rightarrow> blank_row r)
      | Some s \<Rightarrow> (case map_of (remote_servers d) n of None \<Rightarrow> False | Some r \<Rightarrow> same_content r s))"

text \<open>The same with the row present in both.\<close>

definition same_known :: "ServerName \<Rightarrow> db \<Rightarrow> db \<Rightarrow> bool" where
  "same_known n d e \<longleftrightarrow> same_rows n d e \<and> (\<exists>r s. map_of (remote_servers d) n = Some r \<and> map_of (remote_servers e) n = Some s \<and> same_content r s)"

lemma same_record_refl [simp]: "same_record n d d"
  by (simp add: same_record_def same_rows_def same_content_def split: option.split)

lemma same_record_trans: "same_record n c d \<Longrightarrow> same_record n d e \<Longrightarrow> same_record n c e"
  by (auto simp: same_record_def same_rows_def same_content_def blank_row_def split: option.splits)

lemma same_known_record: "same_known n d e \<Longrightarrow> same_record n d e"
  by (auto simp: same_known_def same_record_def)

lemma same_record_known: "same_record n d e \<Longrightarrow> map_of (remote_servers e) n \<noteq> None \<Longrightarrow> same_known n d e"
  by (auto simp: same_known_def same_record_def split: option.splits)

lemma same_tick [simp]:
  "same_record n (tick d) e = same_record n d e" "same_record n d (tick e) = same_record n d e"
  "same_known n (tick d) e = same_known n d e" "same_known n d (tick e) = same_known n d e"
  by (simp_all add: same_record_def same_known_def same_rows_def selectRemoteKeys_def selectRemoteSignatures_def split: option.split)

lemma others_same_record: "others_same m d e \<Longrightarrow> n \<noteq> m \<Longrightarrow> same_record n e d"
  by (auto simp: others_same_def same_record_def same_rows_def same_content_def split: option.split)

lemma same_tables_record: "same_tables d e \<Longrightarrow> same_record n e d"
  by (auto simp: same_tables_def same_record_def same_rows_def same_content_def selectRemoteKeys_def selectRemoteSignatures_def split: option.split)

lemma note_same_record: "same_record n (snd (NoteOriginFailure m t f a d)) d"
proof (cases "n = m")
  case True
  have "same_record n e d" if "noteOriginFailure n t f a (tick d) = Some e" for e
    using that by (auto simp: noteOriginFailure_def Let_def same_record_def same_rows_def same_content_def blank_row_def
        selectRemoteKeys_def selectRemoteSignatures_def split: if_splits option.splits)
  then show ?thesis using exec_stmt_effect [of "[n]" "noteOriginFailure n t f a" d] True by (auto simp: NoteOriginFailure_def)
qed (rule others_same_record [OF writes_others_same(2)])

subsection \<open>Statements under the lock\<close>

lemma exec_stmt_healthy:
  "db_healthy d \<Longrightarrow> exec_stmt ps f d =
     (if list_all pg_text ps
      then (case f (tick d) of None \<Rightarrow> (Fail (Err ''constraint violation''), tick d) | Some e \<Rightarrow> (Ret (), e))
      else (Fail (Err ''invalid byte sequence''), tick d))"
  by (auto simp: exec_stmt_def run_stmt_def db_healthy_def Let_def split: option.split)

definition locked_stmt :: "ServerName \<Rightarrow> unit dbact \<Rightarrow> bool" where
  "locked_stmt n s \<longleftrightarrow> (\<forall>d. others_same n d (snd (s d)) \<and> later d (snd (s d))) \<and>
     (\<forall>d e. db_healthy d \<longrightarrow> db_healthy e \<longrightarrow> same_known n d e \<longrightarrow> fst (s d) = fst (s e) \<and> same_known n (snd (s d)) (snd (s e)))"

lemma locked_exec:
  assumes "\<And>d. others_same n d (snd (exec_stmt ps f d))" "later.moves (exec_stmt ps f) (\<lambda>_. True)"
    and "\<And>d e. same_known n d e \<Longrightarrow> rel_option (same_known n) (f d) (f e)"
  shows "locked_stmt n (exec_stmt ps f)"
proof -
  have "fst (exec_stmt ps f d) = fst (exec_stmt ps f e) \<and> same_known n (snd (exec_stmt ps f d)) (snd (exec_stmt ps f e))"
    if "db_healthy d" "db_healthy e" "same_known n d e" for d e
    using assms(3) [of "tick d" "tick e"] that
    by (cases "f (tick d)"; cases "f (tick e)") (simp_all add: exec_stmt_healthy)
  then show ?thesis using assms(1) later.moves_step [OF assms(2)] by (simp add: locked_stmt_def)
qed

lemma rows_known:
  "(n, i) \<in> set (map (\<lambda>r. (kr_server_name r, kr_key_id r)) (remote_keys d)) \<longleftrightarrow> i \<in> kr_key_id ` set (selectRemoteKeys n d)"
  "(n, i) \<in> set (map (\<lambda>r. (gr_server_name r, gr_key_id r)) (remote_signatures d)) \<longleftrightarrow> i \<in> gr_key_id ` set (selectRemoteSignatures n d)"
  by (auto simp: selectRemoteKeys_def selectRemoteSignatures_def image_iff)

lemma known_statements:
  assumes "same_known n d e"
  shows "rel_option (same_known n) (deleteRemoteKeys n d) (deleteRemoteKeys n e)"
    "rel_option (same_known n) (deleteRemoteSignatures n d) (deleteRemoteSignatures n e)"
    "rel_option (same_known n) (resetOriginProbe n d) (resetOriginProbe n e)"
    "kr_server_name k = n \<Longrightarrow> rel_option (same_known n) (insertRemoteKey k d) (insertRemoteKey k e)"
    "gr_server_name s = n \<Longrightarrow> rel_option (same_known n) (insertRemoteSignature s d) (insertRemoteSignature s e)"
proof -
  have a: "selectRemoteKeys n d = selectRemoteKeys n e" "selectRemoteSignatures n d = selectRemoteSignatures n e"
    "known_server n d" "known_server n e"
    using assms by (auto simp: same_known_def same_rows_def known_server_map_of)
  show "rel_option (same_known n) (deleteRemoteKeys n d) (deleteRemoteKeys n e)"
    "rel_option (same_known n) (deleteRemoteSignatures n d) (deleteRemoteSignatures n e)"
    "rel_option (same_known n) (resetOriginProbe n d) (resetOriginProbe n e)"
    using assms by (auto simp: deleteRemoteKeys_def deleteRemoteSignatures_def resetOriginProbe_def same_known_def same_rows_def
        selectRemoteKeys_def selectRemoteSignatures_def same_content_def map_of_update_server)
  show "rel_option (same_known n) (insertRemoteKey k d) (insertRemoteKey k e)" if "kr_server_name k = n"
    using assms a that unfolding insertRemoteKey_def rows_known that
    by (auto simp: same_known_def same_rows_def selectRemoteKeys_def selectRemoteSignatures_def)
  show "rel_option (same_known n) (insertRemoteSignature s d) (insertRemoteSignature s e)" if "gr_server_name s = n"
    using assms a that unfolding insertRemoteSignature_def rows_known that
    by (auto simp: same_known_def same_rows_def selectRemoteKeys_def selectRemoteSignatures_def)
qed

lemma locked_statements:
  "locked_stmt n (DeleteRemoteServerKeys n)" "locked_stmt n (DeleteRemoteServerSignatures n)" "locked_stmt n (ResetOriginProbe n)"
  "kr_server_name k = n \<Longrightarrow> locked_stmt n (add_key_row k)" "gr_server_name s = n \<Longrightarrow> locked_stmt n (add_sig_row s)"
proof -
  show "locked_stmt n (DeleteRemoteServerKeys n)" "locked_stmt n (DeleteRemoteServerSignatures n)" "locked_stmt n (ResetOriginProbe n)"
    unfolding DeleteRemoteServerKeys_def DeleteRemoteServerSignatures_def ResetOriginProbe_def
    by (rule locked_exec, unfold DeleteRemoteServerKeys_def [symmetric] DeleteRemoteServerSignatures_def [symmetric] ResetOriginProbe_def [symmetric];
      (rule writes_others_same exec_later | erule known_statements))+
  show "locked_stmt n (add_key_row k)" if "kr_server_name k = n"
    unfolding add_key_row by (rule locked_exec, unfold add_key_row [symmetric]) (simp_all add: add_rows_others_same exec_later known_statements that)
  show "locked_stmt n (add_sig_row s)" if "gr_server_name s = n"
    unfolding add_sig_row by (rule locked_exec, unfold add_sig_row [symmetric]) (simp_all add: add_rows_others_same exec_later known_statements that)
qed

lemma locked_quietly: "locked_stmt n s \<Longrightarrow> (\<And>d p. fst (s d) \<noteq> Panic p) \<Longrightarrow> locked_stmt n (act_bind (act_try s) (\<lambda>_. act_ret ()))"
proof -
  assume a: "locked_stmt n s" "\<And>d p. fst (s d) \<noteq> Panic p"
  have "act_bind (act_try s) (\<lambda>_. act_ret ()) d = (Ret (), snd (s d))" for d
    using a(2) [of d] by (cases "s d"; cases "fst (s d)") (auto simp: act_bind_try)
  then show ?thesis using a(1) by (simp add: locked_stmt_def)
qed

lemma locked_store: "s \<in> set (store_statements now u sigs addl notary) \<Longrightarrow> locked_stmt (sku_ServerName u) s"
proof -
  have "fst (ResetOriginProbe m d) \<noteq> Panic p" for m d p
    unfolding ResetOriginProbe_def using exec_stmt_no_Panic by (metis prod.collapse)
  note quiet = locked_quietly [OF locked_statements(3) this]
  assume "s \<in> set (store_statements now u sigs addl notary)"
  then show ?thesis
    by (auto simp: store_statements_def Let_def quiet locked_statements stored_keys_owner stored_sigs_owner split: if_splits)
qed

text \<open>The first statement of the writes, which makes the row.\<close>

lemma upsert_healthy:
  assumes "db_healthy d" "db_healthy e" "same_record n d e"
  shows "fst (UpsertRemoteServer n u v addl notary d) = fst (UpsertRemoteServer n u v addl notary e)"
    and "if fst (UpsertRemoteServer n u v addl notary d) = Ret ()
      then same_known n (snd (UpsertRemoteServer n u v addl notary d)) (snd (UpsertRemoteServer n u v addl notary e))
      else same_record n (snd (UpsertRemoteServer n u v addl notary d)) (snd (UpsertRemoteServer n u v addl notary e))"
  using assms unfolding UpsertRemoteServer_def Let_def exec_stmt_healthy [OF assms(1)] exec_stmt_healthy [OF assms(2)]
  by (auto simp: upsertRemoteServer_def Let_def same_record_def same_known_def same_rows_def same_content_def selectRemoteKeys_def
      selectRemoteSignatures_def split: option.splits)

subsection \<open>Programs under the lock\<close>

text \<open>A program that only touches the record of \<open>n\<close>, and does not look at the schedule in its row.\<close>

primrec local_prog :: "ServerName \<Rightarrow> 'r prog \<Rightarrow> bool" where
  "local_prog n (Return r) \<longleftrightarrow> True"
| "local_prog n (Metadata m k) \<longleftrightarrow> False"
| "local_prog n (Keys m k) \<longleftrightarrow> m = n \<and> (\<forall>x. local_prog n (k x))"
| "local_prog n (Sigs m k) \<longleftrightarrow> m = n \<and> (\<forall>x. local_prog n (k x))"
| "local_prog n (Write s k) \<longleftrightarrow> locked_stmt n s \<and> (\<forall>x. local_prog n (k x))"

primrec read_prog :: "'r prog \<Rightarrow> bool" where
  "read_prog (Return r) \<longleftrightarrow> True"
| "read_prog (Metadata m k) \<longleftrightarrow> (\<forall>x. read_prog (k x))"
| "read_prog (Keys m k) \<longleftrightarrow> (\<forall>x. read_prog (k x))"
| "read_prog (Sigs m k) \<longleftrightarrow> (\<forall>x. read_prog (k x))"
| "read_prog (Write s k) \<longleftrightarrow> False"

lemma on_value_progs:
  "local_prog n (on_value r f) \<longleftrightarrow> (\<forall>x. r = Ret x \<longrightarrow> local_prog n (f x))" "read_prog (on_value r f) \<longleftrightarrow> (\<forall>x. r = Ret x \<longrightarrow> read_prog (f x))"
  by (auto simp: on_value_def split: go.split)

lemma package_progs: "rs_ServerName s = n \<Longrightarrow> local_prog n (package_prog s out)" "read_prog (package_prog s out)"
  by (simp_all add: package_prog_def on_value_progs)

lemma write_all_local: "(\<And>s. s \<in> set ss \<Longrightarrow> locked_stmt n s) \<Longrightarrow> local_prog n (write_all ss x)"
  by (induction ss) (simp_all add: on_value_progs)

lemma reads_healthy:
  assumes "db_healthy d" "db_healthy e" "same_rows n d e"
  shows "fst (GetAllRemoteServerKeys n d) = fst (GetAllRemoteServerKeys n e)"
    and "fst (GetAllRemoteServerSignatures n d) = fst (GetAllRemoteServerSignatures n e)"
  using assms by (auto simp: GetAllRemoteServerKeys_def GetAllRemoteServerSignatures_def rows_unchecked_def query_stmt_def run_stmt_def
      db_healthy_def same_rows_def selectRemoteKeys_def selectRemoteSignatures_def act_bind_def Let_def)

lemma reads_snd: "snd (GetAllRemoteServerKeys n d) = tick d" "snd (GetAllRemoteServerSignatures n d) = tick d"
  by (simp_all add: GetAllRemoteServerKeys_def GetAllRemoteServerSignatures_def)

lemma run_reads:
  "run (Keys n k) d = run (k (fst (GetAllRemoteServerKeys n d))) (tick d)"
  "run (Sigs n k') d = run (k' (fst (GetAllRemoteServerSignatures n d))) (tick d)"
  "run (Write s k'') d = run (k'' (fst (s d))) (snd (s d))"
  using reads_snd [of n d] by (simp_all add: split_def)

lemma advance_reads:
  "advance (Metadata n k0) d = (k0 (fst (GetRemoteServerMetadata n d)), tick d)"
  "advance (Keys n k) d = (k (fst (GetAllRemoteServerKeys n d)), tick d)"
  "advance (Sigs n k') d = (k' (fst (GetAllRemoteServerSignatures n d)), tick d)"
  "advance (Write s k'') d = (k'' (fst (s d)), snd (s d))"
  using reads_snd [of n d] GetRemoteServerMetadata_snd [of n d] by (simp_all add: split_def)

lemma healthy_tick: "db_healthy d \<Longrightarrow> db_healthy (tick d)"
  by (simp add: db_healthy_def)

text \<open>Such a program cannot tell two databases apart that have the same record, and keeps them so.\<close>

lemma local_run:
  "local_prog n p \<Longrightarrow> db_healthy d \<Longrightarrow> db_healthy e \<Longrightarrow> same_known n d e \<Longrightarrow>
   fst (run p d) = fst (run p e) \<and> same_known n (snd (run p d)) (snd (run p e))"
proof (induction p arbitrary: d e)
  case (Keys m k)
  then have m: "m = n" and k: "local_prog n (k x)" for x by simp_all
  have "fst (GetAllRemoteServerKeys n d) = fst (GetAllRemoteServerKeys n e)"
    using Keys.prems(2-4) by (intro reads_healthy(1)) (simp_all add: same_known_def)
  then show ?case unfolding m run_reads using Keys.IH [OF rangeI k, of "tick d" "tick e"] Keys.prems(2-4) by (simp add: healthy_tick)
next
  case (Sigs m k)
  then have m: "m = n" and k: "local_prog n (k x)" for x by simp_all
  have "fst (GetAllRemoteServerSignatures n d) = fst (GetAllRemoteServerSignatures n e)"
    using Sigs.prems(2-4) by (intro reads_healthy(2)) (simp_all add: same_known_def)
  then show ?case unfolding m run_reads using Sigs.IH [OF rangeI k, of "tick d" "tick e"] Sigs.prems(2-4) by (simp add: healthy_tick)
next
  case (Write s k)
  then have s: "locked_stmt n s" by simp
  have h: "db_healthy (snd (s d))" "db_healthy (snd (s e))"
    using s Write.prems(2,3) later_healthy by (auto simp: locked_stmt_def)
  have e: "fst (s d) = fst (s e)" "same_known n (snd (s d)) (snd (s e))" using s Write.prems(2-4) by (auto simp: locked_stmt_def)
  then show ?case unfolding run_reads e(1) using Write.IH [OF rangeI _ h e(2), of "fst (s e)"] Write.prems(1) by simp
qed simp_all

text \<open>
  The rest of an operation that has run its first statement: at its end, or local to a server whose row is there, or
  about to make the row.
\<close>

definition under_way :: "ServerName \<Rightarrow> db \<Rightarrow> 'r prog \<Rightarrow> bool" where
  "under_way n d p \<longleftrightarrow> (\<exists>r. p = Return r) \<or> local_prog n p \<and> map_of (remote_servers d) n \<noteq> None \<or>
     (\<exists>now u sigs addl notary out. p = write_prog now u sigs addl notary out \<and> n = sku_ServerName u)"

definition agrees :: "ServerName \<Rightarrow> 'a go \<times> db \<Rightarrow> 'a go \<times> db \<Rightarrow> bool" where
  "agrees n x y \<longleftrightarrow> fst x = fst y \<and> same_record n (snd x) (snd y)"

lemma under_way_write: "under_way (sku_ServerName u) d (write_prog now u sigs addl notary out)"
  unfolding under_way_def by blast

lemma agrees_trans: "agrees n x y \<Longrightarrow> agrees n y z \<Longrightarrow> agrees n x z"
  by (auto simp: agrees_def intro: same_record_trans)

lemma write_prog_run:
  assumes "db_healthy d" "db_healthy e" "same_record (sku_ServerName u) d e"
  shows "agrees (sku_ServerName u) (run (write_prog now u sigs addl notary out) d) (run (write_prog now u sigs addl notary out) e)"
proof -
  let ?up = "UpsertRemoteServer (sku_ServerName u) now (sku_ValidUntilTs u) addl notary"
  note up = upsert_healthy [OF assms, of now "sku_ValidUntilTs u" addl notary]
  have h: "db_healthy (snd (?up d))" "db_healthy (snd (?up e))"
    using assms(1,2) later_healthy later.moves_step [OF exec_later(1)] by blast+
  show ?thesis
  proof (cases "fst (?up e)")
    case (Ret x)
    have "local_prog (sku_ServerName u) (write_all (store_statements now u sigs addl notary) (out (stored_result now u sigs addl notary)))"
      by (rule write_all_local) (rule locked_store)
    from local_run [OF this h] show ?thesis using up Ret
      unfolding write_prog_def run_reads agrees_def on_value_def by (simp add: same_known_record)
  qed (use up in \<open>unfold write_prog_def run_reads agrees_def on_value_def, simp_all\<close>)
qed

text \<open>What the statements of others do to it: nothing that it can tell.\<close>

lemma under_way_others:
  assumes "under_way n d p" "same_record n d' d" "db_healthy d" "db_healthy d'"
  shows "under_way n d' p \<and> agrees n (run p d') (run p d)"
proof -
  consider (ret) r where "p = Return r" | (local) "local_prog n p" "map_of (remote_servers d) n \<noteq> None"
    | (store) now u sigs addl notary out where "p = write_prog now u sigs addl notary out" "n = sku_ServerName u"
    using assms(1) by (auto simp: under_way_def)
  then show ?thesis
  proof cases
    case ret
    then show ?thesis using assms(2) by (simp add: under_way_def agrees_def)
  next
    case local
    have k: "same_known n d' d" by (rule same_record_known [OF assms(2) local(2)])
    then have "map_of (remote_servers d') n \<noteq> None" by (auto simp: same_known_def)
    then show ?thesis using local local_run [OF local(1) assms(4,3) k] by (simp add: under_way_def agrees_def same_known_record)
  next
    case store
    then show ?thesis using write_prog_run [of d' d u] assms(2-4) by (simp add: under_way_write)
  qed
qed

lemma advance_read: "read_prog p \<Longrightarrow> advance p d = (p', d') \<Longrightarrow> read_prog p' \<and> same_tables d d'"
  by (cases p) (auto simp: advance_reads simp del: advance.simps(2-5))

text \<open>What its own next statement does.\<close>

lemma under_way_advance:
  assumes "under_way n d p" "advance p d = (p', d')" "db_healthy d"
  shows "under_way n d' p' \<and> others_same n d d' \<and> later d d'"
proof -
  consider (ret) r where "p = Return r" | (local) "local_prog n p" "map_of (remote_servers d) n \<noteq> None"
    | (store) now u sigs addl notary out where "p = write_prog now u sigs addl notary out" "n = sku_ServerName u"
    using assms(1) by (auto simp: under_way_def)
  then show ?thesis
  proof cases
    case ret
    then show ?thesis using assms(2) by (auto simp: under_way_def later.refl)
  next
    case local
    show ?thesis
    proof (cases p)
      case (Write s k)
      then have s: "locked_stmt n s" and p': "p' = k (fst (s d))" "d' = snd (s d)"
        using local(1) assms(2) by (auto simp: advance_reads simp del: advance.simps(2-5))
      have "same_known n d d" using local(2) by (auto simp: same_known_def same_rows_def same_content_def)
      then have "same_known n d' d'" using s assms(3) p'(2) by (auto simp: locked_stmt_def)
      then have "map_of (remote_servers d') n \<noteq> None" by (auto simp: same_known_def)
      then show ?thesis using local(1) Write s p' by (simp add: under_way_def locked_stmt_def)
    qed (use local assms(2) in \<open>auto simp: under_way_def advance_reads later.refl simp del: advance.simps(2-5)\<close>)
  next
    case store
    let ?up = "UpsertRemoteServer n now (sku_ValidUntilTs u) addl notary"
    have p': "p' = on_value (fst (?up d)) (\<lambda>_. write_all (store_statements now u sigs addl notary) (out (stored_result now u sigs addl notary)))"
      "d' = snd (?up d)"
      using store assms(2) by (auto simp: write_prog_def advance_reads simp del: advance.simps(2-5))
    have eff: "others_same n d d'" "later d d'" unfolding p'(2) by (rule writes_others_same later.moves_step [OF exec_later(1)])+
    show ?thesis
    proof (cases "fst (?up d)")
      case (Ret x)
      have "same_known n d' d'" using upsert_healthy(2) [OF assms(3,3), of n now "sku_ValidUntilTs u" addl notary] Ret p'(2) by simp
      then have "map_of (remote_servers d') n \<noteq> None" by (auto simp: same_known_def)
      moreover have "local_prog n p'" using Ret p'(1) store(2) write_all_local [OF locked_store] by (simp add: on_value_def)
      ultimately show ?thesis using eff by (simp add: under_way_def)
    qed (use p'(1) eff in \<open>simp_all add: under_way_def on_value_def\<close>)
  qed
qed

subsection \<open>Interleaved operations\<close>

text \<open>
  The operations in progress, and the database. \<open>Locked\<close> has the lock of its server and has run no
  statement; \<open>Running\<close> has run some, and remembers the database before the first; \<open>Finished\<close> has released the lock,
  and remembers its outcome and the database at that moment.
\<close>

datatype thread =
  Waiting operation
| Locked operation
| Running operation db "answer prog"
| Finished operation db "answer go" db

record machine =
  m_db :: db
  m_threads :: "thread list"

fun is_load :: "operation \<Rightarrow> bool" where
  "is_load (Load n) \<longleftrightarrow> True"
| "is_load _ \<longleftrightarrow> False"

fun holds :: "thread \<Rightarrow> operation option" where
  "holds (Locked op) = Some op"
| "holds (Running op d p) = Some op"
| "holds _ = None"

fun finished_prog :: "'r prog \<Rightarrow> bool" where
  "finished_prog (Return r) \<longleftrightarrow> True"
| "finished_prog _ \<longleftrightarrow> False"

text \<open>The \<open>RWMutex\<close> of a server: readers share it, a writer has it alone.\<close>

definition compatible :: "operation \<Rightarrow> operation option \<Rightarrow> bool" where
  "compatible op other = (case other of None \<Rightarrow> True | Some op' \<Rightarrow> server_of op' = server_of op \<longrightarrow> is_load op \<and> is_load op')"

definition serverLock :: "operation \<Rightarrow> thread list \<Rightarrow> bool" where
  "serverLock op ts = list_all (\<lambda>th. compatible op (holds th)) ts"

text \<open>
  \<open>Note\<close> is the failure that a probe notes without the lock, and \<open>Look\<close> any statement that only reads.
\<close>

inductive lock_step :: "machine \<Rightarrow> machine \<Rightarrow> bool" where
  Acquire: "t < length (m_threads m) \<Longrightarrow> m_threads m ! t = Waiting op \<Longrightarrow> serverLock op (m_threads m) \<Longrightarrow>
     lock_step m (m\<lparr>m_threads := (m_threads m)[t := Locked op]\<rparr>)"
| First: "t < length (m_threads m) \<Longrightarrow> m_threads m ! t = Locked op \<Longrightarrow> advance (program op) (m_db m) = (p, d) \<Longrightarrow>
     lock_step m \<lparr>m_db = d, m_threads = (m_threads m)[t := Running op (m_db m) p]\<rparr>"
| Next: "t < length (m_threads m) \<Longrightarrow> m_threads m ! t = Running op d0 p \<Longrightarrow> \<not> finished_prog p \<Longrightarrow> advance p (m_db m) = (p', d) \<Longrightarrow>
     lock_step m \<lparr>m_db = d, m_threads = (m_threads m)[t := Running op d0 p']\<rparr>"
| Release: "t < length (m_threads m) \<Longrightarrow> m_threads m ! t = Running op d0 (Return r) \<Longrightarrow>
     lock_step m (m\<lparr>m_threads := (m_threads m)[t := Finished op d0 r (m_db m)]\<rparr>)"
| Note: "lock_step m (m\<lparr>m_db := snd (NoteOriginFailure n now f a (m_db m))\<rparr>)"
| Look: "lock_step m (m\<lparr>m_db := tick (m_db m)\<rparr>)"

abbreviation lock_runs :: "machine \<Rightarrow> machine \<Rightarrow> bool" where
  "lock_runs \<equiv> lock_step\<^sup>*\<^sup>*"

subsection \<open>The invariant\<close>

definition thread_ok :: "db \<Rightarrow> thread \<Rightarrow> bool" where
  "thread_ok d th \<longleftrightarrow> (case th of
     Running op d0 p \<Rightarrow> under_way (server_of op) d p \<and> (is_load op \<longrightarrow> read_prog p) \<and> agrees (server_of op) (run p d) (atomically op d0)
   | Finished op d0 r d1 \<Rightarrow> agrees (server_of op) (r, d1) (atomically op d0)
   | _ \<Rightarrow> True)"

definition exclusive :: "thread list \<Rightarrow> bool" where
  "exclusive ts \<longleftrightarrow> (\<forall>i < length ts. \<forall>j < length ts. i \<noteq> j \<longrightarrow>
     (\<forall>op. holds (ts ! i) = Some op \<longrightarrow> compatible op (holds (ts ! j))))"

definition machine_ok :: "machine \<Rightarrow> bool" where
  "machine_ok m \<longleftrightarrow> db_healthy (m_db m) \<and> exclusive (m_threads m) \<and> (\<forall>t < length (m_threads m). thread_ok (m_db m) (m_threads m ! t))"

lemma thread_ok_others:
  assumes "thread_ok d th" "db_healthy d" "db_healthy d'" "\<And>op. holds th = Some op \<Longrightarrow> same_record (server_of op) d' d"
  shows "thread_ok d' th"
proof (cases th)
  case (Running op d0 p)
  then show ?thesis using assms under_way_others [of "server_of op" d p d'] agrees_trans by (fastforce simp: thread_ok_def)
qed (use assms(1) in \<open>simp_all add: thread_ok_def\<close>)

lemma exclusiveD:
  "exclusive ts \<Longrightarrow> i < length ts \<Longrightarrow> j < length ts \<Longrightarrow> i \<noteq> j \<Longrightarrow> holds (ts ! i) = Some op \<Longrightarrow> compatible op (holds (ts ! j))"
  by (simp add: exclusive_def)

lemma exclusive_release: "exclusive ts \<Longrightarrow> t < length ts \<Longrightarrow> holds th = None \<Longrightarrow> exclusive (ts[t := th])"
  by (auto simp: exclusive_def nth_list_update compatible_def [of _ None])

lemma exclusive_update:
  assumes "exclusive ts" "t < length ts" "holds th = holds (ts ! t)"
  shows "exclusive (ts[t := th])"
  using assms by (auto simp: exclusive_def nth_list_update)

lemma compatible_sym: "compatible op (Some op') \<Longrightarrow> compatible op' (Some op)"
  by (auto simp: compatible_def)

lemma exclusive_acquire:
  assumes "exclusive ts" "serverLock op ts" "t < length ts"
  shows "exclusive (ts[t := Locked op])"
proof -
  have free: "compatible op (holds (ts ! j))" if "j < length ts" for j
    using assms(2) that by (simp add: serverLock_def list_all_length)
  have "compatible a (Some op)" if "j < length ts" "holds (ts ! j) = Some a" for j a
    using free [OF that(1)] that(2) compatible_sym by simp
  then show ?thesis using assms(1,3) free by (auto simp: exclusive_def nth_list_update)
qed

text \<open>What a statement of one operation is for the others that hold a lock.\<close>

lemma others_keep:
  assumes "exclusive ts" "t < length ts" "holds (ts ! t) = Some op" "j < length ts" "j \<noteq> t" "holds (ts ! j) = Some a"
    and "others_same (server_of op) d d'" "is_load op \<Longrightarrow> same_tables d d'"
  shows "same_record (server_of a) d' d"
proof (cases "server_of a = server_of op")
  case True
  have "compatible op (Some a)" using assms(1-6) unfolding exclusive_def by metis
  then show ?thesis using True assms(8) by (simp add: compatible_def same_tables_record)
qed (rule others_same_record [OF assms(7)])

lemma step_thread_ok:
  assumes m: "machine_ok m" and t: "t < length (m_threads m)" "holds (m_threads m ! t) = Some op" "holds th = Some op"
    and d: "others_same (server_of op) (m_db m) d" "later (m_db m) d" "is_load op \<Longrightarrow> same_tables (m_db m) d" and th: "thread_ok d th"
  shows "machine_ok \<lparr>m_db = d, m_threads = (m_threads m)[t := th]\<rparr>"
proof -
  have h: "db_healthy (m_db m)" "db_healthy d" using m d(2) later_healthy by (auto simp: machine_ok_def)
  have e: "exclusive (m_threads m)" using m by (simp add: machine_ok_def)
  have "thread_ok d (m_threads m ! j)" if "j < length (m_threads m)" "j \<noteq> t" for j
    by (rule thread_ok_others [OF _ h]) (use m that others_keep [OF e t(1,2) that _ d(1,3)] in \<open>auto simp: machine_ok_def\<close>)
  then show ?thesis using h(2) exclusive_update [OF e t(1), of th] t(1-3) th by (auto simp: machine_ok_def nth_list_update)
qed

lemma metadata_known:
  assumes "fst (GetRemoteServerMetadata n d) = Ret (Some s)"
  shows "rs_ServerName s = n \<and> map_of (remote_servers d) n \<noteq> None"
proof -
  have "GetRemoteServerMetadata n d = (Ret (Some s), tick d)" using assms GetRemoteServerMetadata_snd [of n d] by (simp add: prod_eq_iff)
  then obtain row rows where "selectRemoteServer n (tick d) = row # rows" "rs_ServerName s = n"
    by (auto simp: GetRemoteServerMetadata_def act_bind_eq_Ret_iff query_row_Ret go_bind_eq_Ret_iff split: option.splits list.splits)
  then show ?thesis by (force simp: selectRemoteServer_def map_of_eq_None_iff filter_eq_Cons_iff map_eq_Cons_conv)
qed

text \<open>The first statement of an operation.\<close>

lemma first_statement:
  assumes "advance (program op) d = (p, d')" "db_healthy d"
  shows "under_way (server_of op) d' p \<and> (is_load op \<longrightarrow> read_prog p \<and> same_tables d d') \<and>
    others_same (server_of op) d d' \<and> later d d' \<and> agrees (server_of op) (run p d') (atomically op d)"
proof -
  have "agrees (server_of op) (run p d') (atomically op d)"
    using run_advance [OF assms(1)] by (simp add: run_program agrees_def)
  moreover have "under_way (server_of op) d' p \<and> (is_load op \<longrightarrow> read_prog p \<and> same_tables d d') \<and> others_same (server_of op) d d' \<and> later d d'"
  proof (cases op)
    case (Load n)
    let ?r = "fst (GetRemoteServerMetadata n d)"
    have p: "p = on_value ?r (case_option (Return (Ret (Loaded (None, None)))) (\<lambda>s. package_prog s (\<lambda>held. Loaded (Some s, Some held))))"
      "d' = tick d"
      using assms(1) Load by (simp_all add: advance_reads del: advance.simps(2-5))
    show ?thesis
    proof (cases "\<exists>s. ?r = Ret (Some s)")
      case True
      then obtain s where s: "?r = Ret (Some s)" by blast
      then show ?thesis using metadata_known [OF s] p Load by (simp add: under_way_def on_value_def package_progs)
    qed (use p Load in \<open>auto simp: under_way_def on_value_def split: go.split option.split\<close>)
  next
    case (Store now u sigs addl notary)
    let ?r = "fst (GetRemoteServerMetadata (sku_ServerName u) d)"
    have p: "p = (case ?r of
         Ret (Some ex) \<Rightarrow> if notary \<noteq> [] \<and> sku_ValidUntilTs u \<le> rs_ValidUntilTs ex then package_prog ex Stored
           else write_prog now u sigs addl notary Stored
       | Panic p \<Rightarrow> Return (Panic p) | _ \<Rightarrow> write_prog now u sigs addl notary Stored)" "d' = tick d"
      using assms(1) Store by (simp_all add: advance_reads del: advance.simps(2-5))
    have "under_way (sku_ServerName u) d' (package_prog ex Stored)" if "?r = Ret (Some ex)" for ex
      using metadata_known [OF that] p(2) by (simp add: under_way_def package_progs)
    moreover have "under_way (sku_ServerName u) d' (Return r)" for r :: "answer go" by (simp add: under_way_def)
    ultimately have "under_way (sku_ServerName u) d' p" unfolding p(1) using under_way_write by (auto split: go.split option.split)
    then show ?thesis using Store p(2) by simp
  next
    case (Invalidate n)
    have p: "p = on_value (fst (InvalidateRemoteServer n d)) (\<lambda>_. Return (Ret Invalidated))" "d' = snd (InvalidateRemoteServer n d)"
      using assms(1) Invalidate by (simp_all add: advance_reads del: advance.simps(2-5))
    then show ?thesis using Invalidate writes_others_same(4) [of n d] later.moves_step [OF exec_later(4), of d n]
      by (auto simp: under_way_def on_value_def split: go.split)
  qed
  ultimately show ?thesis by blast
qed

lemma lock_step_ok:
  assumes "lock_step m m'" "machine_ok m"
  shows "machine_ok m'"
  using assms(1)
proof cases
  case (Acquire t op)
  then show ?thesis using assms(2) exclusive_acquire by (auto simp: machine_ok_def nth_list_update thread_ok_def)
next
  case (First t op p d)
  have f: "under_way (server_of op) d p \<and> (is_load op \<longrightarrow> read_prog p \<and> same_tables (m_db m) d) \<and>
      others_same (server_of op) (m_db m) d \<and> later (m_db m) d \<and> agrees (server_of op) (run p d) (atomically op (m_db m))"
    using first_statement [OF First(4)] assms(2) by (simp add: machine_ok_def)
  then have "thread_ok d (Running op (m_db m) p)" by (simp add: thread_ok_def)
  then show ?thesis unfolding First(1) by (rule step_thread_ok [OF assms(2) First(2), of op, rotated -1]) (use f First(3) in auto)
next
  case (Next t op d0 p p' d)
  have ok: "thread_ok (m_db m) (Running op d0 p)" and h: "db_healthy (m_db m)" using assms(2) Next(2,3) by (auto simp: machine_ok_def)
  have u: "under_way (server_of op) d p' \<and> others_same (server_of op) (m_db m) d \<and> later (m_db m) d"
    by (rule under_way_advance [OF _ Next(5) h]) (use ok in \<open>simp add: thread_ok_def\<close>)
  have r: "is_load op \<Longrightarrow> read_prog p' \<and> same_tables (m_db m) d" using ok advance_read [OF _ Next(5)] by (simp add: thread_ok_def)
  have "thread_ok d (Running op d0 p')" using ok u r run_advance [OF Next(5)] by (simp add: thread_ok_def)
  then show ?thesis unfolding Next(1) by (rule step_thread_ok [OF assms(2) Next(2), of op, rotated -1]) (use u r Next(3) in auto)
next
  case (Release t op d0 r)
  have "exclusive ((m_threads m)[t := Finished op d0 r (m_db m)])" using assms(2) Release(2) exclusive_release by (simp add: machine_ok_def)
  moreover have "thread_ok (m_db m) (Running op d0 (Return r))" using assms(2) Release(2,3) by (auto simp: machine_ok_def)
  then have "thread_ok (m_db m) (Finished op d0 r (m_db m))" by (simp add: thread_ok_def)
  ultimately show ?thesis using assms(2) Release(1,2) by (auto simp: machine_ok_def nth_list_update)
next
  case (Note n now f a)
  let ?d = "snd (NoteOriginFailure n now f a (m_db m))"
  have h: "db_healthy (m_db m)" "db_healthy ?d"
    using assms(2) later_healthy [OF later.moves_step [OF exec_later(2)]] by (auto simp: machine_ok_def)
  then show ?thesis using assms(2) Note thread_ok_others [OF _ h] note_same_record by (simp add: machine_ok_def)
next
  case Look
  have h: "db_healthy (m_db m)" "db_healthy (tick (m_db m))" using assms(2) healthy_tick by (auto simp: machine_ok_def)
  then show ?thesis using assms(2) Look thread_ok_others [OF _ h] by (simp add: machine_ok_def)
qed

subsection \<open>Properties\<close>

text \<open>
  C8: operations on a server are atomic. However the statements of any number of loads, stores
  and invalidations interleave, with each other and with the statements that take no lock, each
  operation that finishes on a working database has returned what it returns when it runs alone on the database as it was
  before its first statement, and at its end the record of the server is what it then leaves, up to the schedule in the row,
  which is kept without the lock. And no store runs while another operation has the same server.
\<close>

theorem locked_operations_are_atomic:
  assumes "lock_runs \<lparr>m_db = d, m_threads = map Waiting ops\<rparr> m" and "db_healthy d" and "t < length (m_threads m)"
  shows "(\<forall>op d0 r d1. m_threads m ! t = Finished op d0 r d1 \<longrightarrow>
      r = fst (atomically op d0) \<and> same_record (server_of op) d1 (snd (atomically op d0))) \<and>
    (\<forall>op j op'. holds (m_threads m ! t) = Some op \<and> j < length (m_threads m) \<and> j \<noteq> t \<and> holds (m_threads m ! j) = Some op' \<and>
      server_of op' = server_of op \<longrightarrow> is_load op \<and> is_load op')"
proof -
  have "machine_ok \<lparr>m_db = d, m_threads = map Waiting ops\<rparr>"
    using assms(2) by (auto simp: machine_ok_def exclusive_def thread_ok_def)
  with assms(1) have "machine_ok m" by (induction rule: rtranclp_induct) (auto intro: lock_step_ok)
  then have "thread_ok (m_db m) (m_threads m ! t)" "exclusive (m_threads m)" using assms(3) by (simp_all add: machine_ok_def)
  then show ?thesis using exclusiveD [of "m_threads m" t, OF _ assms(3)] by (fastforce simp: thread_ok_def agrees_def compatible_def)
qed

theorem locked_operations_are_atomic_witness:
  "\<exists>m d0 d1. lock_runs \<lparr>m_db = empty_db (\<lambda>_. Works), m_threads = map Waiting [Load ''s'', Invalidate ''s'']\<rparr> m \<and>
     m_threads m ! 1 = Finished (Invalidate ''s'') d0 (Ret Invalidated) d1 \<and> fst (atomically (Invalidate ''s'') d0) = Ret Invalidated"
proof -
  let ?d = "empty_db (\<lambda>_. Works)"
  let ?m = "\<lparr>m_db = ?d, m_threads = [Waiting (Load ''s''), Waiting (Invalidate ''s'')]\<rparr>"
  have s: "pg_text ''s''" by (simp add: pg_text_def utf8_ok_ascii)
  have s1: "lock_step ?m \<lparr>m_db = ?d, m_threads = [Waiting (Load ''s''), Locked (Invalidate ''s'')]\<rparr>" (is "lock_step _ ?m1")
    using Acquire [of 1 ?m "Invalidate ''s''"] by (simp add: serverLock_def compatible_def)
  obtain d where d: "InvalidateRemoteServer ''s'' ?d = (Ret (), d)"
    using s by (simp add: InvalidateRemoteServer_def exec_stmt_healthy [OF empty_db_healthy] invalidateRemoteServer_def)
  have s2: "lock_step ?m1 \<lparr>m_db = d, m_threads = [Waiting (Load ''s''), Running (Invalidate ''s'') ?d (Return (Ret Invalidated))]\<rparr>" (is "lock_step _ ?m2")
    using First [of 1 ?m1 "Invalidate ''s''" "Return (Ret Invalidated)" d] d by (simp add: on_value_def)
  obtain e where s3: "lock_step ?m2 \<lparr>m_db = e, m_threads = [Waiting (Load ''s''), Running (Invalidate ''s'') ?d (Return (Ret Invalidated))]\<rparr>" (is "lock_step _ ?m3")
    using Note [of ?m2 "''s''" 0 1 60000] by auto
  have s4: "lock_step ?m3 \<lparr>m_db = e, m_threads = [Waiting (Load ''s''), Finished (Invalidate ''s'') ?d (Ret Invalidated) e]\<rparr>" (is "lock_step _ ?m4")
    using Release [of 1 ?m3 "Invalidate ''s''" ?d "Ret Invalidated"] by simp
  have runs: "lock_runs \<lparr>m_db = ?d, m_threads = map Waiting [Load ''s'', Invalidate ''s'']\<rparr> ?m4"
    using s1 s2 s3 s4 by (simp add: rtranclp.rtrancl_into_rtrancl [OF rtranclp.rtrancl_into_rtrancl
        [OF rtranclp.rtrancl_into_rtrancl [OF r_into_rtranclp [of lock_step]]]])
  from locked_operations_are_atomic [OF runs empty_db_healthy, of 1] show ?thesis using runs
    by (intro exI [of _ ?m4] exI [of _ ?d] exI [of _ e]) simp
qed

end
