(* ===== verification/Spec2Isabelle.thy ===== *)
theory Spec2Isabelle
  imports Metrics Locks
begin

text \<open>
  A verification development for a Matrix key server: a server that fetches the signing keys of
  other Matrix servers, verifies and stores them, and hands them out under its own signature.

  \<^bold>\<open>The program and the theories.\<close> A request enters at the HTTP layer (\<open>src/api\<close>), which asks the key
  resolution (\<open>src/keys\<close>) for the keys of a server. The resolution reads the database (\<open>src/db\<close>), and
  when what is held is not fresh it asks the origin, found through \<open>src/federation\<close>, and then
  the trusted notaries; what they answer is verified (\<open>src/signing\<close>) and stored. The answer is
  rebuilt from the rows, signed with the server's own keys and verified once more. A background
  sweep asks origins again whose backoff has passed. Each part has its theory:

  \<^item> \<open>Prelude\<close>: Go's results as values (\<open>'a go\<close>: a value, an error, or a panic), actions on a state
    (\<open>act\<close>) with their rules, finite maps as association lists in iteration order, 64-bit
    wrap-around, truncating division. \<open>Text\<close>: UTF-8, decimal numbers, the string functions.
  \<^item> \<open>Base64\<close>, \<open>Json\<close>, \<open>Signing\<close>: \<open>signing/unpadded_base64.go\<close>; \<open>encoding/json\<close> as far as it is used, with
    \<open>util/types.go\<close>; \<open>canonical_json.go\<close>, \<open>signing.go\<close>, \<open>verification.go\<close>, \<open>hashing.go\<close>, \<open>redaction.go\<close>.
  \<^item> \<open>Models\<close>, \<open>Db\<close>: \<open>db/models/keys.go\<close>; the tables of \<open>db/migrations\<close> as a record, each statement of
    \<open>db/queries.go\<close> as a function on it with the constraints of the tables, and each function of
    \<open>db/orm.go\<close>. Every statement takes one tick, and a fault schedule says of each whether it works, is lost
    before or after its effect, or is cut off in its row loop.
  \<^item> \<open>ServerKeys\<close>: \<open>api/api_models/local.go\<close>. \<open>Policy\<close>: the pure rules of \<open>keys/notary.go\<close> (freshness, backoff).
    \<open>NotaryWalks\<close>: \<open>keys/notaryWalks.go\<close>.
  \<^item> \<open>World\<close>: what the process holds (database, walk schedule, discovery cache, client pool, own key, and
    a record of its calls and of all that it counts and times) and the environment that it asks, with the
    operations of \<open>metrics/metrics.go\<close>.
    \<open>Federation\<close>, \<open>Discovery\<close>: \<open>federation/federation.go\<close>.
  \<^item> \<open>KeyStore\<close>, \<open>Fetch\<close>, \<open>Query\<close>: the rest of \<open>keys/notary.go\<close>: storing and loading, asking the origin, and
    the lookup that puts them together. \<open>Locks\<close>: \<open>serverLock\<close>, as a machine of interleaved statements.
    \<open>NotaryFallback\<close>: \<open>keys/notaryFallback.go\<close>; the two call
    each other, so a lookup takes the walk as an argument, and the walk looks up the keys of a notary
    with a lookup that walks no further. \<open>Sweeper\<close>: \<open>keys/originSweeper.go\<close>. \<open>SelfKeys\<close>: \<open>keys/self.go\<close>,
    \<open>util/rand.go\<close>.
  \<^item> \<open>Api\<close>: \<open>api/keys_v2\<close>, \<open>api/custom/verify.go\<close>, \<open>api/route_handler.go\<close>, the route table of
    \<open>api/webserver.go\<close>, and the small handlers and responses.
  \<^item> \<open>Startup\<close>: \<open>parseNotaries\<close> of \<open>main.go\<close>, \<open>db/keydb.go\<close> and \<open>db/migrator.go\<close> over the schema of the database.
    \<open>System\<close>: \<open>main\<close>, and the life of the process as a step relation. \<open>Metrics\<close>: what its instrumentation shows.

  \<^bold>\<open>The interfaces.\<close> \<open>Evolution\<close> has the four that carry the invariants. \<open>evolution\<close> takes any preorder on
  states and proves that it passes through the combinators of actions. \<open>fetching\<close> extends it by what the
  primitive steps of a fetch may do, \<open>probing\<close> by those of a probe around it, and \<open>serving\<close> by those of the
  rest of the server: they are the contract between
  the stateful parts and everything above them, and every handler is proved once, in its own theory,
  to respect it. It is interpreted as \<open>valid\<close>, the invariant of the world; as \<open>steady\<close>, the identity of the
  server and the health of its database; as \<open>labelled\<close>, the labels of the metrics; as \<open>uncounted\<close>, for handlers that
  count no request themselves. \<open>probing\<close> is also interpreted as \<open>silent\<close>, for probes that count no lookup, and
  \<open>fetching\<close> as \<open>untimed\<close>, for fetches that leave their own timing to the probe.

  \<^bold>\<open>What the lemmas show.\<close>

  \<^item> Text formats: base64 and JSON round trips, canonical bytes determine the value, key objects survive
    being written and read, and what passes validation is usable.
  \<^item> Cryptography use: signing then verifying succeeds, acceptance is characterised exactly, redaction
    keeps event signatures, and when verification can panic.
  \<^item> Storage: the integrity constraints in every reachable database under faults; storing refines the abstract
    reservoir of \<open>KeyStore\<close> and loading returns it; notary copies never replace newer ones; what a failing
    statement can destroy.
  \<^item> Resolution: what a fetch accepts (and what it fails to check), what a notary's answer must prove, which notary answer
    is chosen, every branch of a lookup, when it stays off the network, and that it answers at all.
  \<^item> Schedules: bounds of the backoff, of the walks (up to the delay with which a request asks for one) and of the
    discovery cache; which origins a sweep probes and what it counts; and what becomes of a swept origin.
  \<^item> Service: what is served verifies under held and own keys, each server of a batch is answered once, accepted
    requests were signed by the origin they name (their body only when it is a JSON object or \<open>null\<close>), the server's
    own document carries the signatures of all its keys.
  \<^item> The process: the invariant of all its parts across requests, sweeps and restarts, one identity for ever,
    upgrades of every released schema, and what a start that is cut off in a migration leaves for ever.
  \<^item> The instrumentation: every lookup and every request is counted once, under the outcome or status it had,
    and which labels are bounded.

  The theorems on errors (\<open>store_failures\<close>, \<open>fetch_takes_foreign_unsigned_answer\<close>, \<open>broken_list_mints_second_key\<close>,
  \<open>interrupted_migration_blocks_every_start\<close>, \<open>unknown_methods_make_series\<close>, \<open>batch_body_errors\<close>,
  \<open>verify_panics_on_short_key\<close>, \<open>unread_body_ignored\<close>, \<open>foreign_answer_stays_due\<close>, \<open>delayed_walks_close\<close>) record what the
  code does and should not do.

  \<^bold>\<open>Conventions and bounds.\<close>

  \<^item> Bytes are characters below 256 and Go strings are lists of them. Integers of 64 bits are \<open>int\<close> with the wrap-around
    written out where the code can overflow. Timestamps are milliseconds, the clock is in nanoseconds;
    \<open>clock_ok\<close> says that it fits 64 bits after 1970.
  \<^item> JSON numbers are integers; the documents that are decoded and re-encoded keep them exact up to \<open>2 ^ 53\<close>, and
    a number with a fraction or an exponent, a negative zero or a larger number is outside the model and does not
    parse; \<open>exact_numbers\<close> of \<open>Api\<close> says that a request body has none. Nesting is limited to 10000 as in
    \<open>encoding/json\<close>. The reader has fuel \<open>Suc (2 * length)\<close> of its input, and each of its calls
    consumes a character or passes to a structurally smaller task, so the fuel never runs out.
  \<^item> Maps are iterated in the order of their list, which is arbitrary; what depends on the order of a Go map is
    stated for every order. The order in which a batch visits the servers of its request is an argument of its
    handler, \<open>batch_order\<close>, like the order in which its lookups run.
  \<^item> A function that holds the lock of its server (\<open>loadHeld\<close>, \<open>storeRemoteKeys\<close>, \<open>InvalidateHeld\<close>) is one action;
    \<open>Locks\<close> proves that it behaves as one when its statements interleave with others. Beyond that requests are
    serialised. The lookups of a batch run in any order that the schedule gives, one after the other.
  \<^item> ed25519 and SHA-256 are parameters (\<open>crypto\<close>) with their documented laws as named hypotheses where used; so
    are HTTP and the URLs it accepts, DNS, \<open>go-cache\<close>, the package \<open>is\<close>, the clock and the random source (\<open>env\<close>), files and
    \<open>sql.Open\<close> (\<open>boot\<close>). They may answer anything and differently each time.
  \<^item> Migrations are recorded without the package path in their names. Header names are in canonical form.

  \<^bold>\<open>Not modelled.\<close> Logging writes lines that nothing reads. The counters, gauges and buckets that the
  prometheus package makes of what is observed, their exposition, pprof and the listening socket are outside.
  Matching a path against a route is the router package: a
  request step takes any registered route of the method of the request, or a fallback. Timeouts appear as errors that HTTP returns.
  A panic of a handler ends its request; a panic inside a goroutine of a batch, which ends the
  process, is a request step followed by a stop.
\<close>

end
